(* ===== verification/Prelude.thy ===== *)
theory Prelude
  imports Main "HOL-Library.Multiset" "HOL-Library.Product_Lexorder" "HOL-Library.Sublist"
begin

text \<open>
  Shared ground of the development: the collections of simp rules the component theories
  fill, the list operations of Python the sources use (slices and the stable
  \<open>sorted\<close> with and without \<open>reverse\<close>), the row operations of SQL on tables kept
  as lists, and transition systems with the induction principle every safety proof uses.
\<close>

named_theorems pystr_eval \<open>unfolding rules that evaluate string operations on literals\<close>
named_theorems sql_simps \<open>row-level facts about the SQL operations\<close>
named_theorems step_facts \<open>what one step of a component keeps\<close>

section \<open>Python list operations\<close>

text \<open>\<open>xs[:k]\<close> for an arbitrary Python integer: a negative bound counts from the end.\<close>

definition slice_to :: "int \<Rightarrow> 'a list \<Rightarrow> 'a list" where
  "slice_to k xs = (if 0 \<le> k then take (nat k) xs else take (length xs - nat (- k)) xs)"

lemma length_slice_to_le: "0 \<le> k \<Longrightarrow> int (length (slice_to k xs)) \<le> k"
  by (simp add: slice_to_def)

lemma slice_to_all: "int (length xs) \<le> k \<Longrightarrow> slice_to k xs = xs"
  by (simp add: slice_to_def)

lemma set_slice_to: "set (slice_to k xs) \<subseteq> set xs"
  by (auto simp: slice_to_def dest: in_set_takeD)

lemma distinct_slice_to: "distinct xs \<Longrightarrow> distinct (slice_to k xs)"
  by (simp add: slice_to_def)

lemma sorted_map_slice_to: "sorted (map f xs) \<Longrightarrow> sorted (map f (slice_to k xs))"
  by (simp add: slice_to_def take_map [symmetric] sorted_wrt_take)

text \<open>
  \<open>sorted(xs, key=f)\<close> is stable; with \<open>reverse=True\<close> it is still stable: elements
  with equal keys keep their order, so it is the reversal of the sort of the reversal.
\<close>

definition py_sorted :: "('a \<Rightarrow> 'k::linorder) \<Rightarrow> 'a list \<Rightarrow> 'a list" where
  "py_sorted f xs = sort_key f xs"

definition py_sorted_rev :: "('a \<Rightarrow> 'k::linorder) \<Rightarrow> 'a list \<Rightarrow> 'a list" where
  "py_sorted_rev f xs = rev (sort_key f (rev xs))"

lemma py_sorted_contents [simp]:
  "mset (py_sorted f xs) = mset xs" "set (py_sorted f xs) = set xs"
  "length (py_sorted f xs) = length xs" "distinct (py_sorted f xs) = distinct xs"
  by (simp_all add: py_sorted_def)

lemma py_sorted_rev_contents [simp]:
  "mset (py_sorted_rev f xs) = mset xs" "set (py_sorted_rev f xs) = set xs"
  "length (py_sorted_rev f xs) = length xs" "distinct (py_sorted_rev f xs) = distinct xs"
  by (simp_all add: py_sorted_rev_def)

lemma py_sorted_eq_Nil [simp]: "py_sorted f xs = [] \<longleftrightarrow> xs = []"
  by (metis length_0_conv py_sorted_contents(3))

lemma sorted_py_sorted: "sorted (map f (py_sorted f xs))"
  by (simp add: py_sorted_def)

lemma sorted_py_sorted_rev: "sorted_wrt (\<lambda>x y. f y \<le> f x) (py_sorted_rev f xs)"
proof -
  have "sorted_wrt (\<lambda>x y. f x \<le> f y) (sort_key f (rev xs))"
    using sorted_sort_key [of f "rev xs"] by (simp add: sorted_map)
  then show ?thesis by (simp add: py_sorted_rev_def sorted_wrt_rev)
qed

lemma py_sorted_stable:
  "filter (\<lambda>x. f x = k) (py_sorted f xs) = filter (\<lambda>x. f x = k) xs"
  by (simp add: py_sorted_def sort_key_stable)

lemma py_sorted_rev_stable:
  "filter (\<lambda>x. f x = k) (py_sorted_rev f xs) = filter (\<lambda>x. f x = k) xs"
  using sort_key_stable [of f k "rev xs"]
  by (simp add: py_sorted_rev_def rev_filter [symmetric] flip: rev_filter)

text \<open>\<open>list(dict.fromkeys(xs))\<close>: the first occurrence of every element, in order.\<close>

fun from_keys_acc :: "'a list \<Rightarrow> 'a list \<Rightarrow> 'a list" where
  "from_keys_acc seen [] = []"
| "from_keys_acc seen (x # xs) =
     (if x \<in> set seen then from_keys_acc seen xs
      else x # from_keys_acc (x # seen) xs)"

definition from_keys :: "'a list \<Rightarrow> 'a list" where
  "from_keys xs = from_keys_acc [] xs"

lemma from_keys_acc_props:
  "set (from_keys_acc seen xs) = set xs - set seen \<and> distinct (from_keys_acc seen xs)"
  by (induction seen xs rule: from_keys_acc.induct) auto

lemma set_from_keys [simp]: "set (from_keys xs) = set xs"
  using from_keys_acc_props [of "[]" xs] by (simp add: from_keys_def)

lemma distinct_from_keys [simp]: "distinct (from_keys xs)"
  using from_keys_acc_props [of "[]" xs] by (simp add: from_keys_def)

lemma from_keys_acc_distinct:
  "distinct xs \<Longrightarrow> set xs \<inter> set seen = {} \<Longrightarrow> from_keys_acc seen xs = xs"
  by (induction seen xs rule: from_keys_acc.induct) auto

lemma from_keys_id: "distinct xs \<Longrightarrow> from_keys xs = xs"
  by (simp add: from_keys_def from_keys_acc_distinct)

lemma from_keys_eq_Nil [simp]: "from_keys xs = [] \<longleftrightarrow> xs = []"
  by (metis set_empty set_from_keys)

section \<open>Tables as lists of rows\<close>

text \<open>\<open>UPDATE t SET f WHERE p\<close> and \<open>DELETE FROM t WHERE p\<close>.\<close>

definition sql_update :: "('r \<Rightarrow> bool) \<Rightarrow> ('r \<Rightarrow> 'r) \<Rightarrow> 'r list \<Rightarrow> 'r list" where
  "sql_update p f rows = map (\<lambda>r. if p r then f r else r) rows"

definition sql_delete :: "('r \<Rightarrow> bool) \<Rightarrow> 'r list \<Rightarrow> 'r list" where
  "sql_delete p rows = filter (\<lambda>r. \<not> p r) rows"

lemma length_sql_update [simp]: "length (sql_update p f rows) = length rows"
  by (simp add: sql_update_def)

lemma set_sql_update: "set (sql_update p f rows) = (\<lambda>r. if p r then f r else r) ` set rows"
  by (simp add: sql_update_def)

lemma set_sql_update_one:
  assumes "r \<in> set rows" and "\<And>s. s \<in> set rows \<Longrightarrow> p s \<longleftrightarrow> s = r"
  shows "set (sql_update p f rows) = insert (f r) (set rows - {r})"
proof -
  have "set (sql_update p f rows) = (\<lambda>s. if s = r then f r else s) ` set rows"
    unfolding set_sql_update using assms(2) by (intro image_cong) auto
  with assms(1) show ?thesis by auto
qed

lemma set_sql_delete [simp, sql_simps]: "set (sql_delete p rows) = {r \<in> set rows. \<not> p r}"
  by (simp add: sql_delete_def)

lemma sql_update_none: "\<forall>r \<in> set rows. \<not> p r \<Longrightarrow> sql_update p f rows = rows"
  unfolding sql_update_def by (rule map_idI) auto

lemma sql_update_Nil [simp, sql_simps]: "sql_update p f [] = []"
  by (simp add: sql_update_def)

lemma sql_update_Cons [sql_simps]:
  "sql_update p f (r # rows) = (if p r then f r else r) # sql_update p f rows"
  by (simp add: sql_update_def)

lemma map_sql_update:
  "(\<And>r. r \<in> set rows \<Longrightarrow> p r \<Longrightarrow> g (f r) = g r) \<Longrightarrow> map g (sql_update p f rows) = map g rows"
  by (simp add: sql_update_def)

lemma distinct_map_sql_delete: "distinct (map g rows) \<Longrightarrow> distinct (map g (sql_delete p rows))"
  by (simp add: sql_delete_def distinct_map_filter)

lemma in_sql_updateE:
  assumes "r \<in> set (sql_update p f rows)"
  obtains (hit) r0 where "r0 \<in> set rows" "p r0" "r = f r0"
    | (miss) "r \<in> set rows" "\<not> p r"
  using assms by (auto simp: sql_update_def split: if_splits)

lemma sql_update_hit: "r \<in> set rows \<Longrightarrow> p r \<Longrightarrow> f r \<in> set (sql_update p f rows)"
  by (force simp: sql_update_def)

lemma sql_update_miss: "r \<in> set rows \<Longrightarrow> \<not> p r \<Longrightarrow> r \<in> set (sql_update p f rows)"
  by (force simp: sql_update_def)

lemma filter_ConsD: "filter P xs = y # ys \<Longrightarrow> y \<in> set xs \<and> P y"
  by (induction xs) (auto split: if_splits)

lemma key_unique:
  "distinct (map g rows) \<Longrightarrow> r \<in> set rows \<Longrightarrow> s \<in> set rows \<Longrightarrow> g r = g s \<Longrightarrow> r = s"
  by (simp add: distinct_map inj_on_def)

section \<open>Transition systems\<close>

text \<open>
  A component whose operations are called in an order nobody controls is a relation
  labelled with the call. A run is a list of labels; a state is reachable when some run
  from an initial state leads to it.
\<close>

inductive run :: "('s \<Rightarrow> 'e \<Rightarrow> 's \<Rightarrow> bool) \<Rightarrow> 's \<Rightarrow> 'e list \<Rightarrow> 's \<Rightarrow> bool" for step where
  run_nil: "run step s [] s"
| run_cons: "step s e t \<Longrightarrow> run step t es u \<Longrightarrow> run step s (e # es) u"

inductive_cases run_nilE: "run step s [] t"
inductive_cases run_consE: "run step s (e # es) t"

inductive_simps run_nil_iff [simp]: "run step s [] t"
inductive_simps run_cons_iff: "run step s (e # es) t"

lemma run_append: "run step s (xs @ ys) u \<longleftrightarrow> (\<exists>t. run step s xs t \<and> run step t ys u)"
  by (induction xs arbitrary: s) (auto simp: run_cons_iff)

definition reachable :: "('s \<Rightarrow> bool) \<Rightarrow> ('s \<Rightarrow> 'e \<Rightarrow> 's \<Rightarrow> bool) \<Rightarrow> 's \<Rightarrow> bool" where
  "reachable init step s \<longleftrightarrow> (\<exists>s0 es. init s0 \<and> run step s0 es s)"

lemma reachable_init: "init s \<Longrightarrow> reachable init step s"
  unfolding reachable_def by (blast intro: run_nil)

lemma reachable_run: "reachable init step s \<Longrightarrow> run step s es t \<Longrightarrow> reachable init step t"
  unfolding reachable_def by (metis run_append)

lemma reachable_step: "reachable init step s \<Longrightarrow> step s e t \<Longrightarrow> reachable init step t"
  by (blast intro: reachable_run run_cons run_nil)

text \<open>
  The contract of a safety proof: an invariant that holds initially and that every step
  keeps. Components discharge it once; every reachable state then satisfies it.
\<close>

locale safe_system =
  fixes init :: "'s \<Rightarrow> bool"
    and step :: "'s \<Rightarrow> 'e \<Rightarrow> 's \<Rightarrow> bool"
    and inv :: "'s \<Rightarrow> bool"
  assumes inv_init: "init s \<Longrightarrow> inv s"
    and inv_step: "inv s \<Longrightarrow> step s e t \<Longrightarrow> inv t"
begin

lemma inv_run: "run step s es t \<Longrightarrow> inv s \<Longrightarrow> inv t"
  by (induction rule: run.induct) (auto intro: inv_step)

lemma inv_reachable: "reachable init step s \<Longrightarrow> inv s"
  by (auto simp: reachable_def intro: inv_run inv_init)

end

text \<open>
  The same with a preorder between states that every step respects: what a component only
  ever grows, or never gives back.
\<close>

locale ordered_system = safe_system init step inv
  for init :: "'s \<Rightarrow> bool" and step :: "'s \<Rightarrow> 'e \<Rightarrow> 's \<Rightarrow> bool" and inv +
  fixes rel :: "'s \<Rightarrow> 's \<Rightarrow> bool"
  assumes rel_refl: "rel s s"
    and rel_trans: "rel s t \<Longrightarrow> rel t u \<Longrightarrow> rel s u"
    and rel_step: "inv s \<Longrightarrow> step s e t \<Longrightarrow> rel s t"
begin

lemma rel_run: "run step s es t \<Longrightarrow> inv s \<Longrightarrow> rel s t"
  by (induction rule: run.induct) (blast intro: rel_refl inv_step rel_trans rel_step)+

end

text \<open>
  A quantity that no step lowers (a counter of attempts, the set of durable rows).
\<close>

locale monotone_system = safe_system init step inv
  for init :: "'s \<Rightarrow> bool" and step :: "'s \<Rightarrow> 'e \<Rightarrow> 's \<Rightarrow> bool" and inv +
  fixes level :: "'s \<Rightarrow> 'o::preorder"
  assumes level_step: "inv s \<Longrightarrow> step s e t \<Longrightarrow> level s \<le> level t"

sublocale monotone_system \<subseteq> grows: ordered_system init step inv "\<lambda>s t. level s \<le> level t"
  by unfold_locales (auto intro: order_trans level_step)

text \<open>
  Refinement of an abstract machine: the component's states are read as abstract ones, and a step is
  seen there as finitely many abstract steps, possibly none. What holds of every abstract state
  then holds of what is read off the component.
\<close>

locale simulation = safe_system init step inv
  for init :: "'s \<Rightarrow> bool" and step :: "'s \<Rightarrow> 'e \<Rightarrow> 's \<Rightarrow> bool" and inv +
  fixes view :: "'s \<Rightarrow> 'a" and astart :: "'a \<Rightarrow> bool" and astep :: "'a \<Rightarrow> 'a \<Rightarrow> bool"
  assumes view_init: "init s \<Longrightarrow> astart (view s)"
    and view_step: "inv s \<Longrightarrow> step s e t \<Longrightarrow> astep\<^sup>*\<^sup>* (view s) (view t)"
begin

lemma view_run: "run step s es t \<Longrightarrow> inv s \<Longrightarrow> astep\<^sup>*\<^sup>* (view s) (view t)"
  by (induction rule: run.induct) (blast intro: rtranclp_trans view_step inv_step)+

lemma view_reachable: "reachable init step s \<Longrightarrow> \<exists>a. astart a \<and> astep\<^sup>*\<^sup>* a (view s)"
  unfolding reachable_def by (blast intro: view_run view_init inv_init)

lemma view_invariant:
  assumes "reachable init step s" and "\<And>a. astart a \<Longrightarrow> P a"
    and "\<And>a b. P a \<Longrightarrow> astep a b \<Longrightarrow> P b"
  shows "P (view s)"
proof -
  from view_reachable [OF assms(1)] obtain a where "astart a" "astep\<^sup>*\<^sup>* a (view s)" by blast
  from this(2) assms(2) [OF this(1)] show ?thesis by (induction) (auto intro: assms(3))
qed

end

end
