(* ===== verification/PyStr.thy ===== *)
theory PyStr
  imports Prelude
begin

text \<open>
  Python's \<open>str\<close>: a list of code points (\<open>len\<close> counts code points, so a HOL
  \<open>char list\<close>, which counts bytes, would not do: the diffs, prompts and comments are
  full of emoji). This theory holds the methods of \<open>str\<close> the sources call, each as the
  language defines it: \<open>strip\<close> and \<open>isspace\<close> with the whole Unicode whitespace set,
  \<open>splitlines\<close> with all its line boundaries, \<open>int(s)\<close> with sign, underscores and
  the decimal digits of every script, \<open>str(n)\<close>, \<open>in\<close>, \<open>replace\<close>,
  \<open>split\<close>, \<open>join\<close>.
\<close>

type_synonym pystr = "int list"

definition lit :: "string \<Rightarrow> pystr" where
  [pystr_eval]: "lit s = map of_char s"

abbreviation NL :: int where "NL \<equiv> 10"

section \<open>Character classes\<close>

definition is_space :: "int \<Rightarrow> bool" where
  [pystr_eval]: "is_space c \<longleftrightarrow> (9 \<le> c \<and> c \<le> 13) \<or> (28 \<le> c \<and> c \<le> 32) \<or> c = 133 \<or> c = 160
     \<or> c = 5760 \<or> (8192 \<le> c \<and> c \<le> 8202) \<or> c = 8232 \<or> c = 8233 \<or> c = 8239
     \<or> c = 8287 \<or> c = 12288"

definition is_line_break :: "int \<Rightarrow> bool" where
  [pystr_eval]: "is_line_break c \<longleftrightarrow> (10 \<le> c \<and> c \<le> 13) \<or> (28 \<le> c \<and> c \<le> 30) \<or> c = 133
     \<or> c = 8232 \<or> c = 8233"

text \<open>The code points of the digit zero of every script of Unicode 15 (category Nd).\<close>

definition decimal_zeros :: "int list" where
  "decimal_zeros = [48, 1632, 1776, 1984, 2406, 2534, 2662, 2790, 2918, 3046, 3174, 3302,
     3430, 3558, 3664, 3792, 3872, 4160, 4240, 6112, 6160, 6470, 6608, 6784, 6800, 6992,
     7088, 7232, 7248, 42528, 43216, 43264, 43472, 43504, 43600, 44016, 65296, 66720,
     68912, 69734, 69872, 69942, 70096, 70384, 70736, 70864, 71248, 71360, 71472, 71904,
     72016, 72784, 73040, 73120, 73552, 92768, 92864, 93008, 120782, 120792, 120802,
     120812, 120822, 123200, 123632, 124144, 125264, 130032]"

definition digit_val :: "int \<Rightarrow> int option" where
  "digit_val c = (if 48 \<le> c \<and> c \<le> 57 then Some (c - 48)
     else map_option (\<lambda>z. c - z) (find (\<lambda>z. z \<le> c \<and> c \<le> z + 9) decimal_zeros))"

lemma digit_val_ascii [simp]: "48 \<le> c \<Longrightarrow> c \<le> 57 \<Longrightarrow> digit_val c = Some (c - 48)"
  by (simp add: digit_val_def)

lemma digit_val_low: "c < 48 \<Longrightarrow> digit_val c = None"
  by (simp add: digit_val_def decimal_zeros_def)

text \<open>
  \<open>lower()\<close> on ASCII and on the only two code points outside ASCII whose lower case
  holds an ASCII character (dotted capital I and the Kelvin sign). Every other code point is left as
  it is: the sources only look for ASCII words in a lower-cased text.
\<close>

definition lower_cp :: "int \<Rightarrow> pystr" where
  [pystr_eval]: "lower_cp c = (if 65 \<le> c \<and> c \<le> 90 then [c + 32]
     else if c = 304 then [105, 775] else if c = 8490 then [107] else [c])"

definition lower :: "pystr \<Rightarrow> pystr" where
  [pystr_eval]: "lower s = concat (map lower_cp s)"

lemma lower_append: "lower (s @ t) = lower s @ lower t"
  by (simp add: lower_def)

section \<open>Trimming and searching\<close>

definition lstrip :: "pystr \<Rightarrow> pystr" where
  [pystr_eval]: "lstrip s = dropWhile is_space s"

definition rstrip :: "pystr \<Rightarrow> pystr" where
  [pystr_eval]: "rstrip s = rev (dropWhile is_space (rev s))"

definition strip :: "pystr \<Rightarrow> pystr" where
  [pystr_eval]: "strip s = rstrip (lstrip s)"

definition strip_char :: "int \<Rightarrow> pystr \<Rightarrow> pystr" where
  [pystr_eval]: "strip_char c s = rev (dropWhile (\<lambda>x. x = c) (rev (dropWhile (\<lambda>x. x = c) s)))"

definition starts :: "pystr \<Rightarrow> pystr \<Rightarrow> bool" where
  [pystr_eval]: "starts p s \<longleftrightarrow> take (length p) s = p"

definition ends :: "pystr \<Rightarrow> pystr \<Rightarrow> bool" where
  [pystr_eval]: "ends p s \<longleftrightarrow> starts (rev p) (rev s)"

lemma starts_iff: "starts p s \<longleftrightarrow> (\<exists>t. s = p @ t)"
  by (metis append_eq_conv_conj append_take_drop_id starts_def)

lemma ends_iff: "ends p s \<longleftrightarrow> (\<exists>t. s = t @ p)"
  by (simp add: ends_def starts_iff) (metis rev_append rev_rev_ident)

text \<open>\<open>p in s\<close>.\<close>

fun contains :: "pystr \<Rightarrow> pystr \<Rightarrow> bool" where
  "contains p [] \<longleftrightarrow> p = []"
| "contains p (c # s) \<longleftrightarrow> starts p (c # s) \<or> contains p s"

lemma contains_iff: "contains p s \<longleftrightarrow> (\<exists>u v. s = u @ p @ v)"
proof (induction s)
  case (Cons c s)
  have "(\<exists>u v. c # s = u @ p @ v) \<longleftrightarrow> (\<exists>v. c # s = p @ v) \<or> (\<exists>u v. s = u @ p @ v)"
    by (auto simp: Cons_eq_append_conv)
  with Cons show ?case by (simp add: starts_iff)
qed simp

lemma contains_refl [simp]: "contains s s"
  unfolding contains_iff by (metis append_Nil append_Nil2)

lemma contains_Nil [simp]: "contains [] s"
  unfolding contains_iff by (metis append_Nil)

lemma contains_append1: "contains p s \<Longrightarrow> contains p (s @ t)"
  by (auto simp: contains_iff) (metis append_assoc)

lemma contains_append2: "contains p t \<Longrightarrow> contains p (s @ t)"
  by (auto simp: contains_iff) (metis append_assoc)

lemma contains_length: "contains p s \<Longrightarrow> length p \<le> length s"
  by (auto simp: contains_iff)

lemma contains_set: "contains p s \<Longrightarrow> set p \<subseteq> set s"
  by (auto simp: contains_iff)

lemma contains_trans: "contains p s \<Longrightarrow> contains s t \<Longrightarrow> contains p t"
  by (auto simp: contains_iff) (metis append_assoc)

text \<open>
  An occurrence in \<open>s @ c # t\<close> that does not use the separator \<open>c\<close> lies on one side.
\<close>

lemma contains_append_sep:
  assumes "c \<notin> set p"
  shows "contains p (s @ c # t) \<longleftrightarrow> contains p s \<or> contains p t"
proof
  assume "contains p (s @ c # t)"
  then obtain u v where eq: "s @ c # t = u @ p @ v" by (auto simp: contains_iff)
  then consider (left) w where "s = (u @ p) @ w" | (right) w where "u @ p = s @ w" "c # t = w @ v"
    by (metis append_assoc append_eq_append_conv2)
  then show "contains p s \<or> contains p t"
  proof cases
    case left
    then have "contains p s" by (auto simp: contains_iff)
    then show ?thesis ..
  next
    case right
    show ?thesis
    proof (cases w)
      case Nil
      with right(1) have "contains p s" by (auto simp: contains_iff) (metis append_Nil2)
      then show ?thesis ..
    next
      case (Cons d w')
      with right have d: "d = c" and t: "t = w' @ v" by auto
      from right(1) Cons d have "u @ p = s @ c # w'" by simp
      then obtain us where "us @ p = c # w'"
        using assms by (auto simp: append_eq_append_conv2)
      with assms obtain q where "w' = q @ p" by (cases us) auto
      with t have "contains p t" by (auto simp: contains_iff)
      then show ?thesis ..
    qed
  qed
next
  assume "contains p s \<or> contains p t"
  then show "contains p (s @ c # t)"
    by (metis append.simps(1) append.simps(2) contains_append1 contains_append2)
qed

text \<open>An occurrence whose first character is not on the left and whose last is not on the right.\<close>

lemma contains_apart:
  assumes "p \<noteq> []" "hd p \<notin> set s" "last p \<notin> set t"
  shows "contains p (s @ x @ t) \<longleftrightarrow> contains p x"
proof
  assume "contains p (s @ x @ t)"
  then have "contains p (x @ t)"
    using assms(1,2)
  proof (induction s)
    case (Cons c s)
    then have "\<not> starts p (c # s @ x @ t)" by (cases p) (auto simp: starts_iff)
    with Cons show ?case by auto
  qed simp
  then obtain u v where "x @ t = (u @ p) @ v" by (auto simp: contains_iff)
  then have "(\<exists>w. x = (u @ p) @ w) \<or> (\<exists>w. u @ p = x @ w \<and> t = w @ v)"
    by (metis append_eq_append_conv2)
  then consider w where "x = (u @ p) @ w" | w where "u @ p = x @ w" "t = w @ v" by blast
  then show "contains p x"
  proof cases
    case 1
    then show ?thesis by (auto simp: contains_iff)
  next
    case 2
    have "w = []"
    proof (rule ccontr)
      assume "w \<noteq> []"
      with 2 assms(1) have "last p = last w" by (metis last_appendR)
      with \<open>w \<noteq> []\<close> 2 assms(1,3) show False using last_in_set by fastforce
    qed
    with 2 show ?thesis by (auto simp: contains_iff) (metis append_Nil2)
  qed
qed (simp add: contains_append1 contains_append2)

section \<open>Splitting, joining, replacing\<close>

definition join :: "pystr \<Rightarrow> pystr list \<Rightarrow> pystr" where
  [pystr_eval]: "join sep parts = (case parts of [] \<Rightarrow> []
     | p # ps \<Rightarrow> p @ concat (map (\<lambda>q. sep @ q) ps))"

lemma join_simps [simp]:
  "join sep [] = []" "join sep [p] = p" "join sep (p # q # ps) = p @ sep @ join sep (q # ps)"
  by (simp_all add: join_def)

lemma contains_join: "p \<in> set ps \<Longrightarrow> contains p (join sep ps)"
proof (induction ps)
  case (Cons q ps)
  then show ?case
    by (cases ps) (auto intro: contains_append1 contains_append2)
qed simp

lemma join_snoc: "ps \<noteq> [] \<Longrightarrow> join sep (ps @ [q]) = join sep ps @ sep @ q"
  by (cases ps) (simp_all add: join_def)

text \<open>\<open>s.split(c)\<close> for a one-character separator.\<close>

fun split_on :: "int \<Rightarrow> pystr \<Rightarrow> pystr list" where
  "split_on c [] = [[]]"
| "split_on c (x # s) = (if x = c then [] # split_on c s
     else (case split_on c s of [] \<Rightarrow> [[x]] | p # ps \<Rightarrow> (x # p) # ps))"

lemma split_on_ne [simp]: "split_on c s \<noteq> []"
  by (induction c s rule: split_on.induct) (auto split: list.splits)

lemma join_split_on: "join [c] (split_on c s) = s"
proof (induction c s rule: split_on.induct)
  case (2 c x s)
  then show ?case
    by (cases "split_on c s") (auto simp: join_def)
qed simp

lemma split_on_no_sep: "p \<in> set (split_on c s) \<Longrightarrow> c \<notin> set p"
  by (induction c s arbitrary: p rule: split_on.induct) (auto split: list.splits if_splits)

text \<open>\<open>str.split()\<close>: the maximal runs of characters that are no white space.\<close>

function words_of :: "pystr \<Rightarrow> pystr list" where
  "words_of s = (let t = dropWhile is_space s in
     if t = [] then [] else takeWhile (\<lambda>c. \<not> is_space c) t # words_of (dropWhile (\<lambda>c. \<not> is_space c) t))"
  by pat_completeness auto

termination
proof (relation "measure length")
  fix s t :: pystr
  assume t: "t = dropWhile is_space s" "t \<noteq> []"
  then have "\<not> is_space (hd t)" using hd_dropWhile by blast
  with t(2) have "length (dropWhile (\<lambda>c. \<not> is_space c) t) < length t"
    by (cases t) (simp_all add: le_imp_less_Suc length_dropWhile_le)
  with t(1) length_dropWhile_le [of is_space s] show "(dropWhile (\<lambda>c. \<not> is_space c) t, s) \<in> measure length"
    by simp
qed simp

declare words_of.simps [simp del]

text \<open>\<open>s.replace(old, new)\<close>; the sources never pass an empty \<open>old\<close>.\<close>

function replace :: "pystr \<Rightarrow> pystr \<Rightarrow> pystr \<Rightarrow> pystr" where
  "replace old new [] = []"
| "replace old new (c # s) =
     (if old \<noteq> [] \<and> starts old (c # s)
      then new @ replace old new (drop (length old) (c # s))
      else c # replace old new s)"
  by pat_completeness auto
termination
  by (relation "measure (\<lambda>(old, new, s). length s)") auto

lemma replace_absent: "\<not> contains old s \<Longrightarrow> replace old new s = s"
  by (induction old new s rule: replace.induct) auto

text \<open>\<open>s.splitlines()\<close>.\<close>

fun lines_from :: "pystr \<Rightarrow> pystr \<Rightarrow> pystr list" where
  "lines_from cur [] = (if cur = [] then [] else [cur])"
| "lines_from cur (c # s) =
     (if c = 13 then cur # lines_from [] (if s \<noteq> [] \<and> hd s = NL then tl s else s)
      else if is_line_break c then cur # lines_from [] s
      else lines_from (cur @ [c]) s)"

definition splitlines :: "pystr \<Rightarrow> pystr list" where
  "splitlines s = lines_from [] s"

definition one_line :: "pystr \<Rightarrow> bool" where
  "one_line s \<longleftrightarrow> list_all (\<lambda>c. \<not> is_line_break c) s"

lemma is_line_break_NL [simp]: "is_line_break NL"
  by (simp add: is_line_break_def)

lemma is_line_break_CR [simp]: "is_line_break 13"
  by (simp add: is_line_break_def)

lemma lines_from_line: "one_line l \<Longrightarrow> lines_from cur (l @ NL # s) = (cur @ l) # lines_from [] s"
  by (induction l arbitrary: cur) (auto simp: one_line_def is_line_break_def)

lemma lines_from_last: "one_line l \<Longrightarrow> lines_from cur l = (if cur @ l = [] then [] else [cur @ l])"
  by (induction l arbitrary: cur) (auto simp: one_line_def is_line_break_def)

lemma splitlines_line: "one_line l \<Longrightarrow> splitlines (l @ NL # s) = l # splitlines s"
  by (simp add: splitlines_def lines_from_line)

lemma splitlines_unlines:
  "(\<And>l. l \<in> set ls \<Longrightarrow> one_line l) \<Longrightarrow> splitlines (concat (map (\<lambda>l. l @ [NL]) ls)) = ls"
proof (induction ls)
  case Nil
  show ?case by (simp add: splitlines_def)
next
  case (Cons l ls)
  then have "splitlines (l @ NL # concat (map (\<lambda>l. l @ [NL]) ls)) = l # ls"
    by (simp add: splitlines_line)
  then show ?case by simp
qed

section \<open>Integers as text\<close>

text \<open>\<open>str(n)\<close> and \<open>int(s)\<close> (\<open>None\<close> is \<open>ValueError\<close>).\<close>

function digits_of :: "int \<Rightarrow> pystr" where
  "digits_of n = (if n < 10 then [48 + n] else digits_of (n div 10) @ [48 + n mod 10])"
  by pat_completeness auto
termination
  by (relation "measure nat") auto

declare digits_of.simps [simp del]

definition str_int :: "int \<Rightarrow> pystr" where
  "str_int n = (if n < 0 then 45 # digits_of (- n) else digits_of n)"

fun digit_run :: "int \<Rightarrow> pystr \<Rightarrow> int option" where
  "digit_run acc [] = None"
| "digit_run acc (c # s) = (case digit_val c of None \<Rightarrow> None
     | Some d \<Rightarrow> (let acc' = 10 * acc + d in
         if s = [] then Some acc'
         else if hd s = 95 then digit_run acc' (tl s) else digit_run acc' s))"

definition py_int :: "pystr \<Rightarrow> int option" where
  "py_int s = (case strip s of [] \<Rightarrow> None
     | c # r \<Rightarrow> if c = 45 then map_option uminus (digit_run 0 r)
               else if c = 43 then digit_run 0 r else digit_run 0 (c # r))"

lemma digit_run_snoc:
  assumes "digit_run acc s = Some v" and "48 \<le> d" and "d \<le> 57"
  shows "digit_run acc (s @ [d]) = Some (10 * v + (d - 48))"
  using assms
proof (induction acc s rule: digit_run.induct)
  case (2 acc c s)
  then show ?case
    by (cases s) (auto simp: Let_def split: option.splits if_splits)
qed simp

lemma digits_of_range: "0 \<le> n \<Longrightarrow> c \<in> set (digits_of n) \<Longrightarrow> 48 \<le> c \<and> c \<le> 57"
proof (induction n rule: digits_of.induct)
  case (1 n)
  then show ?case
    by (subst (asm) (2) digits_of.simps) (auto split: if_splits simp: pos_imp_zdiv_nonneg_iff)
qed

lemma digits_of_ne [simp]: "digits_of n \<noteq> []"
  by (subst digits_of.simps) simp

lemma digit_run_digits_of: "0 \<le> n \<Longrightarrow> digit_run 0 (digits_of n) = Some n"
proof (induction n rule: digits_of.induct)
  case (1 n)
  show ?case
  proof (cases "n < 10")
    case True
    with "1.prems" show ?thesis by (subst digits_of.simps) simp
  next
    case False
    with 1 have "digit_run 0 (digits_of (n div 10)) = Some (n div 10)" by simp
    then have "digit_run 0 (digits_of (n div 10) @ [48 + n mod 10])
        = Some (10 * (n div 10) + (48 + n mod 10 - 48))"
      by (rule digit_run_snoc) (simp_all add: pos_mod_bound order.strict_implies_order [of "n mod 10" 10, simplified])
    with False show ?thesis by (subst digits_of.simps) simp
  qed
qed

lemma strip_id: "s \<noteq> [] \<Longrightarrow> \<not> is_space (hd s) \<Longrightarrow> \<not> is_space (last s) \<Longrightarrow> strip s = s"
proof -
  assume "s \<noteq> []" "\<not> is_space (hd s)" "\<not> is_space (last s)"
  then have "dropWhile is_space s = s" "dropWhile is_space (rev s) = rev s"
    by (simp_all add: dropWhile_eq_self_iff hd_rev)
  then show ?thesis by (simp add: strip_def lstrip_def rstrip_def)
qed

lemma not_space_digit: "48 \<le> c \<Longrightarrow> c \<le> 57 \<Longrightarrow> \<not> is_space c"
  by (simp add: is_space_def)

theorem py_int_str_int: "py_int (str_int n) = Some n"
proof (cases "n < 0")
  case True
  then have "\<not> is_space (last (digits_of (- n)))"
    using digits_of_range [of "- n" "last (digits_of (- n))"] by (simp add: not_space_digit)
  then have "strip (45 # digits_of (- n)) = 45 # digits_of (- n)"
    by (intro strip_id) (simp_all add: is_space_def)
  with True show ?thesis by (simp add: py_int_def str_int_def digit_run_digits_of)
next
  case False
  then have range: "48 \<le> c \<and> c \<le> 57" if "c \<in> set (digits_of n)" for c
    using digits_of_range [of n c] that by auto
  from range have "strip (digits_of n) = digits_of n"
    by (intro strip_id) (simp_all add: not_space_digit)
  with False range [of "hd (digits_of n)"] show ?thesis
    by (cases "digits_of n") (auto simp: py_int_def str_int_def digit_run_digits_of [of n, symmetric])
qed

end
