(* ===== verification/PyValue.thy ===== *)
theory PyValue
  imports PyStr
begin

text \<open>
  Dynamically typed values, as JSON documents and payloads hold them, with the tests the
  sources make on them (\<open>isinstance\<close>, truthiness, \<open>dict.get\<close>, \<open>d[k]\<close>,
  \<open>int(v)\<close>), and exceptions as values: the class of the exception, its text
  (\<open>str(e)\<close>) and the HTTP response some of them carry.
\<close>

section \<open>Exceptions\<close>

datatype exn_kind = RuntimeError | ValueError | KeyError | TypeError | OverflowError
  | IndexError | AttributeError | JSONDecodeError | ValidationError | UnicodeError
  | HTTPStatusError | TransportError | TimeoutError | DatabaseError | LLMError | OSError
  | ZeroDivisionError

record http_meta =
  meta_status :: int
  meta_headers :: "(pystr \<times> pystr) list"

record exn =
  exn_kind :: exn_kind
  exn_msg :: pystr
  exn_response :: "http_meta option"

type_synonym 'a outcome = "exn + 'a"

definition raise_exn :: "exn_kind \<Rightarrow> pystr \<Rightarrow> 'a outcome" where
  "raise_exn k m = Inl \<lparr>exn_kind = k, exn_msg = m, exn_response = None\<rparr>"

definition bind :: "'a outcome \<Rightarrow> ('a \<Rightarrow> 'b outcome) \<Rightarrow> 'b outcome" where
  "bind r k = (case r of Inl e \<Rightarrow> Inl e | Inr x \<Rightarrow> k x)"

lemma bind_simps [simp]: "bind (Inl e) k = Inl e" "bind (Inr x) k = k x"
  by (simp_all add: bind_def)

text \<open>A loop that collects one result per element and stops at the first that raises.\<close>

fun each :: "('a \<Rightarrow> 'b outcome) \<Rightarrow> 'a list \<Rightarrow> 'b list outcome" where
  "each f [] = Inr []"
| "each f (x # xs) = bind (f x) (\<lambda>y. bind (each f xs) (\<lambda>ys. Inr (y # ys)))"

lemma bind_Inr_iff: "bind r k = Inr y \<longleftrightarrow> (\<exists>x. r = Inr x \<and> k x = Inr y)"
  by (cases r) simp_all

lemma raise_exn_neq [simp]: "raise_exn k m \<noteq> Inr x"
  by (simp add: raise_exn_def)

lemma each_Inr_iff: "each f xs = Inr ys \<longleftrightarrow> list_all2 (\<lambda>x y. f x = Inr y) xs ys"
  by (induction xs arbitrary: ys) (auto simp: bind_Inr_iff list_all2_Cons1)

lemma each_Inr_total: "(\<And>x. x \<in> set xs \<Longrightarrow> f x = Inr (g x)) \<Longrightarrow> each f xs = Inr (map g xs)"
  by (induction xs) simp_all

lemma each_member: "each f xs = Inr ys \<Longrightarrow> y \<in> set ys \<Longrightarrow> \<exists>x \<in> set xs. f x = Inr y"
proof (induction xs arbitrary: ys)
  case (Cons x xs)
  then obtain z zs where "f x = Inr z" "each f xs = Inr zs" "ys = z # zs" by (auto simp: bind_Inr_iff)
  with Cons show ?case by auto
qed simp

lemma each_append: "each f (xs @ ys) = bind (each f xs) (\<lambda>us. bind (each f ys) (\<lambda>vs. Inr (us @ vs)))"
  by (induction xs) (auto simp: bind_def split: sum.split)

text \<open>The subclasses of \<open>ValueError\<close> among them.\<close>

definition is_value_error :: "exn \<Rightarrow> bool" where
  "is_value_error e \<longleftrightarrow>
     exn_kind e \<in> {ValueError, JSONDecodeError, ValidationError, UnicodeError}"

section \<open>Values\<close>

text \<open>A finite float is \<open>m * 2 ^ e\<close>, which every IEEE double is.\<close>

datatype pyfloat = Finite int int | Infinite bool | NaN

datatype pyval = PNone | PBool bool | PInt int | PFloat pyfloat | PStr pystr
  | PList "pyval list" | PDict "(pystr \<times> pyval) list"

type_synonym pydict = "(pystr \<times> pyval) list"

fun truthy :: "pyval \<Rightarrow> bool" where
  "truthy PNone = False"
| "truthy (PBool b) = b"
| "truthy (PInt n) = (n \<noteq> 0)"
| "truthy (PFloat f) = (case f of Finite m e \<Rightarrow> m \<noteq> 0 | _ \<Rightarrow> True)"
| "truthy (PStr s) = (s \<noteq> [])"
| "truthy (PList xs) = (xs \<noteq> [])"
| "truthy (PDict kvs) = (kvs \<noteq> [])"

text \<open>\<open>d.get(k)\<close>, \<open>d.get(k, default)\<close> and \<open>d[k]\<close> on a dictionary.\<close>

definition dict_get :: "pydict \<Rightarrow> pystr \<Rightarrow> pyval" where
  "dict_get d k = (case map_of d k of None \<Rightarrow> PNone | Some v \<Rightarrow> v)"

definition dict_get_or :: "pydict \<Rightarrow> pystr \<Rightarrow> pyval \<Rightarrow> pyval" where
  "dict_get_or d k v0 = (case map_of d k of None \<Rightarrow> v0 | Some v \<Rightarrow> v)"

definition dict_item :: "pydict \<Rightarrow> pystr \<Rightarrow> pyval outcome" where
  "dict_item d k = (case map_of d k of None \<Rightarrow> raise_exn KeyError k | Some v \<Rightarrow> Inr v)"

text \<open>\<open>d[k] = v\<close>: in place when the key is there, at the end otherwise.\<close>

fun dict_set :: "pydict \<Rightarrow> pystr \<Rightarrow> pyval \<Rightarrow> pydict" where
  "dict_set [] k v = [(k, v)]"
| "dict_set ((k', v') # d) k v = (if k' = k then (k', v) # d else (k', v') # dict_set d k v)"

lemma map_of_dict_set [simp]: "map_of (dict_set d k v) = (map_of d)(k \<mapsto> v)"
  by (induction d k v rule: dict_set.induct) (auto simp: fun_upd_twist)

lemma dict_get_set [simp]:
  "dict_get (dict_set d k v) k' = (if k' = k then v else dict_get d k')"
  by (simp add: dict_get_def)

text \<open>\<open>int(v)\<close>: a float is truncated towards zero, a string is parsed.\<close>

definition trunc_float :: "int \<Rightarrow> int \<Rightarrow> int" where
  "trunc_float m e = (if 0 \<le> e then m * 2 ^ nat e
     else if 0 \<le> m then m div 2 ^ nat (- e) else - ((- m) div 2 ^ nat (- e)))"

definition to_int :: "pyval \<Rightarrow> int outcome" where
  "to_int v = (case v of
       PInt n \<Rightarrow> Inr n
     | PBool b \<Rightarrow> Inr (if b then 1 else 0)
     | PFloat (Finite m e) \<Rightarrow> Inr (trunc_float m e)
     | PFloat (Infinite s) \<Rightarrow> raise_exn OverflowError (lit ''cannot convert float infinity to integer'')
     | PFloat NaN \<Rightarrow> raise_exn ValueError (lit ''cannot convert float NaN to integer'')
     | PStr s \<Rightarrow> (case py_int s of Some n \<Rightarrow> Inr n
         | None \<Rightarrow> raise_exn ValueError (lit ''invalid literal for int() with base 10''))
     | _ \<Rightarrow> raise_exn TypeError (lit ''int() argument must be a string or a real number''))"

lemma to_int_PInt [simp]: "to_int (PInt n) = Inr n"
  by (simp add: to_int_def)

text \<open>\<open>isinstance(v, int)\<close> holds of booleans too, whose values are 0 and 1.\<close>

definition as_int :: "pyval \<Rightarrow> int option" where
  "as_int v = (case v of PInt n \<Rightarrow> Some n | PBool b \<Rightarrow> Some (if b then 1 else 0) | _ \<Rightarrow> None)"

definition as_str :: "pyval \<Rightarrow> pystr option" where
  "as_str v = (case v of PStr s \<Rightarrow> Some s | _ \<Rightarrow> None)"

definition as_dict :: "pyval \<Rightarrow> pydict option" where
  "as_dict v = (case v of PDict d \<Rightarrow> Some d | _ \<Rightarrow> None)"

definition as_list :: "pyval \<Rightarrow> pyval list option" where
  "as_list v = (case v of PList xs \<Rightarrow> Some xs | _ \<Rightarrow> None)"

lemma as_simps [simp]:
  "as_int (PInt n) = Some n" "as_int (PStr s) = None" "as_int PNone = None"
  "as_str (PStr s) = Some s" "as_str (PInt n) = None" "as_str PNone = None"
  "as_dict (PDict d) = Some d" "as_dict (PStr s) = None" "as_dict (PList xs) = None"
  "as_dict PNone = None" "as_list (PList xs) = Some xs" "as_list (PDict d) = None"
  "as_list (PStr s) = None" "as_list PNone = None"
  by (simp_all add: as_int_def as_str_def as_dict_def as_list_def)

text \<open>\<open>data[k]\<close> on a parsed document: only a dictionary takes a string key.\<close>

definition subscript :: "pyval \<Rightarrow> pystr \<Rightarrow> pyval outcome" where
  "subscript v k = (case as_dict v of Some d \<Rightarrow> dict_item d k
     | None \<Rightarrow> raise_exn TypeError (lit ''not subscriptable with a string''))"

text \<open>An f-string's field; \<open>str\<close> of floats, lists and dictionaries is an argument.\<close>

definition show_field :: "(pyval \<Rightarrow> pystr) \<Rightarrow> pyval \<Rightarrow> pystr" where
  "show_field str_of v = (case v of PStr s \<Rightarrow> s | PNone \<Rightarrow> lit ''None'' | PInt n \<Rightarrow> str_int n
     | PBool b \<Rightarrow> (if b then lit ''True'' else lit ''False'') | _ \<Rightarrow> str_of v)"

end
