(* ===== verification/Pool.thy ===== *)
theory Pool
  imports Settings
begin

text \<open>
  \<open>app/services/db/core.py\<close>: the process-wide holder of the connection pool. Its state
  is the pool, if there is one; opening a pool, closing it and listing the tables are
  outcomes of the environment.
\<close>

record pool =
  conninfo :: pystr
  min_size :: int
  max_size :: int
  opened :: bool

type_synonym pool_state = "pool option"

definition get_pool :: "pool_state \<Rightarrow> pool outcome" where
  "get_pool st = (case st of
     None \<Rightarrow> raise_exn RuntimeError (lit ''Database pool not initialized. Call connect() first.'')
   | Some p \<Rightarrow> Inr p)"

text \<open>
  The pool is stored before it is opened, so an exception of \<open>open()\<close> leaves it there.
\<close>

definition connect :: "settings \<Rightarrow> unit outcome \<Rightarrow> pool_state \<Rightarrow> unit outcome \<times> pool_state" where
  "connect cfg open_result st = (case st of
     Some p \<Rightarrow> (Inr (), Some p)
   | None \<Rightarrow>
       let p = \<lparr>conninfo = DATABASE_URL cfg, min_size = DB_POOL_MIN_SIZE cfg,
                max_size = db_pool_max_size cfg, opened = False\<rparr>
       in case open_result of
            Inl e \<Rightarrow> (Inl e, Some p)
          | Inr _ \<Rightarrow> (Inr (), Some (p\<lparr>opened := True\<rparr>)))"

definition disconnect :: "unit outcome \<Rightarrow> pool_state \<Rightarrow> unit outcome \<times> pool_state" where
  "disconnect close_result st = (case st of
     None \<Rightarrow> (Inr (), None)
   | Some p \<Rightarrow> (case close_result of Inl e \<Rightarrow> (Inl e, Some p) | Inr _ \<Rightarrow> (Inr (), None)))"

text \<open>
  \<open>wait_for_tables\<close>: \<open>probe i\<close> is what the query of attempt \<open>i\<close> yields, the names
  in the public schema or an exception. The result carries the number of attempts and of
  sleeps, so that the bound on the waiting time can be stated.
\<close>

record wait_result =
  wr_outcome :: "unit outcome"
  wr_attempts :: nat
  wr_slept :: int

definition never_created :: "pystr list \<Rightarrow> unit outcome" where
  "never_created tables = raise_exn RuntimeError
     (lit ''Required tables ['' @ join (lit '', '') (map (\<lambda>t. 39 # t @ [39]) tables)
      @ lit ''] were never created.'')"

lemma never_created_neq [simp]: "never_created tables \<noteq> Inr x"
  by (simp add: never_created_def)

fun wait_loop :: "(nat \<Rightarrow> pystr list outcome) \<Rightarrow> pystr list \<Rightarrow> int \<Rightarrow> nat \<Rightarrow> nat \<Rightarrow> int \<Rightarrow> wait_result" where
  "wait_loop probe tables delay i 0 slept =
     \<lparr>wr_outcome = never_created tables,
      wr_attempts = i, wr_slept = slept\<rparr>"
| "wait_loop probe tables delay i (Suc retries) slept =
     (case probe i of
        Inr existing \<Rightarrow>
          if list_all (\<lambda>t. t \<in> set existing) tables
          then \<lparr>wr_outcome = Inr (), wr_attempts = Suc i, wr_slept = slept\<rparr>
          else wait_loop probe tables delay (Suc i) retries (slept + delay)
      | Inl e \<Rightarrow> wait_loop probe tables delay (Suc i) retries (slept + delay))"

definition wait_for_tables ::
    "(nat \<Rightarrow> pystr list outcome) \<Rightarrow> pystr list \<Rightarrow> nat \<Rightarrow> int \<Rightarrow> pool_state \<Rightarrow> wait_result" where
  "wait_for_tables probe tables retries delay st = (case get_pool st of
     Inl e \<Rightarrow> \<lparr>wr_outcome = Inl e, wr_attempts = 0, wr_slept = 0\<rparr>
   | Inr p \<Rightarrow> wait_loop probe tables delay 0 retries 0)"

section \<open>What the holder promises\<close>

definition tables_ready :: "pystr list outcome \<Rightarrow> pystr list \<Rightarrow> bool" where
  "tables_ready r tables \<longleftrightarrow> (case r of Inl e \<Rightarrow> False | Inr existing \<Rightarrow> set tables \<subseteq> set existing)"

lemma wait_loop_step:
  "wait_loop probe tables delay i (Suc n) slept =
     (if tables_ready (probe i) tables
      then \<lparr>wr_outcome = Inr (), wr_attempts = Suc i, wr_slept = slept\<rparr>
      else wait_loop probe tables delay (Suc i) n (slept + delay))"
  by (auto simp: tables_ready_def list_all_iff split: sum.splits)

declare wait_loop.simps(2) [simp del]

text \<open>
  The loop returns after the first successful probe, having slept once per failed one; it
  raises exactly when all probes fail.
\<close>

lemma wait_loop_success:
  assumes "tables_ready (probe (i + k)) tables" and "k < n"
    and "\<And>m. m < k \<Longrightarrow> \<not> tables_ready (probe (i + m)) tables"
  shows "wait_loop probe tables delay i n slept =
    \<lparr>wr_outcome = Inr (), wr_attempts = Suc (i + k), wr_slept = slept + int k * delay\<rparr>"
  using assms
proof (induction k arbitrary: i n slept)
  case 0
  then show ?case by (cases n) (simp_all add: wait_loop_step)
next
  case (Suc k)
  from Suc.prems(2) obtain n' where n: "n = Suc n'" by (cases n) auto
  have "\<not> tables_ready (probe (Suc i + m)) tables" if "m < k" for m
    using Suc.prems(3) [of "Suc m"] that by simp
  then have "wait_loop probe tables delay (Suc i) n' (slept + delay) =
      \<lparr>wr_outcome = Inr (), wr_attempts = Suc (Suc i + k),
       wr_slept = slept + delay + int k * delay\<rparr>"
    using Suc.prems(1,2) n by (intro Suc.IH) simp_all
  with Suc.prems(3) [of 0] n show ?case
    by (simp add: wait_loop_step algebra_simps)
qed

lemma wait_loop_failure:
  assumes "\<And>m. m < n \<Longrightarrow> \<not> tables_ready (probe (i + m)) tables"
  shows "wait_loop probe tables delay i n slept =
    \<lparr>wr_outcome = never_created tables,
     wr_attempts = i + n, wr_slept = slept + int n * delay\<rparr>"
  using assms
proof (induction n arbitrary: i slept)
  case (Suc n)
  have "\<not> tables_ready (probe (Suc i + m)) tables" if "m < n" for m
    using Suc.prems [of "Suc m"] that by simp
  then show ?case
    using Suc.IH [of "Suc i"] Suc.prems [of 0]
    by (simp add: wait_loop_step algebra_simps)
qed simp

lemma wait_for_tables_iff:
  assumes "st = Some p"
  shows "wr_outcome (wait_for_tables probe tables retries delay st) = Inr ()
    \<longleftrightarrow> (\<exists>k<retries. tables_ready (probe k) tables)"
proof
  assume ok: "wr_outcome (wait_for_tables probe tables retries delay st) = Inr ()"
  show "\<exists>k<retries. tables_ready (probe k) tables"
  proof (rule ccontr)
    assume "\<not> ?thesis"
    then have "wait_loop probe tables delay 0 retries 0 =
      \<lparr>wr_outcome = never_created tables,
       wr_attempts = 0 + retries, wr_slept = 0 + int retries * delay\<rparr>"
      by (intro wait_loop_failure) auto
    with ok assms show False by (simp add: wait_for_tables_def get_pool_def)
  qed
next
  assume "\<exists>k<retries. tables_ready (probe k) tables"
  then obtain k where k: "k < retries" "tables_ready (probe k) tables"
    "\<And>m. m < k \<Longrightarrow> \<not> tables_ready (probe m) tables"
    using exists_least_iff [of "\<lambda>k. k < retries \<and> tables_ready (probe k) tables"]
    by (metis order.strict_trans)
  then have "wait_loop probe tables delay 0 retries 0 =
      \<lparr>wr_outcome = Inr (), wr_attempts = Suc (0 + k), wr_slept = 0 + int k * delay\<rparr>"
    by (intro wait_loop_success) simp_all
  with assms show "wr_outcome (wait_for_tables probe tables retries delay st) = Inr ()"
    by (simp add: wait_for_tables_def get_pool_def)
qed

lemma wait_for_tables_bounded:
  assumes "0 \<le> delay"
  shows "wr_slept (wait_for_tables probe tables retries delay st) \<le> int retries * delay"
proof -
  have "wr_slept (wait_loop probe tables delay i n slept) \<le> slept + int n * delay" for i n slept
  proof (induction n arbitrary: i slept)
    case (Suc n)
    have "0 \<le> int n * delay" using assms by simp
    with Suc [of "Suc i" "slept + delay"] assms show ?case
      by (simp add: wait_loop_step algebra_simps)
  qed simp
  from this [of 0 retries 0] show ?thesis
    using assms by (simp add: wait_for_tables_def get_pool_def raise_exn_def split: option.split)
qed

text \<open>
  The life cycle as a transition system: \<open>get_pool\<close> succeeds exactly between a
  \<open>connect\<close> and the next completed \<open>disconnect\<close>, and the pool's bounds are always those
  of the settings.
\<close>

datatype pool_event = Connect "unit outcome" | Disconnect "unit outcome"

inductive pool_step :: "settings \<Rightarrow> pool_state \<Rightarrow> pool_event \<Rightarrow> pool_state \<Rightarrow> bool" for cfg where
  connects: "connect cfg r st = (res, st') \<Longrightarrow> pool_step cfg st (Connect r) st'"
| disconnects: "disconnect r st = (res, st') \<Longrightarrow> pool_step cfg st (Disconnect r) st'"

inductive_simps pool_step_simps:
  "pool_step cfg st (Connect r) st'" "pool_step cfg st (Disconnect r) st'"

definition pool_sized :: "settings \<Rightarrow> pool_state \<Rightarrow> bool" where
  "pool_sized cfg st \<longleftrightarrow> (\<forall>p. st = Some p \<longrightarrow>
     min_size p = DB_POOL_MIN_SIZE cfg \<and> max_size p = db_pool_max_size cfg)"

interpretation pool_life: safe_system "\<lambda>st. st = None" "pool_step cfg" "pool_sized cfg" for cfg
proof
  show "pool_sized cfg s" if "s = None" for s
    using that by (simp add: pool_sized_def)
  show "pool_sized cfg t" if "pool_sized cfg s" "pool_step cfg s e t" for s e t
    using that by (cases e)
      (auto simp: pool_step_simps pool_sized_def connect_def disconnect_def Let_def
            split: option.splits sum.splits)
qed

text \<open>
  Whatever the calls of \<open>connect\<close> and \<open>disconnect\<close> and their outcomes, a pool that exists
  has consistent bounds, and room for more than two connections per worker.
\<close>

theorem pool_bounds:
  assumes "reachable (\<lambda>st. st = None) (pool_step cfg) (Some p)"
  shows "(min_size p \<le> max_size p)
    \<and> (2 * WORKER_CONCURRENCY cfg < max_size p)"
  using pool_life.inv_reachable [OF assms] db_pool_max_size_ge [of cfg]
  by (simp_all add: pool_sized_def)

theorem pool_bounds_witness:
  "2 * WORKER_CONCURRENCY default_settings <
     max_size \<lparr>conninfo = DATABASE_URL default_settings, min_size = 10, max_size = 15, opened = True\<rparr>"
proof (rule pool_bounds [OF reachable_step [OF reachable_init], THEN conjunct2])
  show "pool_step default_settings None (Connect (Inr ())) (Some \<lparr>conninfo = DATABASE_URL default_settings,
      min_size = 10, max_size = 15, opened = True\<rparr>)"
    by (simp add: pool_step_simps connect_def default_settings_def db_pool_max_size_def)
qed simp

text \<open>
  Waiting for the tables ends: it succeeds exactly when one of the \<open>retries\<close> probes sees
  every table, otherwise it raises, and it never sleeps longer than \<open>retries * delay\<close>.
\<close>

theorem wait_for_tables_decides:
  assumes "get_pool st = Inr p" and "0 \<le> delay"
  shows "(wr_outcome (wait_for_tables probe tables retries delay st) = Inr ()
           \<longleftrightarrow> (\<exists>k<retries. tables_ready (probe k) tables))
    \<and> (\<not> (\<exists>k<retries. tables_ready (probe k) tables) \<longrightarrow>
           wr_outcome (wait_for_tables probe tables retries delay st) = never_created tables)
    \<and> (wr_slept (wait_for_tables probe tables retries delay st) \<le> int retries * delay)"
proof -
  have st: "st = Some p" using assms(1) by (auto simp: get_pool_def split: option.splits)
  have "wr_outcome (wait_for_tables probe tables retries delay st) = Inr ()
      \<longleftrightarrow> (\<exists>k<retries. tables_ready (probe k) tables)"
    using st by (rule wait_for_tables_iff)
  moreover have "wr_outcome (wait_for_tables probe tables retries delay st) = never_created tables"
    if "\<not> (\<exists>k<retries. tables_ready (probe k) tables)"
    using wait_loop_failure [of retries probe 0 tables delay 0] that st
    by (auto simp: wait_for_tables_def get_pool_def)
  moreover have "wr_slept (wait_for_tables probe tables retries delay st) \<le> int retries * delay"
    using assms(2) by (rule wait_for_tables_bounded)
  ultimately show ?thesis by blast
qed

theorem wait_for_tables_decides_witness:
  "wr_outcome (wait_for_tables (\<lambda>k. if k = 2 then Inr [lit ''jobs''] else Inr []) [lit ''jobs''] 5 2
     (Some \<lparr>conninfo = [], min_size = 1, max_size = 1, opened = True\<rparr>)) = Inr ()"
  by (subst wait_for_tables_decides [THEN conjunct1])
    (auto simp: get_pool_def tables_ready_def intro!: exI [of _ 2])

end
