(* ===== verification/Tables.thy ===== *)
theory Tables
  imports PyValue
begin

text \<open>
  The schema of \<open>migrations/versions/0001_initial_schema.py\<close>: one record per table, a
  table as the list of its rows in insertion order, the database as the record of its tables.
  A UUID is an opaque number; a \<open>TIMESTAMPTZ\<close> is a number of microseconds. The
  columns \<open>jobs.heartbeat_at\<close> and \<open>jobs.created_date\<close>, and the surrogate keys of
  \<open>review_records\<close>, \<open>repo_symbols\<close> and \<open>repo_references\<close>, are never read or
  written by the application and are left out.
\<close>

type_synonym uuid = nat

definition seconds :: "int \<Rightarrow> int" where
  "seconds n = n * 1000000"

lemma seconds_mono [simp]: "seconds m \<le> seconds n \<longleftrightarrow> m \<le> n" "seconds m < seconds n \<longleftrightarrow> m < n"
  by (simp_all add: seconds_def)

lemma seconds_0 [simp]: "seconds 0 = 0"
  by (simp add: seconds_def)

lemma seconds_nonneg [simp]: "0 \<le> n \<Longrightarrow> 0 \<le> seconds n"
  by (simp add: seconds_def)

text \<open>The five values the application writes to \<open>jobs.status\<close>.\<close>

datatype job_status = Pending | Processing | Success | Failure | Dead

record job =
  j_id :: uuid
  j_commit_sha :: pystr
  j_pr_number :: int
  j_repo_full_name :: pystr
  j_payload :: pyval
  j_status :: job_status
  j_priority :: int
  j_attempt_count :: int
  j_max_attempts :: int
  j_worker_id :: "pystr option"
  j_scheduled_at :: int
  j_started_at :: "int option"
  j_completed_at :: "int option"
  j_error_message :: "pystr option"
  j_result :: "pyval option"
  j_otel_context :: "pyval option"
  j_fence_token :: int
  j_github_check_run_id :: "int option"
  j_created_at :: int

record heartbeat =
  hb_job_id :: uuid
  hb_worker_id :: pystr
  hb_heartbeat_at :: int

record review_record =
  rr_job_id :: uuid
  rr_commit_sha :: pystr
  rr_pr_number :: int
  rr_repo_full_name :: pystr
  rr_feedback :: pyval
  rr_model_map :: pystr
  rr_model_reduce :: pystr
  rr_chunk_count :: int
  rr_created_at :: int

record installation_token =
  it_installation_id :: int
  it_token :: pystr
  it_expires_at :: int

record repo_symbol =
  rs_repo_full_name :: pystr
  rs_name :: pystr
  rs_qualified_name :: pystr
  rs_kind :: pystr
  rs_file_path :: pystr
  rs_start_line :: int
  rs_end_line :: int
  rs_signature :: pystr
  rs_parent :: "pystr option"

record repo_reference =
  rf_repo_full_name :: pystr
  rf_symbol_name :: pystr
  rf_file_path :: pystr
  rf_line :: int
  rf_context_line :: pystr
  rf_ref_type :: pystr

record db =
  jobs :: "job list"
  worker_heartbeats :: "heartbeat list"
  review_records :: "review_record list"
  installation_tokens :: "installation_token list"
  repo_symbols :: "repo_symbol list"
  repo_references :: "repo_reference list"

text \<open>The tables after the migration: all empty.\<close>

definition upgrade :: db where
  "upgrade = \<lparr>jobs = [], worker_heartbeats = [], review_records = [],
     installation_tokens = [], repo_symbols = [], repo_references = []\<rparr>"

end
