(* ===== verification/JobQueue.thy ===== *)
theory JobQueue
  imports Settings Tables
begin

text \<open>
  \<open>app/services/db/queue.py\<close>: the repository over the tables \<open>jobs\<close>,
  \<open>worker_heartbeats\<close> and \<open>review_records\<close>. Each method is one transaction and is
  modelled as one atomic step on the database, with \<open>NOW()\<close> and what the database
  generates as arguments. Rows that other transactions hold locked are an argument of the
  two statements that say \<open>FOR UPDATE SKIP LOCKED\<close>. A method that raises rolls its
  transaction back, so the result \<open>Inl e\<close> comes without a new database.
\<close>

section \<open>Locks and ingestion\<close>

text \<open>
  \<open>int.from_bytes(digest[:8], byteorder="big", signed=True)\<close>; the digest function
  is an argument.
\<close>

definition int_from_bytes_be_signed :: "int list \<Rightarrow> int" where
  "int_from_bytes_be_signed bs =
     (let u = foldl (\<lambda>acc b. 256 * acc + b) 0 bs; n = 8 * length bs
      in if 0 < n \<and> 2 ^ (n - 1) \<le> u then u - 2 ^ n else u)"

definition generate_lock_id :: "(pystr \<Rightarrow> int list) \<Rightarrow> pystr \<Rightarrow> int" where
  "generate_lock_id md5 sha = int_from_bytes_be_signed (take 8 (md5 sha))"

definition job_payload :: "int \<Rightarrow> pyval" where
  "job_payload installation_id = PDict [(lit ''installation_id'', PInt installation_id)]"

definition new_job :: "int \<Rightarrow> uuid \<Rightarrow> pystr \<Rightarrow> pystr \<Rightarrow> int \<Rightarrow> int \<Rightarrow> pydict option \<Rightarrow> job" where
  "new_job now new_id sha repo pull_number installation_id trace_context = \<lparr>
     j_id = new_id, j_commit_sha = sha, j_pr_number = pull_number, j_repo_full_name = repo,
     j_payload = job_payload installation_id, j_status = Pending, j_priority = 0,
     j_attempt_count = 0, j_max_attempts = 3, j_worker_id = None, j_scheduled_at = now,
     j_started_at = None, j_completed_at = None, j_error_message = None, j_result = None,
     j_otel_context = Some (PDict (case trace_context of None \<Rightarrow> [] | Some t \<Rightarrow> t)),
     j_fence_token = 0, j_github_check_run_id = None, j_created_at = now\<rparr>"

definition enqueue_if_new ::
    "int \<Rightarrow> uuid \<Rightarrow> pystr \<Rightarrow> pystr \<Rightarrow> int \<Rightarrow> int \<Rightarrow> pydict option \<Rightarrow> db \<Rightarrow> bool \<times> db" where
  "enqueue_if_new now new_id sha repo pull_number installation_id trace_context d =
     (if list_ex (\<lambda>r. rr_commit_sha r = sha) (review_records d) then (False, d)
      else (True,
        if list_ex (\<lambda>j. j_commit_sha j = sha) (jobs d) then d
        else d\<lparr>jobs := jobs d @
               [new_job now new_id sha repo pull_number installation_id trace_context]\<rparr>))"

section \<open>Claiming\<close>

definition claimable :: "int \<Rightarrow> job \<Rightarrow> bool" where
  "claimable now j \<longleftrightarrow> j_status j = Pending \<and> j_scheduled_at j \<le> now
     \<and> j_attempt_count j < j_max_attempts j"

text \<open>\<open>ORDER BY priority DESC, created_at ASC\<close>.\<close>

definition claim_order :: "job \<Rightarrow> int \<times> int" where
  "claim_order j = (- j_priority j, j_created_at j)"

text \<open>
  \<open>FOR UPDATE SKIP LOCKED LIMIT 1\<close>: the first row of that order no other transaction has
  locked. Rows with equal keys come in table order here; SQL leaves that order open.
\<close>

definition next_claim :: "int \<Rightarrow> (uuid \<Rightarrow> bool) \<Rightarrow> job list \<Rightarrow> job option" where
  "next_claim now locked rows =
     (case py_sorted claim_order (filter (\<lambda>j. claimable now j \<and> \<not> locked (j_id j)) rows) of
        [] \<Rightarrow> None
      | j # _ \<Rightarrow> Some j)"

definition claimed :: "int \<Rightarrow> pystr \<Rightarrow> job \<Rightarrow> job" where
  "claimed now worker_id j = j\<lparr>j_status := Processing, j_started_at := Some now,
     j_worker_id := Some worker_id, j_attempt_count := j_attempt_count j + 1\<rparr>"

text \<open>\<open>INSERT ... ON CONFLICT (job_id) DO UPDATE SET heartbeat_at, worker_id\<close>.\<close>

definition upsert_heartbeat :: "int \<Rightarrow> uuid \<Rightarrow> pystr \<Rightarrow> heartbeat list \<Rightarrow> heartbeat list" where
  "upsert_heartbeat now job_id worker_id hbs =
     (if list_ex (\<lambda>h. hb_job_id h = job_id) hbs
      then sql_update (\<lambda>h. hb_job_id h = job_id)
             (\<lambda>h. h\<lparr>hb_heartbeat_at := now, hb_worker_id := worker_id\<rparr>) hbs
      else hbs @ [\<lparr>hb_job_id = job_id, hb_worker_id = worker_id, hb_heartbeat_at = now\<rparr>])"

definition claim_job :: "int \<Rightarrow> pystr \<Rightarrow> (uuid \<Rightarrow> bool) \<Rightarrow> db \<Rightarrow> job option \<times> db" where
  "claim_job now worker_id locked d = (case next_claim now locked (jobs d) of
     None \<Rightarrow> (None, d)
   | Some j \<Rightarrow> (Some (claimed now worker_id j),
       d\<lparr>jobs := sql_update (\<lambda>r. j_id r = j_id j) (claimed now worker_id) (jobs d),
         worker_heartbeats := upsert_heartbeat now (j_id j) worker_id (worker_heartbeats d)\<rparr>))"

section \<open>Liveness signal and check run\<close>

definition update_heartbeat :: "int \<Rightarrow> uuid \<Rightarrow> pystr \<Rightarrow> db \<Rightarrow> bool \<times> db" where
  "update_heartbeat now job_id worker_id d =
     (case filter (\<lambda>j. j_id j = job_id \<and> j_worker_id j = Some worker_id) (jobs d) of
        [] \<Rightarrow> (False, d)
      | row # _ \<Rightarrow>
          if j_status row \<noteq> Processing then (False, d)
          else (True, d\<lparr>worker_heartbeats :=
                 sql_update (\<lambda>h. hb_job_id h = job_id \<and> hb_worker_id h = worker_id)
                   (\<lambda>h. h\<lparr>hb_heartbeat_at := now\<rparr>) (worker_heartbeats d)\<rparr>))"

definition set_check_run_id :: "uuid \<Rightarrow> int \<Rightarrow> db \<Rightarrow> db" where
  "set_check_run_id job_id check_run_id d = d\<lparr>jobs :=
     sql_update (\<lambda>j. j_id j = job_id)
       (\<lambda>j. j\<lparr>j_github_check_run_id := Some check_run_id\<rparr>) (jobs d)\<rparr>"

definition get_check_run_id :: "pystr \<Rightarrow> int \<Rightarrow> pystr \<Rightarrow> db \<Rightarrow> int option" where
  "get_check_run_id repo pr_number commit_sha d =
     (case py_sorted (\<lambda>j. - j_created_at j)
        (filter (\<lambda>j. j_repo_full_name j = repo \<and> j_pr_number j = pr_number
           \<and> j_commit_sha j = commit_sha \<and> j_github_check_run_id j \<noteq> None) (jobs d)) of
        [] \<Rightarrow> None
      | row # _ \<Rightarrow> j_github_check_run_id row)"

section \<open>Completion and release\<close>

text \<open>
  \<open>json.dumps(ai_feedback) if ai_feedback else None\<close>: the stored JSON document is the
  dictionary itself, an absent or empty one is \<open>NULL\<close> (and \<open>{}\<close> in the record).
\<close>

definition feedback_column :: "pydict option \<Rightarrow> pyval option" where
  "feedback_column fb = (case fb of None \<Rightarrow> None | Some d \<Rightarrow> if d = [] then None else Some (PDict d))"

definition finished :: "int \<Rightarrow> job_status \<Rightarrow> pydict option \<Rightarrow> job \<Rightarrow> job" where
  "finished now status ai_feedback j = j\<lparr>j_status := status, j_completed_at := Some now,
     j_result := feedback_column ai_feedback\<rparr>"

definition review_of :: "settings \<Rightarrow> int \<Rightarrow> pydict option \<Rightarrow> job \<Rightarrow> review_record" where
  "review_of cfg now ai_feedback j = \<lparr>rr_job_id = j_id j, rr_commit_sha = j_commit_sha j,
     rr_pr_number = j_pr_number j, rr_repo_full_name = j_repo_full_name j,
     rr_feedback = (case feedback_column ai_feedback of None \<Rightarrow> PDict [] | Some v \<Rightarrow> v),
     rr_model_map = AI_MODEL_MAP cfg, rr_model_reduce = AI_MODEL_REDUCE cfg,
     rr_chunk_count = 1, rr_created_at = now\<rparr>"

text \<open>\<open>ON CONFLICT (commit_sha) DO UPDATE SET feedback = EXCLUDED.feedback\<close>.\<close>

definition upsert_review :: "review_record \<Rightarrow> review_record list \<Rightarrow> review_record list" where
  "upsert_review r rows =
     (if list_ex (\<lambda>x. rr_commit_sha x = rr_commit_sha r) rows
      then sql_update (\<lambda>x. rr_commit_sha x = rr_commit_sha r)
             (\<lambda>x. x\<lparr>rr_feedback := rr_feedback r\<rparr>) rows
      else rows @ [r])"

text \<open>The text of a UUID and of a token appears in the message of the exception.\<close>

definition stale_message :: "(uuid \<Rightarrow> pystr) \<Rightarrow> uuid \<Rightarrow> int \<Rightarrow> pystr" where
  "stale_message uuid_str job_id fence_token =
     lit ''Job '' @ uuid_str job_id @ lit '' was reclaimed; fence_token ''
     @ str_int fence_token @ lit '' is stale''"

definition holds_fence :: "uuid \<Rightarrow> int \<Rightarrow> job \<Rightarrow> bool" where
  "holds_fence job_id fence_token j \<longleftrightarrow> j_id j = job_id \<and> j_fence_token j = fence_token"

definition finalize_job ::
    "(uuid \<Rightarrow> pystr) \<Rightarrow> settings \<Rightarrow> int \<Rightarrow> uuid \<Rightarrow> int \<Rightarrow> job_status \<Rightarrow> pydict option \<Rightarrow> db \<Rightarrow> db outcome"
  where
  "finalize_job uuid_str cfg now job_id fence_token status ai_feedback d =
     (case filter (holds_fence job_id fence_token) (jobs d) of
        [] \<Rightarrow> raise_exn RuntimeError (stale_message uuid_str job_id fence_token)
      | job # _ \<Rightarrow> Inr (d\<lparr>
          jobs := sql_update (holds_fence job_id fence_token) (finished now status ai_feedback) (jobs d),
          review_records := upsert_review (review_of cfg now ai_feedback job) (review_records d),
          worker_heartbeats := sql_delete (\<lambda>h. hb_job_id h = job_id) (worker_heartbeats d)\<rparr>))"

definition released :: "int \<Rightarrow> int \<Rightarrow> job \<Rightarrow> job" where
  "released now delay_seconds j = j\<lparr>j_status := Pending, j_worker_id := None,
     j_scheduled_at := now + seconds delay_seconds, j_fence_token := j_fence_token j + 1\<rparr>"

definition release_job :: "int \<Rightarrow> uuid \<Rightarrow> int \<Rightarrow> int \<Rightarrow> db \<Rightarrow> db" where
  "release_job now job_id fence_token delay_seconds d = d\<lparr>
     jobs := sql_update (\<lambda>j. holds_fence job_id fence_token j \<and> j_status j = Processing)
               (released now delay_seconds) (jobs d),
     worker_heartbeats := sql_delete (\<lambda>h. hb_job_id h = job_id) (worker_heartbeats d)\<rparr>"

section \<open>Reconciliation\<close>

text \<open>
  A processing row is stale when it has no heartbeat, or one older than the threshold.
\<close>

definition stale_heartbeat :: "settings \<Rightarrow> int \<Rightarrow> heartbeat list \<Rightarrow> uuid \<Rightarrow> bool" where
  "stale_heartbeat cfg now hbs job_id \<longleftrightarrow>
     \<not> list_ex (\<lambda>h. hb_job_id h = job_id) hbs
     \<or> list_ex (\<lambda>h. hb_job_id h = job_id
          \<and> hb_heartbeat_at h < now - seconds (WORKER_HEARTBEAT_STALE_SECONDS cfg)) hbs"

definition reclaimable :: "settings \<Rightarrow> int \<Rightarrow> (uuid \<Rightarrow> bool) \<Rightarrow> db \<Rightarrow> job \<Rightarrow> bool" where
  "reclaimable cfg now locked d j \<longleftrightarrow> j_status j = Processing
     \<and> stale_heartbeat cfg now (worker_heartbeats d) (j_id j) \<and> \<not> locked (j_id j)"

definition exhausted :: "job \<Rightarrow> bool" where
  "exhausted j \<longleftrightarrow> j_max_attempts j \<le> j_attempt_count j"

definition reclaimed :: "settings \<Rightarrow> int \<Rightarrow> job \<Rightarrow> job" where
  "reclaimed cfg now j = j\<lparr>
     j_status := (if exhausted j then Dead else Pending),
     j_fence_token := j_fence_token j + 1,
     j_scheduled_at := (if exhausted j then j_scheduled_at j
        else now + seconds (WORKER_RETRY_BACKOFF_SECONDS cfg) * j_attempt_count j),
     j_worker_id := None\<rparr>"

definition timeout_message :: pystr where
  "timeout_message = lit ''Timed out: pending for over 1 hour''"

definition timed_out :: "int \<Rightarrow> job \<Rightarrow> bool" where
  "timed_out now j \<longleftrightarrow> j_status j = Pending \<and> j_created_at j < now - seconds 3600"

definition expire :: "job \<Rightarrow> job" where
  "expire j = j\<lparr>j_status := Dead, j_error_message := Some timeout_message\<rparr>"

text \<open>
  The three statements of the transaction in their order: requeue or dead-letter the stale
  rows (returning them as they are after this statement), drop the heartbeats of jobs that
  are not processing, dead-letter what has been pending for an hour.
\<close>

definition reconcile_stale_jobs ::
    "settings \<Rightarrow> int \<Rightarrow> (uuid \<Rightarrow> bool) \<Rightarrow> db \<Rightarrow> job list \<times> db" where
  "reconcile_stale_jobs cfg now locked d =
     (let hit = reclaimable cfg now locked d;
          rows = map (reclaimed cfg now) (filter hit (jobs d));
          jobs1 = sql_update hit (reclaimed cfg now) (jobs d);
          hbs = sql_delete (\<lambda>h. \<not> list_ex (\<lambda>j. j_id j = hb_job_id h \<and> j_status j = Processing) jobs1)
                  (worker_heartbeats d);
          jobs2 = sql_update (timed_out now) expire jobs1
      in (rows, d\<lparr>jobs := jobs2, worker_heartbeats := hbs\<rparr>))"

end
