(* ===== verification/Utf8.thy ===== *)
theory Utf8
  imports PyValue
begin

text \<open>
  \<open>str.encode("utf-8")\<close> and \<open>bytes.decode("utf-8")\<close> with \<open>errors="strict"\<close> and
  \<open>errors="replace"\<close>, which the indexer and the chunker use on the source of a file. A byte string
  is a list of integers from 0 to 255.
\<close>

type_synonym bytes = "int list"

section \<open>Encoding\<close>

definition scalar :: "int \<Rightarrow> bool" where
  "scalar c \<longleftrightarrow> 0 \<le> c \<and> c \<le> 1114111 \<and> \<not> (55296 \<le> c \<and> c \<le> 57343)"

definition encode_cp :: "int \<Rightarrow> bytes" where
  "encode_cp c =
     (if c < 128 then [c]
      else if c < 2048 then [192 + c div 64, 128 + c mod 64]
      else if c < 65536 then [224 + c div 4096, 128 + (c div 64) mod 64, 128 + c mod 64]
      else [240 + c div 262144, 128 + (c div 4096) mod 64, 128 + (c div 64) mod 64, 128 + c mod 64])"

definition utf8_encode :: "pystr \<Rightarrow> bytes outcome" where
  "utf8_encode s = (if list_all scalar s then Inr (concat (map encode_cp s))
     else raise_exn UnicodeError (lit ''surrogates not allowed''))"

section \<open>Decoding\<close>

definition cont :: "int \<Rightarrow> bool" where
  "cont b \<longleftrightarrow> 128 \<le> b \<and> b \<le> 191"

text \<open>The second byte excludes overlong forms, surrogates and values above the last code point.\<close>

definition second_ok :: "int \<Rightarrow> int \<Rightarrow> bool" where
  "second_ok b0 b1 \<longleftrightarrow> cont b1 \<and> (b0 = 224 \<longrightarrow> 160 \<le> b1) \<and> (b0 = 237 \<longrightarrow> b1 \<le> 159)
     \<and> (b0 = 240 \<longrightarrow> 144 \<le> b1) \<and> (b0 = 244 \<longrightarrow> b1 \<le> 143)"

text \<open>
  One step: the decoded code point, or \<open>None\<close> for an ill-formed sequence, with the number
  of bytes used (the maximal well-formed prefix of the ill-formed sequence, at least one byte).
\<close>

definition decode1 :: "int \<Rightarrow> bytes \<Rightarrow> int option \<times> nat" where
  "decode1 b0 bs =
     (if b0 < 128 then (Some b0, 1)
      else if b0 < 194 \<or> 244 < b0 then (None, 1)
      else (case bs of [] \<Rightarrow> (None, 1) | b1 # bs1 \<Rightarrow>
        if \<not> second_ok b0 b1 then (None, 1)
        else if b0 < 224 then (Some ((b0 - 192) * 64 + (b1 - 128)), 2)
        else (case bs1 of [] \<Rightarrow> (None, 2) | b2 # bs2 \<Rightarrow>
          if \<not> cont b2 then (None, 2)
          else if b0 < 240 then (Some ((b0 - 224) * 4096 + (b1 - 128) * 64 + (b2 - 128)), 3)
          else (case bs2 of [] \<Rightarrow> (None, 3) | b3 # bs3 \<Rightarrow>
            if \<not> cont b3 then (None, 3)
            else (Some ((b0 - 240) * 262144 + (b1 - 128) * 4096 + (b2 - 128) * 64 + (b3 - 128)), 4)))))"

function decode_replace :: "bytes \<Rightarrow> pystr" where
  "decode_replace [] = []"
| "decode_replace (b # bs) = (case decode1 b bs of (r, n) \<Rightarrow>
     (case r of Some c \<Rightarrow> c | None \<Rightarrow> 65533) # decode_replace (drop (n - 1) bs))"
  by pat_completeness auto
termination
  by (relation "measure length") auto

function decode_strict :: "bytes \<Rightarrow> pystr outcome" where
  "decode_strict [] = Inr []"
| "decode_strict (b # bs) = (case decode1 b bs of (r, n) \<Rightarrow>
     (case r of None \<Rightarrow> raise_exn UnicodeError (lit ''invalid utf-8'')
      | Some c \<Rightarrow> bind (decode_strict (drop (n - 1) bs)) (\<lambda>s. Inr (c # s))))"
  by pat_completeness auto
termination
  by (relation "measure length") auto

text \<open>\<open>b[i:j]\<close> for non-negative bounds.\<close>

definition slice :: "nat \<Rightarrow> nat \<Rightarrow> bytes \<Rightarrow> bytes" where
  "slice i j bs = take (j - i) (drop i bs)"

section \<open>Decoding what was encoded\<close>

lemma encode_cp_ne [simp]: "encode_cp c \<noteq> []"
  by (simp add: encode_cp_def)

lemma decode1_encode_cp:
  assumes "scalar c"
  shows "decode1 (hd (encode_cp c)) (tl (encode_cp c) @ r) = (Some c, length (encode_cp c))"
proof -
  from assms have c: "0 \<le> c" "c \<le> 1114111" "\<not> (55296 \<le> c \<and> c \<le> 57343)" by (auto simp: scalar_def)
  define q1 r1 q2 r2 q3 r3 where d: "q1 = c div 64" "r1 = c mod 64" "q2 = c div 4096"
    "r2 = (c div 64) mod 64" "q3 = c div 262144" "r3 = (c div 4096) mod 64"
  have m: "0 \<le> r1" "r1 < 64" "0 \<le> r2" "r2 < 64" "0 \<le> r3" "r3 < 64" by (simp_all add: d)
  have c1: "c = q1 * 64 + r1" by (simp add: d)
  have c2: "q1 = q2 * 64 + r2" using zdiv_zmult2_eq [of 64 c 64] by (simp add: d)
  have c3: "q2 = q3 * 64 + r3" using zdiv_zmult2_eq [of 64 c 4096] by (simp add: d)
  have e: "encode_cp c = (if c < 128 then [c] else if c < 2048 then [192 + q1, 128 + r1]
      else if c < 65536 then [224 + q2, 128 + r2, 128 + r1]
      else [240 + q3, 128 + r3, 128 + r2, 128 + r1])"
    by (simp add: encode_cp_def d)
  consider "c < 128" | "128 \<le> c" "c < 2048" | "2048 \<le> c" "c < 65536" | "65536 \<le> c" by linarith
  then show ?thesis
  proof cases
    case 1
    then show ?thesis by (simp add: e decode1_def)
  next
    case 2
    then have "2 \<le> q1" "q1 < 32" using c1 m by linarith+
    with m have "decode1 (192 + q1) ((128 + r1) # r) = (Some (q1 * 64 + r1), 2)"
      by (simp add: decode1_def second_ok_def cont_def)
    moreover have "encode_cp c = [192 + q1, 128 + r1]" using 2 by (simp add: e)
    moreover have "q1 * 64 + r1 = c" using c1 by simp
    ultimately show ?thesis by simp
  next
    case 3
    then have hi: "0 \<le> q2" "q2 < 16" using c1 c2 m by linarith+
    have "q2 = 0 \<Longrightarrow> 32 \<le> r2" using 3 c1 c2 m by linarith
    moreover have "q2 = 13 \<Longrightarrow> r2 \<le> 31" using c(3) c1 c2 m by linarith
    ultimately have "decode1 (224 + q2) ((128 + r2) # (128 + r1) # r) = (Some (q2 * 4096 + r2 * 64 + r1), 3)"
      using hi m by (simp add: decode1_def second_ok_def cont_def)
    moreover have "encode_cp c = [224 + q2, 128 + r2, 128 + r1]" using 3 by (simp add: e)
    moreover have "q2 * 4096 + r2 * 64 + r1 = c" using c1 c2 by simp
    ultimately show ?thesis by simp
  next
    case 4
    then have hi: "0 \<le> q3" "q3 < 5" using c(2) c1 c2 c3 m by linarith+
    have "q3 = 0 \<Longrightarrow> 16 \<le> r3" using 4 c1 c2 c3 m by linarith
    moreover have "q3 = 4 \<Longrightarrow> r3 \<le> 15" using c(2) c1 c2 c3 m by linarith
    ultimately have "decode1 (240 + q3) ((128 + r3) # (128 + r2) # (128 + r1) # r)
        = (Some (q3 * 262144 + r3 * 4096 + r2 * 64 + r1), 4)"
      using hi m by (simp add: decode1_def second_ok_def cont_def)
    moreover have "encode_cp c = [240 + q3, 128 + r3, 128 + r2, 128 + r1]" using 4 by (simp add: e)
    moreover have "q3 * 262144 + r3 * 4096 + r2 * 64 + r1 = c" using c1 c2 c3 by simp
    ultimately show ?thesis by simp
  qed
qed

lemma decode_encode_append:
  assumes "scalar c"
  shows "decode_strict (encode_cp c @ bs) = bind (decode_strict bs) (\<lambda>s. Inr (c # s))"
    and "decode_replace (encode_cp c @ bs) = c # decode_replace bs"
proof -
  obtain b t where bt: "encode_cp c = b # t" by (cases "encode_cp c") auto
  have "decode1 b (t @ bs) = (Some c, Suc (length t))"
    using decode1_encode_cp [OF assms, of bs] by (simp add: bt)
  then show "decode_strict (encode_cp c @ bs) = bind (decode_strict bs) (\<lambda>s. Inr (c # s))"
    "decode_replace (encode_cp c @ bs) = c # decode_replace bs"
    by (simp_all add: bt)
qed

lemma decode_encode:
  assumes "utf8_encode s = Inr bs"
  shows "decode_strict bs = Inr s" and "decode_replace bs = s"
proof -
  have all: "list_all scalar s" and bs: "bs = concat (map encode_cp s)"
    using assms by (simp_all add: utf8_encode_def split: if_splits)
  from all have "decode_strict (concat (map encode_cp s)) = Inr s
      \<and> decode_replace (concat (map encode_cp s)) = s"
    by (induction s) (simp_all add: decode_encode_append)
  then show "decode_strict bs = Inr s" "decode_replace bs = s" by (simp_all add: bs)
qed

lemma utf8_encode_append:
  "utf8_encode s = Inr a \<Longrightarrow> utf8_encode t = Inr b \<Longrightarrow> utf8_encode (s @ t) = Inr (a @ b)"
  by (simp add: utf8_encode_def split: if_splits)

text \<open>
  A slice between two character boundaries of an encoded text decodes to the text between them.
\<close>

lemma decode_slice:
  assumes "utf8_encode u = Inr a" "utf8_encode v = Inr b" "utf8_encode w = Inr c"
  shows "decode_strict (slice (length a) (length a + length b) (a @ b @ c)) = Inr v"
    and "decode_replace (slice (length a) (length a + length b) (a @ b @ c)) = v"
  using decode_encode [OF assms(2)] by (simp_all add: slice_def)

lemma bytes_range:
  assumes "utf8_encode s = Inr bs" and "b \<in> set bs"
  shows "0 \<le> b \<and> b < 256"
proof -
  from assms obtain c where "list_all scalar s" "c \<in> set s" and b: "b \<in> set (encode_cp c)"
    by (auto simp: utf8_encode_def split: if_splits)
  then have c: "scalar c" by (simp add: list_all_iff)
  have "0 \<le> c mod 64" "c mod 64 < 64" "0 \<le> (c div 64) mod 64" "(c div 64) mod 64 < 64"
    "0 \<le> (c div 4096) mod 64" "(c div 4096) mod 64 < 64" by simp_all
  with b c show ?thesis by (auto simp: encode_cp_def scalar_def split: if_splits)
qed

end
