(* ===== verification/World.thy ===== *)
theory World
  imports JobQueue Utf8
begin

text \<open>
  What the asynchronous methods of the worker, the GitHub client and the webhook act on: a database
  that other transactions change in between, GitHub behind HTTP, and a clock. A method is a
  function from a world to its outcome and the new world; the world keeps the log of everything
  that was sent or committed. The behaviour of the outside is a record of functions, the \<open>host\<close>.
  The relations a method keeps between the worlds before and after it are proved
  compositionally from the locale \<open>kept_relation\<close>.
\<close>

section \<open>HTTP\<close>

datatype http_method = GET | POST | PATCH

record http_request =
  hr_method :: http_method
  hr_path :: pystr
  hr_headers :: "(pystr \<times> pystr) list"
  hr_params :: "(pystr \<times> pystr) list"
  hr_json :: "pydict option"

text \<open>
  A response as the client library offers it: the raw body, its text, its JSON document
  (which may not parse), and the text of the exception an error status raises.
\<close>

record http_response =
  rsp_status :: int
  rsp_headers :: "(pystr \<times> pystr) list"
  rsp_content :: bytes
  rsp_text :: pystr
  rsp_json :: "pyval outcome"
  rsp_error :: pystr

definition http_status_error :: "http_response \<Rightarrow> exn" where
  "http_status_error r = \<lparr>exn_kind = HTTPStatusError, exn_msg = rsp_error r,
     exn_response = Some \<lparr>meta_status = rsp_status r, meta_headers = rsp_headers r\<rparr>\<rparr>"

definition raise_for_status :: "http_response \<Rightarrow> unit outcome" where
  "raise_for_status r = (if 200 \<le> rsp_status r \<and> rsp_status r \<le> 299 then Inr ()
     else Inl (http_status_error r))"

section \<open>The world and the host\<close>

text \<open>What a committed transaction did.\<close>

datatype db_action = CachedToken int pystr | StoredCheckRun uuid int | StoredGraph pystr
  | FinalizedJob uuid int job_status | ReleasedJob uuid int int | Enqueued pystr bool | Reconciled nat

datatype event = Sent http_request | Stored db_action

record world =
  w_db :: db
  w_log :: "event list"
  w_ticks :: nat

text \<open>
  \<open>h_server\<close> answers a request, knowing all that happened before it, or raises; \<open>h_clock\<close> is the time,
  in microseconds, of a database or clock access; \<open>h_others\<close> is what other transactions did to
  the database since the last access; \<open>h_fault\<close> makes an access raise, before or after its commit.
\<close>

record host =
  h_cfg :: settings
  h_server :: "event list \<Rightarrow> http_request \<Rightarrow> http_response outcome"
  h_clock :: "nat \<Rightarrow> int"
  h_others :: "nat \<Rightarrow> db \<Rightarrow> db"
  h_fault :: "nat \<Rightarrow> (bool \<times> exn) option"
  h_uuid_str :: "uuid \<Rightarrow> pystr"
  h_iso_time :: "int \<Rightarrow> pystr"
  h_str_of :: "pyval \<Rightarrow> pystr"
  h_fs :: file_system
  h_b64decode :: "pystr \<Rightarrow> pystr outcome"
  h_jwt_encode :: "pydict \<Rightarrow> pystr \<Rightarrow> pystr outcome"

type_synonym 'a io = "world \<Rightarrow> 'a outcome \<times> world"

definition io_return :: "'a \<Rightarrow> 'a io" where
  "io_return x w = (Inr x, w)"

definition io_of :: "'a outcome \<Rightarrow> 'a io" where
  "io_of r w = (r, w)"

definition io_bind :: "'a io \<Rightarrow> ('a \<Rightarrow> 'b io) \<Rightarrow> 'b io" where
  "io_bind m k w = (case m w of (Inl e, w') \<Rightarrow> (Inl e, w') | (Inr x, w') \<Rightarrow> k x w')"

text \<open>\<open>try: m except Exception as e: f(e)\<close>.\<close>

definition io_catch :: "'a io \<Rightarrow> (exn \<Rightarrow> 'a io) \<Rightarrow> 'a io" where
  "io_catch m f w = (case m w of (Inl e, w') \<Rightarrow> f e w' | (Inr x, w') \<Rightarrow> (Inr x, w'))"

text \<open>The outcome of a block as a value, for handlers that go on in different ways.\<close>

definition io_try :: "'a io \<Rightarrow> 'a outcome io" where
  "io_try m w = (case m w of (r, w') \<Rightarrow> (Inr r, w'))"

definition ignoring :: "unit io \<Rightarrow> unit io" where
  "ignoring m = io_catch m (\<lambda>e. io_return ())"

lemmas io_defs = io_return_def io_of_def io_bind_def io_catch_def

definition send :: "host \<Rightarrow> http_request \<Rightarrow> http_response io" where
  "send h rq w = (h_server h (w_log w) rq, w\<lparr>w_log := w_log w @ [Sent rq]\<rparr>)"

text \<open>A request whose error status raises.\<close>

definition send_ok :: "host \<Rightarrow> http_request \<Rightarrow> http_response io" where
  "send_ok h rq = io_bind (send h rq) (\<lambda>r. io_bind (io_of (raise_for_status r)) (\<lambda>_. io_return r))"

definition clock :: "host \<Rightarrow> int io" where
  "clock h w = (Inr (h_clock h (w_ticks w)), w\<lparr>w_ticks := Suc (w_ticks w)\<rparr>)"

text \<open>
  A transaction: the body gets the time and the database as the others left it and answers with a
  result, the new database and the actions to log; when it raises nothing is changed. A
  fault raises as well, whether or not the transaction was committed.
\<close>

definition transact :: "host \<Rightarrow> (int \<Rightarrow> db \<Rightarrow> ('a \<times> db \<times> db_action list) outcome) \<Rightarrow> 'a io" where
  "transact h body w =
     (let d = h_others h (w_ticks w) (w_db w);
          w0 = w\<lparr>w_db := d, w_ticks := Suc (w_ticks w)\<rparr>
      in case body (h_clock h (w_ticks w)) d of
           Inl e \<Rightarrow> (Inl e, w0)
         | Inr (x, d', acts) \<Rightarrow>
             (let w1 = w0\<lparr>w_db := d', w_log := w_log w @ map Stored acts\<rparr> in
              case h_fault h (w_ticks w) of
                None \<Rightarrow> (Inr x, w1)
              | Some (committed, e) \<Rightarrow> (Inl e, if committed then w1 else w0)))"

section \<open>Relations that methods keep\<close>

definition keeps :: "(world \<Rightarrow> world \<Rightarrow> bool) \<Rightarrow> 'a io \<Rightarrow> bool" where
  "keeps R m \<longleftrightarrow> (\<forall>w. R w (snd (m w)))"

lemma keepsD: "keeps R m \<Longrightarrow> m w = (r, w') \<Longrightarrow> R w w'"
  by (auto simp: keeps_def) (metis snd_conv)

locale kept_relation =
  fixes R :: "world \<Rightarrow> world \<Rightarrow> bool"
  assumes R_refl: "R w w"
    and R_trans: "R w1 w2 \<Longrightarrow> R w2 w3 \<Longrightarrow> R w1 w3"
begin

lemma keeps_return: "keeps R (io_return x)"
  by (simp add: keeps_def io_return_def R_refl)

lemma keeps_of: "keeps R (io_of r)"
  by (simp add: keeps_def io_of_def R_refl)

lemma keeps_bind:
  assumes "keeps R m" "\<And>x. keeps R (k x)"
  shows "keeps R (io_bind m k)"
  unfolding keeps_def
proof
  fix w
  obtain r w' where m: "m w = (r, w')" by fastforce
  then have "R w w'" using assms(1) keepsD by blast
  with m assms(2) show "R w (snd (io_bind m k w))"
    by (cases r) (auto simp: io_bind_def keeps_def intro: R_trans)
qed

lemma keeps_catch:
  assumes "keeps R m" "\<And>e. keeps R (f e)"
  shows "keeps R (io_catch m f)"
  unfolding keeps_def
proof
  fix w
  obtain r w' where m: "m w = (r, w')" by fastforce
  then have "R w w'" using assms(1) keepsD by blast
  with m assms(2) show "R w (snd (io_catch m f w))"
    by (cases r) (auto simp: io_catch_def keeps_def intro: R_trans)
qed

lemma keeps_if: "keeps R m \<Longrightarrow> keeps R n \<Longrightarrow> keeps R (if b then m else n)"
  by simp

lemma keeps_option: "keeps R m \<Longrightarrow> (\<And>x. keeps R (n x)) \<Longrightarrow> keeps R (case v of None \<Rightarrow> m | Some x \<Rightarrow> n x)"
  by (cases v) simp_all

lemma keeps_sum: "(\<And>e. keeps R (f e)) \<Longrightarrow> (\<And>x. keeps R (g x)) \<Longrightarrow> keeps R (case v of Inl e \<Rightarrow> f e | Inr x \<Rightarrow> g x)"
  by (cases v) simp_all

lemma keeps_pair: "(\<And>x y. keeps R (f x y)) \<Longrightarrow> keeps R (case p of (x, y) \<Rightarrow> f x y)"
  by (cases p) simp

lemma keeps_try: "keeps R m \<Longrightarrow> keeps R (io_try m)"
  by (auto simp: keeps_def io_try_def split: prod.split) (metis snd_conv)

lemma keeps_ignoring: "keeps R m \<Longrightarrow> keeps R (ignoring m)"
  unfolding ignoring_def by (intro keeps_catch keeps_return)

lemmas keeps_intros = keeps_return keeps_of keeps_bind keeps_catch keeps_if keeps_option
  keeps_sum keeps_pair keeps_try keeps_ignoring

end

text \<open>The log only grows, by events of which \<open>P\<close> holds.\<close>

definition logs :: "(event \<Rightarrow> bool) \<Rightarrow> world \<Rightarrow> world \<Rightarrow> bool" where
  "logs P w w' \<longleftrightarrow> (\<exists>es. w_log w' = w_log w @ es \<and> list_all P es)"

interpretation logs: kept_relation "logs P" for P
proof
  show "logs P w w" for w by (auto simp: logs_def)
  show "logs P w1 w2 \<Longrightarrow> logs P w2 w3 \<Longrightarrow> logs P w1 w3" for w1 w2 w3
    by (force simp: logs_def)
qed

lemma logs_send: "P (Sent rq) \<Longrightarrow> keeps (logs P) (send h rq)"
  by (simp add: keeps_def send_def logs_def)

lemma logs_send_ok: "P (Sent rq) \<Longrightarrow> keeps (logs P) (send_ok h rq)"
  unfolding send_ok_def by (intro logs.keeps_intros logs_send)

lemma logs_clock: "keeps (logs P) (clock h)"
  by (simp add: keeps_def clock_def logs_def)

lemma logs_transact_others:
  assumes "\<And>now n d x d' acts. body now (h_others h n d) = Inr (x, d', acts) \<Longrightarrow> list_all (\<lambda>a. P (Stored a)) acts"
  shows "keeps (logs P) (transact h body)"
  unfolding keeps_def
proof
  fix w
  show "logs P w (snd (transact h body w))"
  proof (cases "body (h_clock h (w_ticks w)) (h_others h (w_ticks w) (w_db w))")
    case (Inr t)
    obtain x d' acts where t: "t = (x, d', acts)" by (cases t)
    with Inr assms have "list_all P (map Stored acts)" by (simp add: list_all_iff)
    with Inr t show ?thesis
      by (auto simp: transact_def Let_def logs_def split: option.split)
  qed (simp add: transact_def Let_def logs_def)
qed

lemma logs_transact:
  assumes "\<And>now d x d' acts. body now d = Inr (x, d', acts) \<Longrightarrow> list_all (\<lambda>a. P (Stored a)) acts"
  shows "keeps (logs P) (transact h body)"
  by (rule logs_transact_others) (rule assms)

end
