(* ===== verification/Findings.thy ===== *)
theory Findings
  imports PyValue
begin

text \<open>
  The data a review is made of, \<open>ReviewComment\<close> and \<open>ReviewResult\<close> of
  \<open>app/services/ai.py\<close>, with the constraints their fields declare. How the validation
  library coerces a JSON value to an integer is an argument (\<open>coerce_int\<close>); the bounds, the
  patterns, the defaults and what is required are those of the source.
\<close>

section \<open>Severities\<close>

datatype severity = INFO | WARNING | CRITICAL

text \<open>\<open>SEVERITY_RANK\<close>.\<close>

fun severity_rank :: "severity \<Rightarrow> int" where
  "severity_rank INFO = 0"
| "severity_rank WARNING = 1"
| "severity_rank CRITICAL = 2"

instantiation severity :: linorder
begin

definition less_eq_severity :: "severity \<Rightarrow> severity \<Rightarrow> bool" where
  "less_eq_severity a b \<longleftrightarrow> severity_rank a \<le> severity_rank b"

definition less_severity :: "severity \<Rightarrow> severity \<Rightarrow> bool" where
  "less_severity a b \<longleftrightarrow> severity_rank a < severity_rank b"

instance
proof
  fix a b c :: severity
  show "(a < b) = (a \<le> b \<and> \<not> b \<le> a)" by (auto simp: less_eq_severity_def less_severity_def)
  show "a \<le> a" by (simp add: less_eq_severity_def)
  show "a \<le> b \<Longrightarrow> b \<le> c \<Longrightarrow> a \<le> c" by (simp add: less_eq_severity_def)
  show "a \<le> b \<Longrightarrow> b \<le> a \<Longrightarrow> a = b"
    by (cases a; cases b) (simp_all add: less_eq_severity_def)
  show "a \<le> b \<or> b \<le> a" by (auto simp: less_eq_severity_def)
qed

end

lemma severity_rank_mono [simp]: "severity_rank a \<le> severity_rank b \<longleftrightarrow> a \<le> b"
  by (simp add: less_eq_severity_def)

lemma severity_rank_inject [simp]: "severity_rank a = severity_rank b \<longleftrightarrow> a = b"
  by (cases a; cases b) simp_all

definition severity_text :: "severity \<Rightarrow> pystr" where
  "severity_text s = (case s of INFO \<Rightarrow> lit ''INFO'' | WARNING \<Rightarrow> lit ''WARNING''
     | CRITICAL \<Rightarrow> lit ''CRITICAL'')"

definition severity_of :: "pystr \<Rightarrow> severity option" where
  "severity_of s = (if s = lit ''INFO'' then Some INFO else if s = lit ''WARNING'' then Some WARNING
     else if s = lit ''CRITICAL'' then Some CRITICAL else None)"

lemma severity_of_text [simp]: "severity_of (severity_text s) = Some s"
  by (cases s) (simp_all add: severity_of_def severity_text_def lit_def)

datatype side = LEFT | RIGHT

definition side_text :: "side \<Rightarrow> pystr" where
  "side_text s = (case s of LEFT \<Rightarrow> lit ''LEFT'' | RIGHT \<Rightarrow> lit ''RIGHT'')"

definition side_of :: "pystr \<Rightarrow> side option" where
  "side_of s = (if s = lit ''LEFT'' then Some LEFT else if s = lit ''RIGHT'' then Some RIGHT else None)"

section \<open>Comments and results\<close>

record review_comment =
  rc_path :: pystr
  rc_line :: int
  rc_side :: side
  rc_body :: pystr
  rc_severity :: severity
  rc_suggested_fix :: "pystr option"
  rc_agent_id :: "pystr option"

record review_result =
  res_summary :: pystr
  res_score :: int
  res_comments :: "review_comment list"
  res_agent_reports :: pydict

definition invalid :: "'a outcome" where
  "invalid = raise_exn ValidationError (lit ''validation error'')"

definition check :: "'a option \<Rightarrow> ('a \<Rightarrow> bool) \<Rightarrow> 'a outcome" where
  "check v p = (case v of None \<Rightarrow> invalid | Some x \<Rightarrow> if p x then Inr x else invalid)"

text \<open>A required field, a field with a default, a field of type \<open>str | None\<close>.\<close>

definition required :: "pydict \<Rightarrow> string \<Rightarrow> (pyval \<Rightarrow> 'a option) \<Rightarrow> ('a \<Rightarrow> bool) \<Rightarrow> 'a outcome" where
  "required d k coerce p = (case map_of d (lit k) of None \<Rightarrow> invalid | Some v \<Rightarrow> check (coerce v) p)"

definition defaulted ::
    "pydict \<Rightarrow> string \<Rightarrow> (pyval \<Rightarrow> 'a option) \<Rightarrow> 'a \<Rightarrow> 'a outcome" where
  "defaulted d k coerce x0 =
     (case map_of d (lit k) of None \<Rightarrow> Inr x0 | Some v \<Rightarrow> check (coerce v) (\<lambda>_. True))"

definition opt_str :: "pyval \<Rightarrow> pystr option option" where
  "opt_str v = (case v of PNone \<Rightarrow> Some None | PStr s \<Rightarrow> Some (Some s) | _ \<Rightarrow> None)"

definition validate_comment :: "(pyval \<Rightarrow> int option) \<Rightarrow> pyval \<Rightarrow> review_comment outcome" where
  "validate_comment coerce_int v = (case as_dict v of None \<Rightarrow> invalid | Some d \<Rightarrow>
     bind (required d ''path'' as_str (\<lambda>s. 1 \<le> length s)) (\<lambda>path.
     bind (required d ''line'' coerce_int (\<lambda>n. 1 \<le> n)) (\<lambda>line.
     bind (defaulted d ''side'' (\<lambda>x. Option.bind (as_str x) side_of) RIGHT) (\<lambda>sd.
     bind (required d ''body'' as_str (\<lambda>_. True)) (\<lambda>body.
     bind (defaulted d ''severity'' (\<lambda>x. Option.bind (as_str x) severity_of) INFO) (\<lambda>sev.
     bind (defaulted d ''suggested_fix'' opt_str None) (\<lambda>fix.
     bind (defaulted d ''agent_id'' opt_str None) (\<lambda>agent.
     Inr \<lparr>rc_path = path, rc_line = line, rc_side = sd, rc_body = body, rc_severity = sev,
          rc_suggested_fix = fix, rc_agent_id = agent\<rparr>))))))))"

fun validate_comments :: "(pyval \<Rightarrow> int option) \<Rightarrow> pyval list \<Rightarrow> review_comment list outcome" where
  "validate_comments coerce_int [] = Inr []"
| "validate_comments coerce_int (v # vs) =
     bind (validate_comment coerce_int v) (\<lambda>c.
     bind (validate_comments coerce_int vs) (\<lambda>cs. Inr (c # cs)))"

definition validate_result :: "(pyval \<Rightarrow> int option) \<Rightarrow> pyval \<Rightarrow> review_result outcome" where
  "validate_result coerce_int v = (case as_dict v of None \<Rightarrow> invalid | Some d \<Rightarrow>
     bind (required d ''summary'' as_str (\<lambda>_. True)) (\<lambda>summary.
     bind (required d ''score'' coerce_int (\<lambda>n. 0 \<le> n \<and> n \<le> 100)) (\<lambda>score.
     bind (defaulted d ''comments'' as_list []) (\<lambda>cs.
     bind (validate_comments coerce_int cs) (\<lambda>comments.
     bind (defaulted d ''agent_reports'' as_dict []) (\<lambda>reports.
     Inr \<lparr>res_summary = summary, res_score = score, res_comments = comments,
          res_agent_reports = reports\<rparr>))))))"

text \<open>\<open>ReviewResult(summary=..., score=..., comments=...)\<close> with comments already validated.\<close>

definition make_result ::
    "(pyval \<Rightarrow> int option) \<Rightarrow> pyval \<Rightarrow> pyval \<Rightarrow> review_comment list \<Rightarrow> review_result outcome" where
  "make_result coerce_int summary score comments =
     bind (check (as_str summary) (\<lambda>_. True)) (\<lambda>s.
     bind (check (coerce_int score) (\<lambda>n. 0 \<le> n \<and> n \<le> 100)) (\<lambda>n.
     Inr \<lparr>res_summary = s, res_score = n, res_comments = comments, res_agent_reports = []\<rparr>))"

text \<open>\<open>model_dump()\<close>.\<close>

definition str_or_none :: "pystr option \<Rightarrow> pyval" where
  "str_or_none s = (case s of None \<Rightarrow> PNone | Some t \<Rightarrow> PStr t)"

definition dump_comment :: "review_comment \<Rightarrow> pyval" where
  "dump_comment c = PDict [
     (lit ''path'', PStr (rc_path c)), (lit ''line'', PInt (rc_line c)),
     (lit ''side'', PStr (side_text (rc_side c))), (lit ''body'', PStr (rc_body c)),
     (lit ''severity'', PStr (severity_text (rc_severity c))),
     (lit ''suggested_fix'', str_or_none (rc_suggested_fix c)),
     (lit ''agent_id'', str_or_none (rc_agent_id c))]"

definition dump_result :: "review_result \<Rightarrow> pydict" where
  "dump_result r = [
     (lit ''summary'', PStr (res_summary r)), (lit ''score'', PInt (res_score r)),
     (lit ''comments'', PList (map dump_comment (res_comments r))),
     (lit ''agent_reports'', PDict (res_agent_reports r))]"

section \<open>The files of a pull request\<close>

text \<open>
  An element of GitHub's list of the files of a pull request, with the fields the
  application reads; \<open>content\<close> is added by the application. An absent key is \<open>None\<close>.
\<close>

record pr_file =
  pf_filename :: "pystr option"
  pf_status :: "pystr option"
  pf_changes :: "int option"
  pf_patch :: "pystr option"
  pf_content :: "pystr option"

definition non_empty :: "pystr option \<Rightarrow> pystr option" where
  "non_empty s = (case s of None \<Rightarrow> None | Some t \<Rightarrow> if t = [] then None else Some t)"

section \<open>What a validated result satisfies\<close>

definition comment_ok :: "review_comment \<Rightarrow> bool" where
  "comment_ok c \<longleftrightarrow> rc_path c \<noteq> [] \<and> 1 \<le> rc_line c"

definition result_ok :: "review_result \<Rightarrow> bool" where
  "result_ok r \<longleftrightarrow> 0 \<le> res_score r \<and> res_score r \<le> 100 \<and> list_all comment_ok (res_comments r)"

lemma check_Inr: "check v p = Inr x \<longleftrightarrow> v = Some x \<and> p x"
  by (cases v) (auto simp: check_def invalid_def)

lemma required_Inr:
  "required d k coerce p = Inr x \<longleftrightarrow> (\<exists>v. map_of d (lit k) = Some v \<and> coerce v = Some x \<and> p x)"
  by (auto simp: required_def check_Inr invalid_def split: option.splits)

lemma validate_comment_ok: "validate_comment ci v = Inr c \<Longrightarrow> comment_ok c"
  by (auto simp: validate_comment_def comment_ok_def bind_Inr_iff required_Inr invalid_def
      split: option.splits)

lemma validate_comments_ok: "validate_comments ci vs = Inr cs \<Longrightarrow> list_all comment_ok cs"
  by (induction vs arbitrary: cs) (auto simp: bind_Inr_iff dest: validate_comment_ok)

lemma validate_result_ok: "validate_result ci v = Inr r \<Longrightarrow> result_ok r"
  by (auto simp: validate_result_def result_ok_def bind_Inr_iff required_Inr invalid_def
      split: option.splits dest: validate_comments_ok)

lemma make_result_ok:
  "make_result ci s n cs = Inr r \<Longrightarrow> list_all comment_ok cs \<Longrightarrow> result_ok r \<and> res_comments r = cs"
  by (auto simp: make_result_def result_ok_def bind_Inr_iff check_Inr)

text \<open>A dumped comment validates to itself: what is stored can be read back.\<close>

lemma side_of_text [simp]: "side_of (side_text s) = Some s"
  by (cases s) (simp_all add: side_of_def side_text_def lit_def)

lemma opt_str_or_none [simp]: "opt_str (str_or_none s) = Some s"
  by (cases s) (simp_all add: opt_str_def str_or_none_def)

lemma validate_dump_comment:
  assumes "\<And>n. ci (PInt n) = Some n" and "comment_ok c"
  shows "validate_comment ci (dump_comment c) = Inr c"
  using assms
  by (auto simp: validate_comment_def dump_comment_def required_def defaulted_def check_def lit_def
      comment_ok_def Suc_le_eq)

lemma validate_dump_comments:
  assumes "\<And>n. ci (PInt n) = Some n" and "list_all comment_ok cs"
  shows "validate_comments ci (map dump_comment cs) = Inr cs"
  using assms by (induction cs) (simp_all add: validate_dump_comment)

lemma dumped_result_validates:
  assumes "\<And>n. ci (PInt n) = Some n" and "result_ok r"
  shows "validate_result ci (PDict (dump_result r)) = Inr r"
  using assms validate_dump_comments [of ci "res_comments r"]
  by (auto simp: validate_result_def dump_result_def required_def defaulted_def check_def lit_def
      result_ok_def)

text \<open>
  Round trip of the stored feedback: a well-formed review result, dumped for the
  \<open>feedback\<close> column, validates back to exactly itself, for every coercion that accepts integers.
\<close>

theorem stored_review_reads_back:
  assumes "\<And>n. coerce_int (PInt n) = Some n" and "result_ok r"
  shows "validate_result coerce_int (PDict (dump_result r)) = Inr r"
  using assms by (rule dumped_result_validates)

definition demo_comment :: review_comment where
  "demo_comment = \<lparr>rc_path = lit ''a.py'', rc_line = 12, rc_side = RIGHT, rc_body = lit ''boom'',
     rc_severity = CRITICAL, rc_suggested_fix = None, rc_agent_id = Some (lit ''ReviewAgent'')\<rparr>"

theorem stored_review_reads_back_witness:
  "validate_result as_int (PDict (dump_result \<lparr>res_summary = lit ''ok'', res_score = 90,
     res_comments = [demo_comment], res_agent_reports = []\<rparr>)) =
   Inr \<lparr>res_summary = lit ''ok'', res_score = 90, res_comments = [demo_comment], res_agent_reports = []\<rparr>"
  by (rule stored_review_reads_back)
    (simp_all add: result_ok_def comment_ok_def demo_comment_def lit_def)

end
