(* ===== verification/GitHub.thy ===== *)
theory GitHub
  imports World Findings
begin

text \<open>
  \<open>app/services/github.py\<close>: tokens with their cache in the database, the fetches of a pull request,
  check runs and the posting of a review, as methods on a world. The client's base URL, default
  headers and timeout are constant and left out; log lines are left out.
\<close>

section \<open>Limits and texts\<close>

definition max_payload_size :: int where "max_payload_size = 60000"
definition max_comment_body_size :: int where "max_comment_body_size = 8000"
definition max_source_fetch_bytes :: int where "max_source_fetch_bytes = 400000"
definition max_source_fetches :: int where "max_source_fetches = 20"

definition truncation_marker :: pystr where
  "truncation_marker = [NL, NL] @ lit ''[Revix truncated this message to fit GitHub API limits.]''"

definition truncate_text :: "pystr \<Rightarrow> int \<Rightarrow> pystr" where
  "truncate_text value limit = (if int (length value) \<le> limit then value
     else slice_to (max 0 (limit - int (length truncation_marker))) value @ truncation_marker)"

text \<open>\<open>isinstance(v, int)\<close> and \<open>v.strip()\<close> on the three checked fields.\<close>

definition format_review_comment :: "pydict \<Rightarrow> pydict option" where
  "format_review_comment comment =
     (case as_str (dict_get comment (lit ''path'')) of None \<Rightarrow> None
      | Some path \<Rightarrow> if strip path = [] then None else
     (case as_int (dict_get comment (lit ''line'')) of None \<Rightarrow> None
      | Some line \<Rightarrow> if line < 1 then None else
     (case as_str (dict_get comment (lit ''body'')) of None \<Rightarrow> None
      | Some body \<Rightarrow> if strip body = [] then None else
     (let sd = dict_get_or comment (lit ''side'') (PStr (lit ''RIGHT''));
          sd = (if sd = PStr (lit ''LEFT'') \<or> sd = PStr (lit ''RIGHT'') then sd else PStr (lit ''RIGHT''))
      in Some [(lit ''path'', PStr path), (lit ''line'', dict_get comment (lit ''line'')), (lit ''side'', sd),
               (lit ''body'', PStr (truncate_text body max_comment_body_size))]))))"

section \<open>Tokens\<close>

definition bearer :: "pystr \<Rightarrow> (pystr \<times> pystr) list" where
  "bearer token = [(lit ''Authorization'', lit ''Bearer '' @ token)]"

definition jwt_payload :: "settings \<Rightarrow> int \<Rightarrow> pydict" where
  "jwt_payload cfg now = (let iat = now - 60; exp = iat + 10 * 60 in
     [(lit ''iat'', PInt iat), (lit ''exp'', PInt exp), (lit ''iss'', PStr (str_int (GITHUB_APP_ID cfg)))])"

definition generate_jwt :: "host \<Rightarrow> int \<Rightarrow> pystr outcome" where
  "generate_jwt h time = (let now = time div 1000000 in
     bind (github_app_private_key (h_fs h) (h_b64decode h) (h_cfg h)) (\<lambda>private_key.
       h_jwt_encode h (jwt_payload (h_cfg h) now) private_key))"

definition cached_token :: "int \<Rightarrow> int \<Rightarrow> db \<Rightarrow> pystr option" where
  "cached_token now installation_id d =
     map_option it_token (find (\<lambda>t. it_installation_id t = installation_id
        \<and> now + seconds (5 * 60) < it_expires_at t) (installation_tokens d))"

text \<open>\<open>ON CONFLICT (installation_id) DO UPDATE SET token, expires_at\<close>.\<close>

definition store_token :: "int \<Rightarrow> int \<Rightarrow> pystr \<Rightarrow> db \<Rightarrow> db" where
  "store_token now installation_id token d =
     (let expires = now + seconds (55 * 60);
          row = \<lparr>it_installation_id = installation_id, it_token = token, it_expires_at = expires\<rparr>
      in d\<lparr>installation_tokens :=
           (if list_ex (\<lambda>t. it_installation_id t = installation_id) (installation_tokens d)
            then sql_update (\<lambda>t. it_installation_id t = installation_id)
                   (\<lambda>t. t\<lparr>it_token := token, it_expires_at := expires\<rparr>) (installation_tokens d)
            else installation_tokens d @ [row])\<rparr>)"

definition token_request :: "int \<Rightarrow> pystr \<Rightarrow> http_request" where
  "token_request installation_id jwt_token = \<lparr>hr_method = POST,
     hr_path = lit ''/app/installations/'' @ str_int installation_id @ lit ''/access_tokens'',
     hr_headers = bearer jwt_token, hr_params = [], hr_json = None\<rparr>"

text \<open>
  \<open>SELECT\<close> and \<open>INSERT\<close> are one transaction on one connection, so \<open>NOW()\<close> is the same in both.
\<close>

definition get_token :: "host \<Rightarrow> int \<Rightarrow> pystr io" where
  "get_token h installation_id =
     io_bind (transact h (\<lambda>now d. Inr ((now, cached_token now installation_id d), d, []))) (\<lambda>(now, cached).
       case cached of Some token \<Rightarrow> io_return token
       | None \<Rightarrow>
           io_bind (clock h) (\<lambda>time.
           io_bind (io_of (generate_jwt h time)) (\<lambda>jwt_token.
           io_bind (send_ok h (token_request installation_id jwt_token)) (\<lambda>resp.
           io_bind (io_of (bind (rsp_json resp) (\<lambda>data. subscript data (lit ''token'')))) (\<lambda>v.
           let token = show_field (h_str_of h) v in
           io_bind (transact h (\<lambda>_ d. Inr ((), store_token now installation_id token d,
               [CachedToken installation_id token]))) (\<lambda>_.
           io_return token))))))"

section \<open>Fetching a pull request\<close>

definition pull_path :: "pystr \<Rightarrow> int \<Rightarrow> pystr" where
  "pull_path repo pull_number = lit ''/repos/'' @ repo @ lit ''/pulls/'' @ str_int pull_number"

definition get_request :: "pystr \<Rightarrow> (pystr \<times> pystr) list \<Rightarrow> (pystr \<times> pystr) list \<Rightarrow> http_request" where
  "get_request path headers params =
     \<lparr>hr_method = GET, hr_path = path, hr_headers = headers, hr_params = params, hr_json = None\<rparr>"

definition fetch_diff :: "host \<Rightarrow> pystr \<Rightarrow> int \<Rightarrow> pystr \<Rightarrow> pystr io" where
  "fetch_diff h repo pull_number token =
     io_bind (send_ok h (get_request (pull_path repo pull_number)
        (bearer token @ [(lit ''Accept'', lit ''application/vnd.github.diff'')]) []))
       (\<lambda>resp. io_return (rsp_text resp))"

definition fetch_pull_request :: "host \<Rightarrow> pystr \<Rightarrow> int \<Rightarrow> pystr \<Rightarrow> pyval io" where
  "fetch_pull_request h repo pull_number token =
     io_bind (send_ok h (get_request (pull_path repo pull_number) (bearer token) []))
       (\<lambda>resp. io_of (rsp_json resp))"

definition content_request :: "pystr \<Rightarrow> pystr \<Rightarrow> pystr \<Rightarrow> pystr \<Rightarrow> http_request" where
  "content_request repo path r token =
     get_request (lit ''/repos/'' @ repo @ lit ''/contents/'' @ path)
       (bearer token @ [(lit ''Accept'', lit ''application/vnd.github.raw'')]) [(lit ''ref'', r)]"

definition usable_content :: "http_response \<Rightarrow> pystr option" where
  "usable_content resp =
     (if rsp_status resp \<noteq> 200 then None
      else if int (length (rsp_content resp)) > max_source_fetch_bytes then None
      else (case decode_strict (rsp_content resp) of Inl e \<Rightarrow> None | Inr s \<Rightarrow> Some s))"

definition fetch_file_content :: "host \<Rightarrow> pystr \<Rightarrow> pystr \<Rightarrow> pystr \<Rightarrow> pystr \<Rightarrow> pystr option io" where
  "fetch_file_content h repo path r token =
     io_bind (send h (content_request repo path r token)) (\<lambda>resp. io_return (usable_content resp))"

text \<open>Whether the loop tries to fetch a file.\<close>

definition wants_source :: "pr_file \<Rightarrow> bool" where
  "wants_source f \<longleftrightarrow> pf_status f \<noteq> Some (lit ''removed'') \<and> opt_truthy (pf_patch f)
     \<and> (case pf_changes f of None \<Rightarrow> False | Some n \<Rightarrow> n \<noteq> 0)"

definition fetch_source :: "host \<Rightarrow> pystr \<Rightarrow> pystr \<Rightarrow> pystr \<Rightarrow> pr_file \<Rightarrow> pr_file io" where
  "fetch_source h repo head_sha token f =
     io_bind (io_catch
        (case pf_filename f of None \<Rightarrow> io_of (raise_exn KeyError (lit ''filename''))
         | Some name \<Rightarrow> fetch_file_content h repo name head_sha token)
        (\<lambda>e. io_return None))
       (\<lambda>content. io_return (case content of None \<Rightarrow> f | Some s \<Rightarrow> f\<lparr>pf_content := Some s\<rparr>))"

fun attach_source :: "host \<Rightarrow> pystr \<Rightarrow> pystr \<Rightarrow> pystr \<Rightarrow> int \<Rightarrow> pr_file list \<Rightarrow> pr_file list io" where
  "attach_source h repo head_sha token budget [] = io_return []"
| "attach_source h repo head_sha token budget (f # fs) =
     (if budget \<le> 0 then io_return (f # fs)
      else if \<not> wants_source f
      then io_bind (attach_source h repo head_sha token budget fs) (\<lambda>r. io_return (f # r))
      else io_bind (fetch_source h repo head_sha token f) (\<lambda>f'.
           io_bind (attach_source h repo head_sha token (budget - 1) fs) (\<lambda>r. io_return (f' # r))))"

text \<open>
  The elements of GitHub's answer, with the field types GitHub documents; a field of another type
  counts as absent.
\<close>

definition pr_file_of :: "pydict \<Rightarrow> pr_file" where
  "pr_file_of d = \<lparr>pf_filename = as_str (dict_get d (lit ''filename'')),
     pf_status = as_str (dict_get d (lit ''status'')), pf_changes = as_int (dict_get d (lit ''changes'')),
     pf_patch = as_str (dict_get d (lit ''patch'')), pf_content = None\<rparr>"

fun pr_files_of :: "pyval list \<Rightarrow> pr_file list outcome" where
  "pr_files_of [] = Inr []"
| "pr_files_of (PDict d # vs) = bind (pr_files_of vs) (\<lambda>fs. Inr (pr_file_of d # fs))"
| "pr_files_of (v # vs) = raise_exn AttributeError (lit ''get'')"

definition fetch_pull_files :: "host \<Rightarrow> pystr \<Rightarrow> int \<Rightarrow> pystr \<Rightarrow> pystr option \<Rightarrow> pr_file list io" where
  "fetch_pull_files h repo pull_number token head_sha =
     io_bind (send_ok h (get_request (pull_path repo pull_number @ lit ''/files'') (bearer token) [])) (\<lambda>resp.
     io_bind (io_of (bind (rsp_json resp) (\<lambda>v. case as_list v of
          None \<Rightarrow> raise_exn TypeError (lit ''not a list'') | Some vs \<Rightarrow> pr_files_of vs))) (\<lambda>files.
     case non_empty head_sha of None \<Rightarrow> io_return files
     | Some sha \<Rightarrow> attach_source h repo sha token max_source_fetches files))"

section \<open>Check runs\<close>

definition json_request :: "http_method \<Rightarrow> pystr \<Rightarrow> pystr \<Rightarrow> pydict \<Rightarrow> http_request" where
  "json_request m path token payload =
     \<lparr>hr_method = m, hr_path = path, hr_headers = bearer token, hr_params = [], hr_json = Some payload\<rparr>"

definition check_run_created :: "pystr \<Rightarrow> pystr \<Rightarrow> pystr \<Rightarrow> pystr \<Rightarrow> http_request" where
  "check_run_created repo head_sha token started_at =
     json_request POST (lit ''/repos/'' @ repo @ lit ''/check-runs'') token
       [(lit ''name'', PStr (lit ''Revix'')), (lit ''head_sha'', PStr head_sha),
        (lit ''status'', PStr (lit ''in_progress'')), (lit ''started_at'', PStr started_at)]"

definition create_check_run :: "host \<Rightarrow> pystr \<Rightarrow> pystr \<Rightarrow> pystr \<Rightarrow> int io" where
  "create_check_run h repo head_sha token =
     io_bind (clock h) (\<lambda>now.
     io_bind (send_ok h (check_run_created repo head_sha token (h_iso_time h now))) (\<lambda>resp.
     io_of (bind (rsp_json resp) (\<lambda>data. bind (subscript data (lit ''id'')) to_int))))"

definition check_run_completed ::
    "pystr \<Rightarrow> int \<Rightarrow> pystr \<Rightarrow> pystr \<Rightarrow> pydict \<Rightarrow> pystr \<Rightarrow> http_request" where
  "check_run_completed repo check_run_id token conclusion out completed_at =
     json_request PATCH (lit ''/repos/'' @ repo @ lit ''/check-runs/'' @ str_int check_run_id) token
       [(lit ''status'', PStr (lit ''completed'')), (lit ''conclusion'', PStr conclusion),
        (lit ''completed_at'', PStr completed_at), (lit ''output'', PDict out)]"

definition update_check_run :: "host \<Rightarrow> pystr \<Rightarrow> int \<Rightarrow> pystr \<Rightarrow> pystr \<Rightarrow> pydict \<Rightarrow> unit io" where
  "update_check_run h repo check_run_id token conclusion out =
     io_bind (clock h) (\<lambda>now.
     io_bind (send_ok h (check_run_completed repo check_run_id token conclusion out (h_iso_time h now)))
       (\<lambda>resp. io_return ()))"

section \<open>Posting a review\<close>

definition review_path :: "pystr \<Rightarrow> int \<Rightarrow> pystr" where
  "review_path repo pull_number = pull_path repo pull_number @ lit ''/reviews''"

definition review_payload :: "pystr \<Rightarrow> pystr \<Rightarrow> pydict list \<Rightarrow> pydict" where
  "review_payload commit_id body comments =
     [(lit ''commit_id'', PStr commit_id), (lit ''event'', PStr (lit ''COMMENT'')),
      (lit ''comments'', PList (map PDict comments))]
     @ (if body \<noteq> [] then [(lit ''body'', PStr body)] else [])"

text \<open>The two log lines for a 422 are left out; the returned document is not used.\<close>

definition send_review_payload :: "host \<Rightarrow> pystr \<Rightarrow> pystr \<Rightarrow> pystr \<Rightarrow> pystr \<Rightarrow> pydict list \<Rightarrow> pyval io" where
  "send_review_payload h url token commit_id body comments =
     io_bind (send_ok h (json_request POST url token (review_payload commit_id body comments)))
       (\<lambda>resp. io_of (rsp_json resp))"

definition review_signature :: "pystr \<Rightarrow> pystr" where
  "review_signature commit_id = lit ''<!-- revix: '' @ commit_id @ lit '' -->''"

definition signed_body :: "pystr \<Rightarrow> pystr \<Rightarrow> pystr" where
  "signed_body commit_id body =
     truncate_text (if contains (review_signature commit_id) body then body
        else body @ [NL, NL] @ review_signature commit_id) max_payload_size"

text \<open>
  \<open>r.get("body") and signature in r["body"]\<close> over the reviews: the first that says yes ends
  the search, one that is no dictionary or has a body \<open>in\<close> does not work on raises.
\<close>

definition mentions :: "pystr \<Rightarrow> pyval \<Rightarrow> bool outcome" where
  "mentions sig v = (if \<not> truthy v then Inr False else (case v of
       PStr s \<Rightarrow> Inr (contains sig s)
     | PList vs \<Rightarrow> Inr (PStr sig \<in> set vs)
     | PDict d \<Rightarrow> Inr (sig \<in> fst ` set d)
     | _ \<Rightarrow> raise_exn TypeError (lit ''argument is not iterable'')))"

fun any_mentions :: "pystr \<Rightarrow> pyval list \<Rightarrow> bool outcome" where
  "any_mentions sig [] = Inr False"
| "any_mentions sig (PDict r # rs) = bind (mentions sig (dict_get r (lit ''body'')))
     (\<lambda>yes. if yes then Inr True else any_mentions sig rs)"
| "any_mentions sig (v # rs) = raise_exn AttributeError (lit ''get'')"

definition already_reviewed :: "host \<Rightarrow> pystr \<Rightarrow> pystr \<Rightarrow> pystr \<Rightarrow> bool io" where
  "already_reviewed h url token sig =
     io_catch
       (io_bind (send_ok h (get_request url (bearer token) [])) (\<lambda>resp.
        io_of (bind (rsp_json resp) (\<lambda>v. case as_list v of
          None \<Rightarrow> raise_exn TypeError (lit ''not a list of reviews'') | Some rs \<Rightarrow> any_mentions sig rs))))
       (\<lambda>e. io_return False)"

fun post_comments :: "host \<Rightarrow> pystr \<Rightarrow> pystr \<Rightarrow> pystr \<Rightarrow> pydict list \<Rightarrow> unit io" where
  "post_comments h url token commit_id [] = io_return ()"
| "post_comments h url token commit_id (c # cs) =
     io_bind (io_catch (io_bind (send_review_payload h url token commit_id [] [c]) (\<lambda>_. io_return ()))
                (\<lambda>e. io_return ()))
       (\<lambda>_. post_comments h url token commit_id cs)"

definition post_review :: "host \<Rightarrow> pystr \<Rightarrow> int \<Rightarrow> pystr \<Rightarrow> pydict list \<Rightarrow> pystr \<Rightarrow> pystr \<Rightarrow> unit io" where
  "post_review h repo pull_number commit_id comments token body =
     (let url = review_path repo pull_number in
      io_bind (already_reviewed h url token (review_signature commit_id)) (\<lambda>known.
        if known then io_return ()
        else io_bind (send_review_payload h url token commit_id (signed_body commit_id body) []) (\<lambda>_.
             post_comments h url token commit_id (List.map_filter format_review_comment comments))))"

section \<open>Texts within GitHub's limits\<close>

lemma truncate_text_length:
  assumes "int (length truncation_marker) \<le> limit"
  shows "int (length (truncate_text value limit)) \<le> limit"
  using assms length_slice_to_le [of "limit - int (length truncation_marker)" "value"]
  by (auto simp: truncate_text_def max_def)

lemma marker_fits: "int (length truncation_marker) \<le> max_comment_body_size"
  "int (length truncation_marker) \<le> max_payload_size"
  by (simp_all add: truncation_marker_def lit_def max_comment_body_size_def max_payload_size_def)

lemma truncate_text_id: "int (length value) \<le> limit \<Longrightarrow> truncate_text value limit = value"
  by (simp add: truncate_text_def)

text \<open>What GitHub accepts as a review comment.\<close>

definition postable :: "pydict \<Rightarrow> bool" where
  "postable c \<longleftrightarrow> (\<exists>path line body. dict_get c (lit ''path'') = PStr path \<and> strip path \<noteq> []
     \<and> as_int (dict_get c (lit ''line'')) = Some line \<and> 1 \<le> line
     \<and> (dict_get c (lit ''side'') = PStr (lit ''LEFT'') \<or> dict_get c (lit ''side'') = PStr (lit ''RIGHT''))
     \<and> dict_get c (lit ''body'') = PStr body \<and> int (length body) \<le> max_comment_body_size)"

lemma as_str_Some: "as_str v = Some s \<longleftrightarrow> v = PStr s"
  by (cases v) (auto simp: as_str_def)

lemma format_review_comment_postable: "format_review_comment c = Some c' \<Longrightarrow> postable c'"
  by (auto simp: format_review_comment_def postable_def Let_def dict_get_def as_str_Some lit_def
      truncate_text_length marker_fits split: option.splits if_splits)

lemma signature_parts: "review_signature sha \<noteq> []" "hd (review_signature sha) = 60"
  "last (review_signature sha) = 62"
  by (simp_all add: review_signature_def lit_def)

text \<open>A body that fits keeps the signature; one that is too long loses it.\<close>

lemma signed_body_signed:
  assumes "int (length body + length (review_signature sha)) + 2 \<le> max_payload_size"
  shows "contains (review_signature sha) (signed_body sha body)"
  using assms by (auto simp: signed_body_def truncate_text_id intro: contains_append2)

lemma signature_truncated_away:
  assumes "max_payload_size \<le> int (length body)" "\<not> contains (review_signature sha) body"
  shows "\<not> contains (review_signature sha) (signed_body sha body)"
proof
  let ?cut = "max 0 (max_payload_size - int (length truncation_marker))"
  let ?long = "body @ [NL, NL] @ review_signature sha"
  assume "contains (review_signature sha) (signed_body sha body)"
  moreover have "\<not> int (length ?long) \<le> max_payload_size" using assms(1) by simp
  moreover have marker_last: "62 \<notin> set truncation_marker" by (simp add: truncation_marker_def lit_def)
  ultimately have "contains (review_signature sha) ([] @ slice_to ?cut ?long @ truncation_marker)"
    using assms(2) by (simp only: signed_body_def truncate_text_def if_False append_Nil)
  then have "contains (review_signature sha) (slice_to ?cut ?long)"
    using contains_apart [OF signature_parts(1), where s = "[]" and t = truncation_marker and x = "slice_to ?cut ?long"]
      marker_last by (simp add: signature_parts)
  moreover have "nat ?cut \<le> length body" "0 \<le> ?cut" using assms(1) by linarith+
  then have "slice_to ?cut ?long = take (nat ?cut) body" by (simp add: slice_to_def del: nat_0_le)
  moreover have "body = [] @ take (nat ?cut) body @ drop (nat ?cut) body" by simp
  then have "contains (take (nat ?cut) body) body" unfolding contains_iff by blast
  ultimately show False using assms(2) contains_trans by metis
qed

section \<open>What posting a review sends\<close>

lemma send_log: "snd (send h rq w) = w\<lparr>w_log := w_log w @ [Sent rq]\<rparr>"
  by (simp add: send_def)

lemma send_ok_world: "snd (send_ok h rq w) = w\<lparr>w_log := w_log w @ [Sent rq]\<rparr>"
  by (simp add: send_ok_def io_defs send_def split: sum.split prod.split)

lemma send_review_payload_world:
  "snd (send_review_payload h url token sha body cs w)
   = w\<lparr>w_log := w_log w @ [Sent (json_request POST url token (review_payload sha body cs))]\<rparr>"
  using send_ok_world [of h "json_request POST url token (review_payload sha body cs)" w]
  by (auto simp: send_review_payload_def io_defs split: sum.splits prod.splits)

lemma already_reviewed_world:
  "already_reviewed h url token sig w = (Inr k, w') \<Longrightarrow>
     w' = w\<lparr>w_log := w_log w @ [Sent (get_request url (bearer token) [])]\<rparr>"
  using send_ok_world [of h "get_request url (bearer token) []" w]
  by (auto simp: already_reviewed_def io_defs split: sum.splits prod.splits)

lemma already_reviewed_total: "\<exists>k. fst (already_reviewed h url token sig w) = Inr k"
  by (auto simp: already_reviewed_def io_defs split: sum.splits prod.splits)

lemma post_comments_world:
  "post_comments h url token sha cs w = (Inr (), w\<lparr>w_log := w_log w
     @ map (\<lambda>c. Sent (json_request POST url token (review_payload sha [] [c]))) cs\<rparr>)"
proof (induction cs arbitrary: w)
  case (Cons c cs)
  obtain r w' where send: "send_review_payload h url token sha [] [c] w = (r, w')" by fastforce
  then have "w' = w\<lparr>w_log := w_log w @ [Sent (json_request POST url token (review_payload sha [] [c]))]\<rparr>"
    using send_review_payload_world [of h url token sha "[]" "[c]" w] by simp
  with send Cons show ?case by (cases r) (simp_all add: io_defs)
qed (simp add: io_return_def)

lemma post_review_log:
  fixes h repo pull_number sha comments token body w
  defines "url \<equiv> review_path repo pull_number" and "res \<equiv> post_review h repo pull_number sha comments token body w"
    and "posted \<equiv> List.map_filter format_review_comment comments"
  shows "w_log (snd res) = w_log w @ Sent (get_request url (bearer token) [])
      # (if fst (already_reviewed h url token (review_signature sha) w) = Inr True then []
         else Sent (json_request POST url token (review_payload sha (signed_body sha body) []))
           # (if fst res = Inr () then map (\<lambda>c. Sent (json_request POST url token (review_payload sha [] [c]))) posted
              else []))
    \<and> w_db (snd res) = w_db w \<and> int (length (signed_body sha body)) \<le> max_payload_size \<and> list_all postable posted"
proof -
  obtain known where known: "fst (already_reviewed h url token (review_signature sha) w) = Inr known"
    using already_reviewed_total by blast
  obtain w1 where search: "already_reviewed h url token (review_signature sha) w = (Inr known, w1)"
    using known by (metis prod.collapse)
  note w1 = already_reviewed_world [OF search]
  obtain r w2 where send: "send_review_payload h url token sha (signed_body sha body) [] w1 = (r, w2)" by fastforce
  then have w2: "w2 = w1\<lparr>w_log := w_log w1 @ [Sent (json_request POST url token (review_payload sha (signed_body sha body) []))]\<rparr>"
    using send_review_payload_world by (metis snd_conv)
  have "int (length (signed_body sha body)) \<le> max_payload_size"
    unfolding signed_body_def by (rule truncate_text_length [OF marker_fits(2)])
  moreover have "list_all postable posted"
    by (auto simp: posted_def List.map_filter_def list_all_iff intro: format_review_comment_postable)
  ultimately show ?thesis
    using search w1 send w2
    by (cases known; cases r)
      (simp_all add: res_def post_review_def Let_def io_bind_def io_return_def post_comments_world url_def posted_def)
qed

text \<open>
  C33. Exactly what a posted review sends, against any server: the search for an earlier
  review; nothing more if there is one; otherwise the summary, and when GitHub took it every well-formed
  comment as a review of its own, each exactly once, in order, whether or not the ones before
  it were refused. The call fails only when the summary is refused; the summary has at most
  60000 characters and every posted comment is within GitHub's limits.
\<close>

theorem post_review_sends:
  fixes h repo pull_number sha comments token body w
  defines "url \<equiv> review_path repo pull_number" and "res \<equiv> post_review h repo pull_number sha comments token body w"
    and "posted \<equiv> List.map_filter format_review_comment comments"
  shows "w_log (snd res) = w_log w @ Sent (get_request url (bearer token) [])
      # (if fst (already_reviewed h url token (review_signature sha) w) = Inr True then []
         else Sent (json_request POST url token (review_payload sha (signed_body sha body) []))
           # (if fst res = Inr () then map (\<lambda>c. Sent (json_request POST url token (review_payload sha [] [c]))) posted
              else []))
    \<and> w_db (snd res) = w_db w \<and> int (length (signed_body sha body)) \<le> max_payload_size \<and> list_all postable posted"
  unfolding assms by (rule post_review_log)

text \<open>
  Posting is idempotent as far as the search sees: when one of the reviews
  GitHub lists is an earlier summary for this commit that fitted the size limit, posting again, with
  whatever body and comments, changes nothing.
\<close>

theorem second_review_suppressed:
  assumes "int (length old_body + length (review_signature sha)) + 2 \<le> max_payload_size"
    and "h_server h (w_log w) (get_request (review_path repo pull_number) (bearer token) []) = Inr resp"
    and "rsp_status resp = 200" "rsp_json resp = Inr (PList (map PDict reviews))"
    and "\<And>r. r \<in> set reviews \<Longrightarrow> dict_get r (lit ''body'') = PNone \<or> (\<exists>s. dict_get r (lit ''body'') = PStr s)"
    and "earlier \<in> set reviews" "dict_get earlier (lit ''body'') = PStr (signed_body sha old_body)"
  shows "post_review h repo pull_number sha comments token body w
    = (Inr (), w\<lparr>w_log := w_log w @ [Sent (get_request (review_path repo pull_number) (bearer token) [])]\<rparr>)"
proof -
  let ?sig = "review_signature sha"
  have sig: "contains ?sig (signed_body sha old_body)" by (rule signed_body_signed [OF assms(1)])
  have found: "any_mentions ?sig (map PDict rs) = Inr True"
    if "earlier \<in> set rs" "set rs \<subseteq> set reviews" for rs
    using that
  proof (induction rs)
    case (Cons r rs)
    consider "dict_get r (lit ''body'') = PNone" | s where "dict_get r (lit ''body'') = PStr s"
      using assms(5) Cons.prems(2) by auto
    then show ?case
    proof cases
      case 1
      with Cons assms(7) show ?thesis by (auto simp: mentions_def)
    next
      case 2
      have "s \<noteq> []" if "contains ?sig s" using that signature_parts(1) by auto
      with 2 Cons assms(7) sig show ?thesis by (auto simp: mentions_def)
    qed
  qed simp
  have "any_mentions ?sig (map PDict reviews) = Inr True" using found assms(6) by blast
  with assms(2-4) show ?thesis
    by (simp add: post_review_def already_reviewed_def io_defs send_ok_def send_def raise_for_status_def Let_def)
qed

section \<open>Tokens and sources\<close>

lemma decode_strict_length: "decode_strict bs = Inr s \<Longrightarrow> length s \<le> length bs"
proof (induction bs arbitrary: s rule: decode_strict.induct)
  case (2 b bs)
  obtain r n where d: "decode1 b bs = (r, n)" by fastforce
  with 2 obtain c t where t: "r = Some c" "decode_strict (drop (n - 1) bs) = Inr t" "s = c # t"
    by (auto simp: bind_Inr_iff split: option.splits)
  with 2 d have "length t \<le> length (drop (n - 1) bs)" by fastforce
  with t show ?case by simp
qed simp

text \<open>What attaching sources may do to a file.\<close>

definition sourced :: "pr_file \<Rightarrow> pr_file \<Rightarrow> bool" where
  "sourced f f' \<longleftrightarrow> f' = f \<or> wants_source f
     \<and> (\<exists>s. f' = f\<lparr>pf_content := Some s\<rparr> \<and> int (length s) \<le> max_source_fetch_bytes)"

lemma usable_content_length: "usable_content r = Some s \<Longrightarrow> int (length s) \<le> max_source_fetch_bytes"
  by (auto simp: usable_content_def split: if_splits sum.splits dest!: decode_strict_length)

definition fetches_content :: "pystr \<Rightarrow> pystr \<Rightarrow> event \<Rightarrow> bool" where
  "fetches_content repo sha e \<longleftrightarrow> (\<exists>path token. e = Sent (content_request repo path sha token))"

lemma fetches_contentI: "fetches_content repo sha (Sent (content_request repo path sha token))"
  by (auto simp: fetches_content_def)

lemma fetch_source_world:
  assumes "wants_source f"
  shows "\<exists>f' es. fetch_source h repo sha token f w = (Inr f', w\<lparr>w_log := w_log w @ es\<rparr>)
    \<and> sourced f f' \<and> length es \<le> 1 \<and> list_all (fetches_content repo sha) es"
proof (cases "pf_filename f")
  case None
  then show ?thesis
    by (auto simp: fetch_source_def io_defs raise_exn_def sourced_def intro!: exI [of _ "[]"])
next
  case (Some name)
  let ?rq = "content_request repo name sha token"
  show ?thesis
  proof (cases "h_server h (w_log w) ?rq")
    case (Inl e)
    with Some show ?thesis
      by (auto simp: fetch_source_def fetch_file_content_def io_defs send_def sourced_def fetches_contentI
          intro!: exI [of _ "[Sent ?rq]"])
  next
    case (Inr r)
    have "sourced f (case usable_content r of None \<Rightarrow> f | Some s \<Rightarrow> f\<lparr>pf_content := Some s\<rparr>)"
      using assms usable_content_length [of r] by (auto simp: sourced_def split: option.split)
    with Inr Some show ?thesis
      by (auto simp: fetch_source_def fetch_file_content_def io_defs send_def fetches_contentI
          intro!: exI [of _ "[Sent ?rq]"])
  qed
qed

text \<open>
  Attaching sources is bounded and can not fail: whatever GitHub answers, at most the budget
  of requests is sent, each for the contents of a file at the head commit; the files come out in their
  order, each unchanged but for the source of a file that was modified, not removed, and has a patch,
  and no attached source is longer than 400000 characters.
\<close>

theorem attach_source_bounded:
  shows "\<exists>files' es. attach_source h repo sha token budget files w = (Inr files', w\<lparr>w_log := w_log w @ es\<rparr>)
    \<and> list_all2 sourced files files' \<and> length es \<le> nat budget \<and> list_all (fetches_content repo sha) es"
proof (induction files arbitrary: budget w)
  case Nil
  show ?case by (auto simp: io_return_def intro!: exI [of _ "[]"])
next
  case (Cons f fs)
  have same: "list_all2 sourced fs' fs'" for fs' by (auto simp: sourced_def intro: list.rel_refl)
  consider "budget \<le> 0" | "0 < budget" "\<not> wants_source f" | "0 < budget" "wants_source f" by linarith
  then show ?case
  proof cases
    case 1
    with same [of "f # fs"] show ?thesis by (auto simp: io_return_def intro!: exI [of _ "[]"])
  next
    case 2
    obtain files' es where ih: "attach_source h repo sha token budget fs w = (Inr files', w\<lparr>w_log := w_log w @ es\<rparr>)"
      "list_all2 sourced fs files'" "length es \<le> nat budget" "list_all (fetches_content repo sha) es"
      using Cons.IH by blast
    with 2 show ?thesis
      by (auto simp: io_bind_def io_return_def intro!: exI [of _ "f # files'"] exI [of _ es]) (simp add: sourced_def)
  next
    case 3
    obtain f' es1 where one: "fetch_source h repo sha token f w = (Inr f', w\<lparr>w_log := w_log w @ es1\<rparr>)"
      "sourced f f'" "length es1 \<le> 1" "list_all (fetches_content repo sha) es1"
      using fetch_source_world [OF 3(2)] by blast
    let ?w1 = "w\<lparr>w_log := w_log w @ es1\<rparr>"
    obtain files' es where ih:
      "attach_source h repo sha token (budget - 1) fs ?w1 = (Inr files', ?w1\<lparr>w_log := w_log ?w1 @ es\<rparr>)"
      "list_all2 sourced fs files'" "length es \<le> nat (budget - 1)" "list_all (fetches_content repo sha) es"
      using Cons.IH by blast
    have "length (es1 @ es) \<le> nat budget" using one(3) ih(3) 3(1) by simp
    with 3 one ih show ?thesis
      by (auto simp: io_bind_def io_return_def intro!: exI [of _ "f' # files'"] exI [of _ "es1 @ es"])
  qed
qed

text \<open>One row for each installation, as the primary key demands.\<close>

definition tokens_keyed :: "db \<Rightarrow> bool" where
  "tokens_keyed d \<longleftrightarrow> distinct (map it_installation_id (installation_tokens d))"

lemma find_key:
  assumes "distinct (map f rows)" "r \<in> set rows" "f r = k"
  shows "find (\<lambda>x. f x = k \<and> P x) rows = (if P r then Some r else None)"
  using assms by (induction rows) (auto simp: find_None_iff image_iff)

lemma find_snoc: "find P (xs @ [y]) = (case find P xs of None \<Rightarrow> if P y then Some y else None | Some x \<Rightarrow> Some x)"
  by (induction xs) auto

lemma find_update_other:
  assumes "k' \<noteq> k" "\<And>x. f (g x) = f x"
  shows "find (\<lambda>x. f x = k' \<and> P x) (sql_update (\<lambda>x. f x = k) g rows) = find (\<lambda>x. f x = k' \<and> P x) rows"
  using assms by (induction rows) (auto simp: sql_update_def)

lemma store_token_row:
  "tokens_keyed d \<Longrightarrow> tokens_keyed (store_token now i t d)
    \<and> (\<exists>r. r \<in> set (installation_tokens (store_token now i t d)) \<and> it_installation_id r = i
         \<and> it_token r = t \<and> it_expires_at r = now + seconds (55 * 60))"
  by (auto simp: tokens_keyed_def store_token_def Let_def list_ex_iff map_sql_update set_sql_update image_iff)

text \<open>
  The token cache: a token that is stored is handed out again, without any request, for
  fifty minutes and not longer, so that every token handed out is valid for at least five more
  minutes; tokens of other installations are untouched, and there is one row for each installation.
\<close>

theorem token_reused:
  assumes "tokens_keyed d"
  shows "cached_token now' i (store_token now i t d) = (if now' < now + seconds (50 * 60) then Some t else None)
    \<and> tokens_keyed (store_token now i t d)
    \<and> (i' \<noteq> i \<longrightarrow> cached_token now' i' (store_token now i t d) = cached_token now' i' d)
    \<and> (h_fault h (w_ticks w) = None \<longrightarrow> h_others h (w_ticks w) (w_db w) = store_token now i t d \<longrightarrow>
        h_clock h (w_ticks w) < now + seconds (50 * 60) \<longrightarrow>
        get_token h i w = (Inr t, w\<lparr>w_db := store_token now i t d, w_ticks := Suc (w_ticks w)\<rparr>))"
proof -
  obtain r where r: "tokens_keyed (store_token now i t d)"
    "r \<in> set (installation_tokens (store_token now i t d))" "it_installation_id r = i" "it_token r = t"
    "it_expires_at r = now + seconds (55 * 60)"
    using store_token_row [OF assms] by blast
  have hit: "cached_token x i (store_token now i t d) = (if x < now + seconds (50 * 60) then Some t else None)" for x
    using find_key [where f = it_installation_id and P = "\<lambda>y. x + seconds (5 * 60) < it_expires_at y",
        OF r(1) [unfolded tokens_keyed_def] r(2,3)] r(4,5)
    by (simp add: cached_token_def seconds_def)
  have other: "cached_token now' i' (store_token now i t d) = cached_token now' i' d" if "i' \<noteq> i"
    using that find_update_other [OF that, where f = it_installation_id
        and P = "\<lambda>y. now' + seconds (5 * 60) < it_expires_at y" and rows = "installation_tokens d"
        and g = "\<lambda>y. y\<lparr>it_token := t, it_expires_at := now + seconds (55 * 60)\<rparr>"]
    by (simp add: cached_token_def store_token_def Let_def find_snoc split: option.split)
  show ?thesis
    using hit other r(1)
    by (simp add: get_token_def transact_def io_bind_def io_return_def Let_def)
qed

definition quiet_host :: host where
  "quiet_host = \<lparr>h_cfg = default_settings, h_server = \<lambda>log rq. raise_exn TransportError (lit ''down''),
     h_clock = \<lambda>n. 0, h_others = \<lambda>n d. d, h_fault = \<lambda>n. None, h_uuid_str = \<lambda>i. str_int (int i),
     h_iso_time = \<lambda>t. [], h_str_of = \<lambda>v. [], h_fs = \<lambda>p. None, h_b64decode = \<lambda>s. Inr s,
     h_jwt_encode = \<lambda>d k. Inr k\<rparr>"

definition fresh_world :: "db \<Rightarrow> world" where
  "fresh_world d = \<lparr>w_db = d, w_log = [], w_ticks = 0\<rparr>"

theorem token_reused_witness:
  "get_token quiet_host 7 (fresh_world (store_token 0 7 (lit ''t'') upgrade))
   = (Inr (lit ''t''), (fresh_world (store_token 0 7 (lit ''t'') upgrade))\<lparr>w_ticks := Suc 0\<rparr>)"
  using token_reused [of upgrade, where i = 7 and t = "lit ''t''" and now = 0 and h = quiet_host
      and w = "fresh_world (store_token 0 7 (lit ''t'') upgrade)"]
  by (simp add: tokens_keyed_def upgrade_def quiet_host_def fresh_world_def seconds_def)

definition reviews_response :: http_response where
  "reviews_response = \<lparr>rsp_status = 200, rsp_headers = [], rsp_content = [], rsp_text = [],
     rsp_json = Inr (PList (map PDict [[(lit ''body'', PStr (signed_body (lit ''abc'') (lit ''hi'')))]])),
     rsp_error = []\<rparr>"

theorem second_review_suppressed_witness:
  "fst (post_review (quiet_host\<lparr>h_server := \<lambda>log rq. Inr reviews_response\<rparr>)
     (lit ''o/r'') 3 (lit ''abc'') [] [] (lit ''hi'') (fresh_world upgrade)) = Inr ()"
  by (subst second_review_suppressed [where old_body = "lit ''hi''" and sha = "lit ''abc''" and resp = reviews_response
        and reviews = "[[(lit ''body'', PStr (signed_body (lit ''abc'') (lit ''hi'')))]]"
        and earlier = "[(lit ''body'', PStr (signed_body (lit ''abc'') (lit ''hi'')))]"])
    (simp_all add: max_payload_size_def review_signature_def dict_get_def lit_def reviews_response_def)

end
