(* ===== verification/Json.thy ===== *)
theory Json
  imports PyValue
begin

text \<open>
  \<open>json.loads\<close> and \<open>json.dumps\<close>, which payloads, trace contexts, tool arguments, model
  answers and stored feedback all pass through. The grammar is the one of the standard library's
  decoder: the four JSON blanks, strict strings, \<open>NaN\<close> and the infinities, the last of two equal
  keys winning. Reading and writing a float (\<open>float(s)\<close>, \<open>repr(x)\<close>) are arguments; nesting beyond the
  interpreter's recursion limit and integers of more than 4300 digits are not treated apart.
\<close>

section \<open>Strings\<close>

definition hex_val :: "int \<Rightarrow> int option" where
  "hex_val c = (if 48 \<le> c \<and> c \<le> 57 then Some (c - 48) else if 97 \<le> c \<and> c \<le> 102 then Some (c - 87)
     else if 65 \<le> c \<and> c \<le> 70 then Some (c - 55) else None)"

fun hex4 :: "pystr \<Rightarrow> (int \<times> pystr) option" where
  "hex4 (a # b # c # d # r) =
     (case (hex_val a, hex_val b, hex_val c, hex_val d) of
        (Some w, Some x, Some y, Some z) \<Rightarrow> Some (4096 * w + 256 * x + 16 * y + z, r)
      | _ \<Rightarrow> None)"
| "hex4 _ = None"

definition high_surrogate :: "int \<Rightarrow> bool" where
  "high_surrogate c \<longleftrightarrow> 55296 \<le> c \<and> c \<le> 56319"

definition low_surrogate :: "int \<Rightarrow> bool" where
  "low_surrogate c \<longleftrightarrow> 56320 \<le> c \<and> c \<le> 57343"

definition low_escape :: "pystr \<Rightarrow> (int \<times> pystr) option" where
  "low_escape s = (if starts [92, 117] s
     then (case hex4 (drop 2 s) of None \<Rightarrow> None
           | Some (c, r) \<Rightarrow> if low_surrogate c then Some (c, r) else None)
     else None)"

text \<open>What follows a backslash.\<close>

definition unescape :: "pystr \<Rightarrow> (int \<times> pystr) option" where
  "unescape s = (case s of [] \<Rightarrow> None | e # r \<Rightarrow>
     if e = 34 \<or> e = 92 \<or> e = 47 then Some (e, r)
     else if e = 98 then Some (8, r) else if e = 102 then Some (12, r)
     else if e = 110 then Some (10, r) else if e = 114 then Some (13, r)
     else if e = 116 then Some (9, r)
     else if e = 117 then
       (case hex4 r of None \<Rightarrow> None
        | Some (c, r') \<Rightarrow>
            if high_surrogate c
            then (case low_escape r' of None \<Rightarrow> Some (c, r')
                  | Some (d, r'') \<Rightarrow> Some (65536 + (c - 55296) * 1024 + (d - 56320), r''))
            else Some (c, r'))
     else None)"

lemma hex4_length: "hex4 s = Some (c, r) \<Longrightarrow> length r < length s"
  by (induction s rule: hex4.induct) (auto split: option.splits)

lemma low_escape_length: "low_escape s = Some (c, r) \<Longrightarrow> length r < length s"
  by (auto simp: low_escape_def dest!: hex4_length split: if_splits option.splits)

lemma unescape_length: "unescape s = Some (c, r) \<Longrightarrow> length r < length s"
  by (auto simp: unescape_def dest!: hex4_length low_escape_length
      split: list.splits if_splits option.splits)

function scan_string :: "pystr \<Rightarrow> (pystr \<times> pystr) option" where
  "scan_string [] = None"
| "scan_string (c # s) =
     (if c = 34 then Some ([], s)
      else if c \<le> 31 then None
      else if c \<noteq> 92 then map_option (\<lambda>(t, r). (c # t, r)) (scan_string s)
      else (case unescape s of None \<Rightarrow> None
            | Some (d, s') \<Rightarrow> map_option (\<lambda>(t, r). (d # t, r)) (scan_string s')))"
  by pat_completeness auto
termination
  by (relation "measure length") (auto dest: unescape_length)

section \<open>Numbers\<close>

definition ascii_digit :: "int \<Rightarrow> bool" where
  "ascii_digit c \<longleftrightarrow> 48 \<le> c \<and> c \<le> 57"

definition decimal :: "pystr \<Rightarrow> int" where
  "decimal ds = foldl (\<lambda>n d. 10 * n + (d - 48)) 0 ds"

definition int_digits :: "pystr \<Rightarrow> (pystr \<times> pystr) option" where
  "int_digits s = (case s of [] \<Rightarrow> None | c # r \<Rightarrow>
     if c = 48 then Some ([48], r)
     else if ascii_digit c then Some (takeWhile ascii_digit s, dropWhile ascii_digit s)
     else None)"

text \<open>The fraction and the exponent, each taken only when it has a digit.\<close>

definition frac_part :: "pystr \<Rightarrow> pystr \<times> pystr" where
  "frac_part s = (case s of c # d # r \<Rightarrow>
       if c = 46 \<and> ascii_digit d
       then (46 # takeWhile ascii_digit (d # r), dropWhile ascii_digit (d # r)) else ([], s)
     | _ \<Rightarrow> ([], s))"

definition exp_part :: "pystr \<Rightarrow> pystr \<times> pystr" where
  "exp_part s = (case s of [] \<Rightarrow> ([], s) | c # r \<Rightarrow>
     if c = 101 \<or> c = 69 then
       (let sg = (if r \<noteq> [] \<and> (hd r = 43 \<or> hd r = 45) then [hd r] else []);
            r' = drop (length sg) r
        in if r' \<noteq> [] \<and> ascii_digit (hd r')
           then (c # sg @ takeWhile ascii_digit r', dropWhile ascii_digit r') else ([], s))
     else ([], s))"

definition scan_number :: "(pystr \<Rightarrow> pyfloat) \<Rightarrow> pystr \<Rightarrow> (pyval \<times> pystr) option" where
  "scan_number read_float s =
     (let neg = (s \<noteq> [] \<and> hd s = 45); s1 = (if neg then tl s else s) in
      case int_digits s1 of None \<Rightarrow> None
      | Some (ds, s2) \<Rightarrow>
          (case frac_part s2 of (fr, s3) \<Rightarrow>
           case exp_part s3 of (ex, s4) \<Rightarrow>
             Some (if fr = [] \<and> ex = [] then PInt (if neg then - decimal ds else decimal ds)
                   else PFloat (read_float ((if neg then [45] else []) @ ds @ fr @ ex)), s4)))"

section \<open>Values\<close>

definition json_blank :: "int \<Rightarrow> bool" where
  "json_blank c \<longleftrightarrow> c = 32 \<or> c = 9 \<or> c = 10 \<or> c = 13"

definition skip :: "pystr \<Rightarrow> pystr" where
  "skip s = dropWhile json_blank s"

definition keyword_at :: "pystr \<Rightarrow> pyval \<Rightarrow> pystr \<Rightarrow> (pyval \<times> pystr) option" where
  "keyword_at w v s = (if starts w s then Some (v, drop (length w) s) else None)"

definition scan_constant :: "(pystr \<Rightarrow> pyfloat) \<Rightarrow> int \<Rightarrow> pystr \<Rightarrow> (pyval \<times> pystr) option" where
  "scan_constant read_float c s =
     (if c = 110 then keyword_at (lit ''null'') PNone s
      else if c = 116 then keyword_at (lit ''true'') (PBool True) s
      else if c = 102 then keyword_at (lit ''false'') (PBool False) s
      else if c = 78 then keyword_at (lit ''NaN'') (PFloat NaN) s
      else if c = 73 then keyword_at (lit ''Infinity'') (PFloat (Infinite True)) s
      else if starts (lit ''-Infinity'') s then keyword_at (lit ''-Infinity'') (PFloat (Infinite False)) s
      else scan_number read_float s)"

text \<open>The next character that is not a blank, with what follows it.\<close>

definition next_char :: "pystr \<Rightarrow> (int \<times> pystr) option" where
  "next_char s = (case skip s of [] \<Rightarrow> None | c # r \<Rightarrow> Some (c, r))"

text \<open>\<open>key : \<close> of a member: the text after the opening quote to the key and the start of the value.\<close>

definition member_key :: "pystr \<Rightarrow> (pystr \<times> pystr) option" where
  "member_key s = (case s of [] \<Rightarrow> None | q # r \<Rightarrow>
     if q \<noteq> 34 then None
     else Option.bind (scan_string r) (\<lambda>(key, r).
          Option.bind (next_char r) (\<lambda>(c, r). if c = 58 then Some (key, skip r) else None)))"

definition scan_atom :: "(pystr \<Rightarrow> pyfloat) \<Rightarrow> pystr \<Rightarrow> (pyval \<times> pystr) option" where
  "scan_atom read_float s = (case s of [] \<Rightarrow> None | c # r \<Rightarrow>
     if c = 34 then map_option (\<lambda>(t, r). (PStr t, r)) (scan_string r)
     else scan_constant read_float c s)"

fun json_value :: "(pystr \<Rightarrow> pyfloat) \<Rightarrow> nat \<Rightarrow> pystr \<Rightarrow> (pyval \<times> pystr) option"
  and json_members :: "(pystr \<Rightarrow> pyfloat) \<Rightarrow> nat \<Rightarrow> pydict \<Rightarrow> pystr \<Rightarrow> (pyval \<times> pystr) option"
  and json_elements :: "(pystr \<Rightarrow> pyfloat) \<Rightarrow> nat \<Rightarrow> pyval list \<Rightarrow> pystr \<Rightarrow> (pyval \<times> pystr) option"
  where
  "json_value read_float 0 s = None"
| "json_value read_float (Suc k) s =
     (if starts [123] s then
        Option.bind (next_char (tl s)) (\<lambda>(d, r).
          if d = 125 then Some (PDict [], r) else json_members read_float k [] (d # r))
      else if starts [91] s then
        Option.bind (next_char (tl s)) (\<lambda>(d, r).
          if d = 93 then Some (PList [], r) else json_elements read_float k [] (d # r))
      else scan_atom read_float s)"
| "json_members read_float 0 d s = None"
| "json_members read_float (Suc k) d s =
     Option.bind (member_key s) (\<lambda>(key, r).
     Option.bind (json_value read_float k r) (\<lambda>(v, r).
     Option.bind (next_char r) (\<lambda>(c, r).
       if c = 125 then Some (PDict (dict_set d key v), r)
       else if c = 44 then json_members read_float k (dict_set d key v) (skip r)
       else None)))"
| "json_elements read_float 0 vs s = None"
| "json_elements read_float (Suc k) vs s =
     Option.bind (json_value read_float k s) (\<lambda>(v, r).
     Option.bind (next_char r) (\<lambda>(c, r).
       if c = 93 then Some (PList (vs @ [v]), r)
       else if c = 44 then json_elements read_float k (vs @ [v]) (skip r)
       else None))"

text \<open>
  Each nested call has consumed a character, so the length of the text bounds the depth.
\<close>

definition json_loads :: "(pystr \<Rightarrow> pyfloat) \<Rightarrow> pystr \<Rightarrow> pyval outcome" where
  "json_loads read_float s =
     (let err = raise_exn JSONDecodeError (lit ''invalid JSON'') in
      if starts [65279] s then err
      else (case json_value read_float (2 * length s + 2) (skip s) of
              None \<Rightarrow> err
            | Some (v, r) \<Rightarrow> if skip r = [] then Inr v else err))"

declare json_value.simps [simp del] json_members.simps [simp del] json_elements.simps [simp del]

lemmas parse_simps = json_value.simps json_members.simps json_elements.simps

section \<open>Writing\<close>

definition hex_digit :: "int \<Rightarrow> int" where
  "hex_digit n = (if n < 10 then 48 + n else 87 + n)"

definition u_escape :: "int \<Rightarrow> pystr" where
  "u_escape c = [92, 117, hex_digit (c div 4096), hex_digit (c div 256 mod 16),
     hex_digit (c div 16 mod 16), hex_digit (c mod 16)]"

definition escape_cp :: "int \<Rightarrow> pystr" where
  "escape_cp c =
     (if c = 34 \<or> c = 92 then [92, c] else if c = 8 then [92, 98] else if c = 12 then [92, 102]
      else if c = 10 then [92, 110] else if c = 13 then [92, 114] else if c = 9 then [92, 116]
      else if 32 \<le> c \<and> c \<le> 126 then [c]
      else if c < 65536 then u_escape c
      else u_escape (55296 + (c - 65536) div 1024) @ u_escape (56320 + (c - 65536) mod 1024))"

definition dump_string :: "pystr \<Rightarrow> pystr" where
  "dump_string s = 34 # concat (map escape_cp s) @ [34]"

definition dump_float :: "(pyfloat \<Rightarrow> pystr) \<Rightarrow> pyfloat \<Rightarrow> pystr" where
  "dump_float repr_float f = (case f of NaN \<Rightarrow> lit ''NaN''
     | Infinite positive \<Rightarrow> (if positive then lit ''Infinity'' else lit ''-Infinity'')
     | Finite m e \<Rightarrow> repr_float f)"

fun json_dumps :: "(pyfloat \<Rightarrow> pystr) \<Rightarrow> pyval \<Rightarrow> pystr" where
  "json_dumps rf PNone = lit ''null''"
| "json_dumps rf (PBool b) = (if b then lit ''true'' else lit ''false'')"
| "json_dumps rf (PInt n) = str_int n"
| "json_dumps rf (PFloat f) = dump_float rf f"
| "json_dumps rf (PStr s) = dump_string s"
| "json_dumps rf (PList vs) = lit ''['' @ join (lit '', '') (map (json_dumps rf) vs) @ lit '']''"
| "json_dumps rf (PDict kvs) =
     123 # join (lit '', '') (map (\<lambda>(k, v). dump_string k @ lit '': '' @ json_dumps rf v) kvs) @ [125]"

section \<open>Reading back what was written\<close>

definition text_ok :: "pystr \<Rightarrow> bool" where
  "text_ok s \<longleftrightarrow> list_all (\<lambda>c. 0 \<le> c \<and> c \<le> 1114111 \<and> \<not> (55296 \<le> c \<and> c \<le> 57343)) s"

fun json_ok :: "pyval \<Rightarrow> bool" where
  "json_ok PNone = True"
| "json_ok (PBool b) = True"
| "json_ok (PInt n) = True"
| "json_ok (PFloat f) = False"
| "json_ok (PStr s) = text_ok s"
| "json_ok (PList vs) = list_all json_ok vs"
| "json_ok (PDict kvs) = (distinct (map fst kvs) \<and> list_all (\<lambda>(k, v). text_ok k \<and> json_ok v) kvs)"

subsection \<open>Strings\<close>

lemma hex_val_digit: "0 \<le> n \<Longrightarrow> n < 16 \<Longrightarrow> hex_val (hex_digit n) = Some n"
  by (simp add: hex_val_def hex_digit_def)

lemma hex4_u_escape:
  assumes "0 \<le> c" "c < 65536"
  shows "hex4 (drop 2 (u_escape c) @ r) = Some (c, r)"
proof -
  define h x y z q1 q2 where d: "h = c div 4096" "x = c div 256 mod 16" "y = c div 16 mod 16"
    "z = c mod 16" "q1 = c div 16" "q2 = c div 256"
  have low: "0 \<le> x" "x < 16" "0 \<le> y" "y < 16" "0 \<le> z" "z < 16" by (simp_all add: d)
  have "c = 16 * q1 + z" "q1 = 16 * q2 + y" "q2 = 16 * h + x"
    using zdiv_zmult2_eq [of 16 c 16] zdiv_zmult2_eq [of 16 c 256] by (simp_all add: d)
  then have c: "4096 * h + 256 * x + 16 * y + z = c" by simp
  then have "0 \<le> h" "h < 16" using low assms by linarith+
  with low c show ?thesis by (simp add: u_escape_def hex_val_digit flip: d(1-4))
qed

lemma u_escape_cons: "u_escape c = 92 # 117 # drop 2 (u_escape c)"
  by (simp add: u_escape_def)

lemma scan_escape:
  assumes "0 \<le> c" "c \<le> 1114111" "\<not> (55296 \<le> c \<and> c \<le> 57343)"
  shows "scan_string (escape_cp c @ t) = map_option (\<lambda>(s, r). (c # s, r)) (scan_string t)"
proof -
  consider "c < 32 \<or> c = 34 \<or> c = 92 \<or> c = 127" | "32 \<le> c" "c \<le> 126" "c \<noteq> 34" "c \<noteq> 92"
    | "127 < c" "c < 65536" | "65536 \<le> c" using assms by linarith
  then show ?thesis
  proof cases
    case 2
    then show ?thesis by (simp add: escape_cp_def)
  next
    case 4
    define q m where "q = (c - 65536) div 1024" and "m = (c - 65536) mod 1024"
    have qm: "0 \<le> q" "q < 1024" "0 \<le> m" "m < 1024" "c = 65536 + q * 1024 + m"
      using 4 assms(2) by (auto simp: q_def m_def)
    have e: "escape_cp c @ t = 92 # 117 # (drop 2 (u_escape (55296 + q))
        @ 92 # 117 # (drop 2 (u_escape (56320 + m)) @ t))"
      using 4 u_escape_cons [of "55296 + q"] u_escape_cons [of "56320 + m"]
      by (simp add: escape_cp_def q_def m_def)
    have l: "low_escape (92 # 117 # (drop 2 (u_escape (56320 + m)) @ t)) = Some (56320 + m, t)"
      using qm hex4_u_escape [of "56320 + m" t]
      by (simp add: low_escape_def starts_def low_surrogate_def)
    have "unescape (117 # (drop 2 (u_escape (55296 + q)) @ 92 # 117 # (drop 2 (u_escape (56320 + m)) @ t)))
        = Some (c, t)"
      using qm hex4_u_escape [of "55296 + q"] l by (simp add: unescape_def high_surrogate_def)
    then show ?thesis unfolding e by simp
  next
    case 3
    then have e: "escape_cp c @ t = 92 # 117 # (drop 2 (u_escape c) @ t)"
      using u_escape_cons [of c] by (simp add: escape_cp_def)
    have "unescape (117 # (drop 2 (u_escape c) @ t)) = Some (c, t)"
      using 3 assms hex4_u_escape [of c t] by (auto simp: unescape_def high_surrogate_def)
    then show ?thesis unfolding e by simp
  next
    case 1
    show ?thesis
    proof (cases "c \<in> {8, 9, 10, 12, 13, 34, 92}")
      case True
      then show ?thesis by (auto simp: escape_cp_def unescape_def)
    next
      case False
      with 1 have e: "escape_cp c @ t = 92 # 117 # (drop 2 (u_escape c) @ t)"
        using u_escape_cons [of c] by (auto simp: escape_cp_def)
      have "unescape (117 # (drop 2 (u_escape c) @ t)) = Some (c, t)"
        using 1 assms hex4_u_escape [of c t] by (auto simp: unescape_def high_surrogate_def)
      then show ?thesis unfolding e by simp
    qed
  qed
qed

lemma scan_escaped: "text_ok s \<Longrightarrow> scan_string (concat (map escape_cp s) @ 34 # r) = Some (s, r)"
  by (induction s) (simp_all add: text_ok_def scan_escape)

subsection \<open>Numbers\<close>

definition ends_value :: "pystr \<Rightarrow> bool" where
  "ends_value r \<longleftrightarrow> r = [] \<or> hd r = 44 \<or> hd r = 93 \<or> hd r = 125"

lemma decimal_snoc: "decimal (ds @ [d]) = 10 * decimal ds + (d - 48)"
  by (simp add: decimal_def)

lemma decimal_digits_of: "0 \<le> n \<Longrightarrow> decimal (digits_of n) = n"
proof (induction n rule: digits_of.induct)
  case (1 n)
  show ?case
  proof (cases "n < 10")
    case True
    then show ?thesis by (subst digits_of.simps) (simp add: decimal_def)
  next
    case False
    then have "digits_of n = digits_of (n div 10) @ [48 + n mod 10]" by (subst digits_of.simps) simp
    with False 1 show ?thesis by (simp add: decimal_snoc pos_imp_zdiv_nonneg_iff)
  qed
qed

lemma digits_of_no_zero: "0 < n \<Longrightarrow> hd (digits_of n) \<noteq> 48"
proof (induction n rule: digits_of.induct)
  case (1 n)
  show ?case
  proof (cases "n < 10")
    case True
    with 1 show ?thesis by (subst digits_of.simps) simp
  next
    case False
    then have "digits_of n = digits_of (n div 10) @ [48 + n mod 10]" by (subst digits_of.simps) simp
    moreover have "0 < n div 10" using False by linarith
    ultimately show ?thesis using 1 False by simp
  qed
qed

lemma int_digits_of:
  assumes "0 \<le> n" "ends_value r"
  shows "int_digits (digits_of n @ r) = Some (digits_of n, r)"
proof (cases "n = 0")
  case True
  then show ?thesis by (simp add: int_digits_def digits_of.simps)
next
  case False
  have all: "\<forall>c \<in> set (digits_of n). ascii_digit c"
    using assms(1) digits_of_range by (auto simp: ascii_digit_def)
  have stop: "takeWhile ascii_digit r = []" "dropWhile ascii_digit r = r"
    using assms(2) by (cases r; auto simp: ends_value_def ascii_digit_def)+
  obtain c t where ct: "digits_of n = c # t" by (cases "digits_of n") auto
  have "takeWhile ascii_digit (digits_of n @ r) = digits_of n"
    "dropWhile ascii_digit (digits_of n @ r) = r"
    using all stop by (simp_all add: takeWhile_append dropWhile_append)
  with all ct digits_of_no_zero [of n] False assms(1) show ?thesis
    by (simp add: int_digits_def)
qed

lemma no_fraction: "ends_value r \<Longrightarrow> frac_part r = ([], r)" "ends_value r \<Longrightarrow> exp_part r = ([], r)"
  by (auto simp: ends_value_def frac_part_def exp_part_def split: list.splits)

lemma scan_number_int:
  assumes "ends_value r"
  shows "scan_number rf (str_int n @ r) = Some (PInt n, r)"
proof (cases "n < 0")
  case True
  then show ?thesis
    using int_digits_of [of "- n" r] assms
    by (simp add: scan_number_def str_int_def no_fraction decimal_digits_of)
next
  case False
  have "hd (digits_of n @ r) \<noteq> 45"
    using digits_of_range [of n "hd (digits_of n)"] False by auto
  with False show ?thesis
    using int_digits_of [of n r] assms
    by (simp add: scan_number_def str_int_def no_fraction decimal_digits_of)
qed

subsection \<open>Values\<close>

lemma skip_nonblank: "\<not> json_blank c \<Longrightarrow> skip (c # s) = c # s"
  by (simp add: skip_def)

lemma next_char_nonblank: "\<not> json_blank c \<Longrightarrow> next_char (c # s) = Some (c, s)"
  by (simp add: next_char_def skip_nonblank)

lemma not_blank [simp]: "\<not> json_blank 44" "\<not> json_blank 58" "\<not> json_blank 93" "\<not> json_blank 125" "json_blank 32"
  "\<not> json_blank 34" "\<not> json_blank 91" "\<not> json_blank 123"
  by (simp_all add: json_blank_def)

lemma skip_space [simp]: "skip (32 # s) = skip s"
  by (simp add: skip_def)

definition value_start :: "int \<Rightarrow> bool" where
  "value_start c \<longleftrightarrow> \<not> json_blank c \<and> c \<noteq> 93 \<and> c \<noteq> 125 \<and> c < 128"

lemma dumps_start:
  assumes "json_ok v"
  obtains c t where "json_dumps rf v = c # t" "value_start c"
proof (cases v)
  case (PInt n)
  have digit: "value_start (hd (digits_of m)) \<and> digits_of m \<noteq> []" if "0 \<le> m" for m
    using digits_of_range [OF that, of "hd (digits_of m)"] by (auto simp: value_start_def json_blank_def)
  have "value_start 45" by (simp add: value_start_def json_blank_def)
  with that [of "hd (str_int n)" "tl (str_int n)"] digit [of n] PInt show thesis
    by (cases "n < 0") (auto simp: str_int_def)
next
  case (PBool b)
  with that show thesis by (cases b) (auto simp: lit_def value_start_def json_blank_def)
qed (use that assms in \<open>auto simp: lit_def dump_string_def value_start_def json_blank_def\<close>)

lemma atom_string:
  "text_ok s \<Longrightarrow> json_value fl (Suc k) (dump_string s @ r) = Some (PStr s, r)"
  by (simp add: parse_simps dump_string_def starts_def scan_atom_def scan_escaped)

lemma atom_int:
  assumes "ends_value r"
  shows "json_value fl (Suc k) (str_int n @ r) = Some (PInt n, r)"
proof -
  obtain c t where ct: "str_int n = c # t" "c = 45 \<and> t = digits_of (- n) \<and> n < 0 \<or> 48 \<le> c \<and> c \<le> 57"
  proof (cases "n < 0")
    case True
    with that [of 45 "digits_of (- n)"] show thesis by (simp add: str_int_def)
  next
    case False
    with that [of "hd (digits_of n)" "tl (digits_of n)"] digits_of_range [of n "hd (digits_of n)"]
    show thesis by (simp add: str_int_def)
  qed
  have "hd (digits_of (- n)) \<noteq> 73" if "n < 0"
    using digits_of_range [of "- n" "hd (digits_of (- n))"] that by auto
  then have "\<not> starts (lit ''-Infinity'') (str_int n @ r)"
    using ct by (cases "digits_of (- n)") (auto simp: starts_def lit_def)
  with ct scan_number_int [OF assms, of fl n] show ?thesis
    by (auto simp: parse_simps starts_def scan_atom_def scan_constant_def)
qed

lemma atom_words:
  "json_value fl (Suc k) (lit ''null'' @ r) = Some (PNone, r)"
  "json_value fl (Suc k) (lit ''true'' @ r) = Some (PBool True, r)"
  "json_value fl (Suc k) (lit ''false'' @ r) = Some (PBool False, r)"
  by (simp_all add: parse_simps lit_def starts_def scan_atom_def scan_constant_def keyword_at_def)

definition reads_back :: "(pystr \<Rightarrow> pyfloat) \<Rightarrow> (pyfloat \<Rightarrow> pystr) \<Rightarrow> pyval \<Rightarrow> bool" where
  "reads_back fl rf v \<longleftrightarrow> (\<forall>k r. 2 * length (json_dumps rf v) < k \<longrightarrow> ends_value r \<longrightarrow>
     json_value fl k (json_dumps rf v @ r) = Some (v, r))"

lemma elements_back:
  assumes "\<And>v. v \<in> set vs \<Longrightarrow> json_ok v \<and> reads_back fl rf v" and "vs \<noteq> []"
    and "2 * length (join (lit '', '') (map (json_dumps rf) vs)) + 1 < k"
  shows "json_elements fl k acc (join (lit '', '') (map (json_dumps rf) vs) @ 93 # r) = Some (PList (acc @ vs), r)"
  using assms
proof (induction vs arbitrary: k acc)
  case (Cons v vs)
  from Cons.prems(3) obtain k' where k: "k = Suc k'" by (cases k) auto
  have v: "json_ok v" "reads_back fl rf v" using Cons.prems(1) by auto
  show ?case
  proof (cases vs)
    case Nil
    have "json_value fl k' (json_dumps rf v @ 93 # r) = Some (v, 93 # r)"
      using v(2) Cons.prems(3) Nil k by (simp add: reads_back_def ends_value_def)
    with Nil k show ?thesis by (simp add: parse_simps next_char_nonblank)
  next
    case (Cons w ws)
    let ?rest = "join (lit '', '') (map (json_dumps rf) vs)"
    obtain c t where ct: "json_dumps rf w = c # t" "value_start c"
      using dumps_start Cons.prems(1) Cons by (metis list.set_intros)
    have len: "length (join (lit '', '') (map (json_dumps rf) (v # vs)))
        = length (json_dumps rf v) + 2 + length ?rest"
      using Cons by (simp add: lit_def)
    have "json_value fl k' (json_dumps rf v @ 44 # 32 # ?rest @ 93 # r) = Some (v, 44 # 32 # ?rest @ 93 # r)"
      using v(2) Cons.prems(3) k len by (simp add: reads_back_def ends_value_def)
    moreover have "skip (?rest @ 93 # r) = ?rest @ 93 # r"
      using ct Cons by (cases ws) (simp_all add: skip_nonblank value_start_def)
    moreover have "json_elements fl k' (acc @ [v]) (?rest @ 93 # r) = Some (PList ((acc @ [v]) @ vs), r)"
    proof (rule Cons.IH)
      show "2 * length ?rest + 1 < k'" using Cons.prems(3) len k by linarith
    qed (use Cons.prems(1) Cons in auto)
    ultimately show ?thesis
      using k Cons by (simp add: parse_simps lit_def next_char_nonblank)
  qed
qed simp

lemma dict_set_fresh: "k \<notin> fst ` set d \<Longrightarrow> dict_set d k v = d @ [(k, v)]"
  by (induction d k v rule: dict_set.induct) auto

definition dump_member :: "(pyfloat \<Rightarrow> pystr) \<Rightarrow> pystr \<times> pyval \<Rightarrow> pystr" where
  "dump_member rf kv = dump_string (fst kv) @ lit '': '' @ json_dumps rf (snd kv)"

lemma dumps_dict: "json_dumps rf (PDict kvs) = 123 # join (lit '', '') (map (dump_member rf) kvs) @ [125]"
  by (simp add: dump_member_def [abs_def] case_prod_unfold)

lemma member_key_back:
  assumes "text_ok key" "json_ok v"
  shows "member_key (dump_member rf (key, v) @ s) = Some (key, json_dumps rf v @ s)"
proof -
  obtain c t where "json_dumps rf v = c # t" "value_start c" by (rule dumps_start [OF assms(2)])
  then show ?thesis
    using scan_escaped [OF assms(1)]
    by (simp add: member_key_def dump_member_def dump_string_def lit_def next_char_nonblank
        skip_nonblank value_start_def)
qed

lemma members_back:
  assumes "\<And>k v. (k, v) \<in> set kvs \<Longrightarrow> text_ok k \<and> json_ok v \<and> reads_back fl rf v" and "kvs \<noteq> []"
    and "distinct (map fst (d @ kvs))"
    and "2 * length (join (lit '', '') (map (dump_member rf) kvs)) + 1 < k"
  shows "json_members fl k d (join (lit '', '') (map (dump_member rf) kvs) @ 125 # r) = Some (PDict (d @ kvs), r)"
  using assms
proof (induction kvs arbitrary: k d)
  case (Cons kv kvs)
  obtain key v where kv: "kv = (key, v)" by (cases kv)
  from Cons.prems(4) obtain k' where k: "k = Suc k'" by (cases k) auto
  have v: "text_ok key" "json_ok v" "reads_back fl rf v" using Cons.prems(1) [of key v] kv by auto
  have set: "dict_set d key v = d @ [(key, v)]"
    using Cons.prems(3) kv by (intro dict_set_fresh) auto
  have short: "length (json_dumps rf v) < length (dump_member rf kv)"
    by (simp add: dump_member_def kv dump_string_def)
  show ?case
  proof (cases kvs)
    case Nil
    have "json_value fl k' (json_dumps rf v @ 125 # r) = Some (v, 125 # r)"
      using v(3) Cons.prems(4) Nil k short by (simp add: reads_back_def ends_value_def)
    with Nil k kv set v show ?thesis by (simp add: parse_simps member_key_back next_char_nonblank)
  next
    case (Cons w ws)
    let ?rest = "join (lit '', '') (map (dump_member rf) kvs)"
    have len: "length (join (lit '', '') (map (dump_member rf) (kv # kvs)))
        = length (dump_member rf kv) + 2 + length ?rest"
      using Cons by (simp add: lit_def)
    have "json_value fl k' (json_dumps rf v @ 44 # 32 # ?rest @ 125 # r) = Some (v, 44 # 32 # ?rest @ 125 # r)"
      using v(3) Cons.prems(4) k len short by (simp add: reads_back_def ends_value_def)
    moreover have "skip (?rest @ 125 # r) = ?rest @ 125 # r"
      using Cons by (cases ws) (simp_all add: dump_member_def dump_string_def skip_nonblank)
    moreover have "json_members fl k' (d @ [(key, v)]) (?rest @ 125 # r) = Some (PDict ((d @ [(key, v)]) @ kvs), r)"
    proof (rule Cons.IH)
      show "2 * length ?rest + 1 < k'" using Cons.prems(4) len k by linarith
    qed (use Cons.prems(1,3) Cons kv in auto)
    ultimately show ?thesis
      using k Cons kv set v by (simp add: parse_simps lit_def next_char_nonblank member_key_back)
  qed
qed simp

lemma value_back: "json_ok v \<Longrightarrow> reads_back fl rf v"
proof (induction v)
  case PNone
  then show ?case unfolding reads_back_def by (intro allI impI, case_tac k) (simp_all add: atom_words)
next
  case (PBool b)
  then show ?case unfolding reads_back_def by (intro allI impI, case_tac k) (simp_all add: atom_words)
next
  case (PInt n)
  then show ?case unfolding reads_back_def by (intro allI impI, case_tac k) (simp_all add: atom_int)
next
  case (PStr s)
  then show ?case unfolding reads_back_def by (intro allI impI, case_tac k) (simp_all add: atom_string)
next
  case (PList vs)
  have each: "json_ok v \<and> reads_back fl rf v" if "v \<in> set vs" for v
    using PList that by (auto simp: list_all_iff)
  show ?case
    unfolding reads_back_def
  proof (intro allI impI)
    fix k r assume k: "2 * length (json_dumps rf (PList vs)) < k"
    then obtain k' where k': "k = Suc k'" by (cases k) auto
    show "json_value fl k (json_dumps rf (PList vs) @ r) = Some (PList vs, r)"
    proof (cases vs)
      case Nil
      with k' show ?thesis by (simp add: parse_simps lit_def starts_def next_char_nonblank)
    next
      case (Cons w ws)
      let ?body = "join (lit '', '') (map (json_dumps rf) vs)"
      have "json_elements fl k' [] (?body @ 93 # r) = Some (PList ([] @ vs), r)"
        by (rule elements_back) (use each Cons k k' in \<open>auto simp: lit_def\<close>)
      moreover obtain c t where "json_dumps rf w = c # t" "value_start c"
        using dumps_start each Cons by (metis list.set_intros(1))
      then have "\<exists>s. ?body @ 93 # r = c # s" using Cons by (cases ws) auto
      moreover have "value_start c" by fact
      ultimately show ?thesis
        using k' by (auto simp: parse_simps lit_def starts_def next_char_nonblank value_start_def)
    qed
  qed
next
  case (PDict kvs)
  have each: "text_ok key \<and> json_ok v \<and> reads_back fl rf v" if "(key, v) \<in> set kvs" for key v
    using PDict that by (fastforce simp: list_all_iff)
  show ?case
    unfolding reads_back_def
  proof (intro allI impI)
    fix k r assume k: "2 * length (json_dumps rf (PDict kvs)) < k"
    then obtain k' where k': "k = Suc k'" by (cases k) auto
    show "json_value fl k (json_dumps rf (PDict kvs) @ r) = Some (PDict kvs, r)"
    proof (cases kvs)
      case Nil
      with k' show ?thesis by (simp add: parse_simps starts_def next_char_nonblank)
    next
      case (Cons w ws)
      let ?body = "join (lit '', '') (map (dump_member rf) kvs)"
      have "json_members fl k' [] (?body @ 125 # r) = Some (PDict ([] @ kvs), r)"
      proof (rule members_back)
        have "length (json_dumps rf (PDict kvs)) = 2 + length ?body" unfolding dumps_dict by simp
        then show "2 * length ?body + 1 < k'" using k k' by linarith
      qed (use each Cons PDict.prems in auto)
      moreover have "\<exists>s. ?body @ 125 # r = 34 # s"
        using Cons by (cases ws) (auto simp: dump_member_def dump_string_def)
      ultimately show ?thesis
        using k' by (auto simp: parse_simps dumps_dict starts_def next_char_nonblank simp del: json_dumps.simps)
    qed
  qed
qed simp

lemma loads_dumps:
  assumes "json_ok v"
  shows "json_loads fl (json_dumps rf v) = Inr v"
proof -
  obtain c t where ct: "json_dumps rf v = c # t" "value_start c" by (rule dumps_start [OF assms])
  have "json_value fl (2 * length (json_dumps rf v) + 2) (json_dumps rf v @ []) = Some (v, [])"
    by (rule value_back [OF assms, unfolded reads_back_def, rule_format]) (simp_all add: ends_value_def)
  then show ?thesis
    using ct by (simp add: json_loads_def skip_nonblank value_start_def starts_def skip_def)
qed

section \<open>The fuel is enough\<close>

lemma skip_length: "length (skip s) \<le> length s"
  by (simp add: skip_def length_dropWhile_le)

lemma next_char_length: "next_char s = Some (c, r) \<Longrightarrow> length r < length s"
  using skip_length [of s] by (auto simp: next_char_def split: list.splits)

lemma scan_string_length: "scan_string s = Some (t, r) \<Longrightarrow> length r < length s"
proof (induction s arbitrary: t rule: scan_string.induct)
  case (2 c s)
  show ?case
  proof (cases "c = 34 \<or> c \<le> 31 \<or> c \<noteq> 92")
    case True
    with 2 show ?thesis by (cases "scan_string s") (auto split: if_splits intro: less_SucI)
  next
    case False
    with "2.prems" obtain d s' u where u: "unescape s = Some (d, s')" "scan_string s' = Some (u, r)"
      by (auto split: option.splits)
    with 2 False have "length r < length s'" by blast
    with unescape_length [OF u(1)] show ?thesis by simp
  qed
qed simp

lemma member_key_length: "member_key s = Some (key, r) \<Longrightarrow> length r < length s"
  by (auto simp: member_key_def bind_eq_Some_conv split: list.splits if_splits
      dest!: scan_string_length next_char_length)
    (meson dual_order.strict_trans le_less_trans less_SucI skip_length)

lemma number_length:
  assumes "scan_number fl s = Some (v, r)"
  shows "length r < length s"
proof -
  let ?s1 = "if s \<noteq> [] \<and> hd s = 45 then tl s else s"
  from assms obtain ds s2 where ds: "int_digits ?s1 = Some (ds, s2)"
    and r: "r = snd (exp_part (snd (frac_part s2)))"
    by (auto simp: scan_number_def Let_def split: option.splits prod.splits)
  have shorter: "length s2 < length ?s1"
    using ds by (cases ?s1) (auto simp: int_digits_def le_imp_less_Suc length_dropWhile_le split: if_splits)
  have "length (snd (frac_part t)) \<le> length t" "length (snd (exp_part t)) \<le> length t" for t
    by (auto simp: frac_part_def exp_part_def Let_def le_SucI length_dropWhile_le
        split: list.split intro!: le_trans [OF length_dropWhile_le])
  then have "length r \<le> length s2" unfolding r by (blast intro: order_trans)
  moreover have "length ?s1 \<le> length s" by simp
  ultimately show ?thesis using shorter by linarith
qed

lemma keyword_length: "keyword_at w v s = Some (x, r) \<Longrightarrow> w \<noteq> [] \<Longrightarrow> length r < length s"
  by (cases s) (auto simp: keyword_at_def starts_def split: if_splits)

lemma atom_length:
  assumes "scan_atom fl s = Some (v, r)"
  shows "length r < length s"
proof -
  from assms obtain c t where s: "s = c # t" by (auto simp: scan_atom_def split: list.splits)
  show ?thesis
  proof (cases "c = 34")
    case True
    with assms s scan_string_length [of t] show ?thesis
      by (auto simp: scan_atom_def intro: less_SucI)
  next
    case False
    with assms s have "scan_constant fl c s = Some (v, r)" by (simp add: scan_atom_def)
    then show ?thesis
      by (auto simp: scan_constant_def lit_def split: if_splits dest: keyword_length number_length)
  qed
qed

lemma parse_length:
  "json_value fl k s = Some (v, r) \<Longrightarrow> length r < length s"
  "json_members fl k d s = Some (v, r) \<Longrightarrow> length r < length s"
  "json_elements fl k vs s = Some (v, r) \<Longrightarrow> length r < length s"
proof (induction fl k s and fl k d s and fl k vs s arbitrary: v r and v r and v r
    rule: json_value_json_members_json_elements.induct)
  case (2 fl k s)
  have nxt: "length (d # t) \<le> length s" if "next_char (tl s) = Some (d, t)" for d t
    using next_char_length [OF that] by (cases s) auto
  consider (dict) "starts [123] s" | (seq) "\<not> starts [123] s" "starts [91] s"
    | (atom) "\<not> starts [123] s" "\<not> starts [91] s" by blast
  then show ?case
  proof cases
    case dict
    with 2(3) obtain d t where t: "next_char (tl s) = Some (d, t)"
      "if d = 125 then r = t else json_members fl k [] (d # t) = Some (v, r)"
      by (auto simp: parse_simps bind_eq_Some_conv split: if_splits)
    have "length r < length (d # t)" using t 2(1) [OF dict t(1) refl] by (cases "d = 125") auto
    with nxt [OF t(1)] show ?thesis by linarith
  next
    case seq
    with 2(3) obtain d t where t: "next_char (tl s) = Some (d, t)"
      "if d = 93 then r = t else json_elements fl k [] (d # t) = Some (v, r)"
      by (auto simp: parse_simps bind_eq_Some_conv split: if_splits)
    have "length r < length (d # t)" using t 2(2) [OF seq t(1) refl] by (cases "d = 93") auto
    with nxt [OF t(1)] show ?thesis by linarith
  next
    case atom
    with 2(3) show ?thesis by (simp add: parse_simps atom_length)
  qed
next
  case (4 fl k d s)
  from 4(3) obtain key r1 v1 r2 c r3 where steps: "member_key s = Some (key, r1)"
    "json_value fl k r1 = Some (v1, r2)" "next_char r2 = Some (c, r3)"
    and last: "if c = 125 then r = r3
      else c = 44 \<and> json_members fl k (dict_set d key v1) (skip r3) = Some (v, r)"
    by (auto simp: parse_simps bind_eq_Some_conv split: if_splits)
  have "length r2 < length r1" by (rule 4(1) [OF steps(1) refl steps(2)])
  moreover have "length r1 < length s" "length r3 < length r2"
    using steps member_key_length next_char_length by blast+
  moreover have "length r \<le> length r3"
  proof (cases "c = 125")
    case False
    with last have c: "c = 44" "json_members fl k (dict_set d key v1) (skip r3) = Some (v, r)" by simp_all
    have "length r < length (skip r3)"
      by (rule 4(2) [OF steps(1) refl steps(2) refl steps(3) refl False c])
    with skip_length [of r3] show ?thesis by linarith
  qed (use last in simp)
  ultimately show ?case by linarith
next
  case (6 fl k vs s)
  from 6(3) obtain v1 r2 c r3 where steps:
    "json_value fl k s = Some (v1, r2)" "next_char r2 = Some (c, r3)"
    and last: "if c = 93 then r = r3
      else c = 44 \<and> json_elements fl k (vs @ [v1]) (skip r3) = Some (v, r)"
    by (auto simp: parse_simps bind_eq_Some_conv split: if_splits)
  have "length r2 < length s" by (rule 6(1) [OF steps(1)])
  moreover have "length r3 < length r2" using steps next_char_length by blast
  moreover have "length r \<le> length r3"
  proof (cases "c = 93")
    case False
    with last have c: "c = 44" "json_elements fl k (vs @ [v1]) (skip r3) = Some (v, r)" by simp_all
    have "length r < length (skip r3)"
      by (rule 6(2) [OF steps(1) refl steps(2) refl False c])
    with skip_length [of r3] show ?thesis by linarith
  qed (use last in simp)
  ultimately show ?case by linarith
qed (simp_all add: parse_simps)

text \<open>
  With two units of fuel for every character more fuel changes nothing.
\<close>

lemma parse_fuel:
  "2 * length s < k \<Longrightarrow> 2 * length s < k' \<Longrightarrow> json_value fl k s = json_value fl k' s"
  "2 * length s < k \<Longrightarrow> 2 * length s < k' \<Longrightarrow> json_members fl k d s = json_members fl k' d s"
  "2 * length s + 1 < k \<Longrightarrow> 2 * length s + 1 < k' \<Longrightarrow> json_elements fl k vs s = json_elements fl k' vs s"
proof (induction fl k s and fl k d s and fl k vs s arbitrary: k' and k' and k'
    rule: json_value_json_members_json_elements.induct)
  case (2 fl k s)
  from 2(4) obtain m where m: "k' = Suc m" by (cases k') auto
  have shorter: "2 * length (d # t) + 1 < k" "2 * length (d # t) + 1 < m"
    if "next_char (tl s) = Some (d, t)" "s \<noteq> []" for d t
    using next_char_length [OF that(1)] that(2) 2(3,4) m by (cases s; simp)+
  consider (dict) "starts [123] s" | (seq) "\<not> starts [123] s" "starts [91] s"
    | (atom) "\<not> starts [123] s" "\<not> starts [91] s" by blast
  then show ?case
  proof cases
    case dict
    then have "s \<noteq> []" by (auto simp: starts_def)
    have deep: "json_members fl k [] (d # r) = json_members fl m [] (d # r)"
      if "next_char (tl s) = Some (d, r)" "d \<noteq> 125" for d r
      by (rule 2(1) [OF dict that(1) refl that(2)]) (use shorter [OF that(1) \<open>s \<noteq> []\<close>] in linarith)+
    show ?thesis
      unfolding m parse_simps using dict
      by (cases "next_char (tl s)") (auto dest: deep)
  next
    case seq
    then have "s \<noteq> []" by (auto simp: starts_def)
    have deep: "json_elements fl k [] (d # r) = json_elements fl m [] (d # r)"
      if "next_char (tl s) = Some (d, r)" "d \<noteq> 93" for d r
      by (rule 2(2) [OF seq that(1) refl that(2)]) (use shorter [OF that(1) \<open>s \<noteq> []\<close>] in linarith)+
    show ?thesis
      unfolding m parse_simps using seq
      by (cases "next_char (tl s)") (auto dest: deep)
  next
    case atom
    then show ?thesis unfolding m parse_simps by simp
  qed
next
  case (4 fl k d s)
  from 4(4) obtain m where m: "k' = Suc m" by (cases k') auto
  show ?case
  proof (cases "member_key s")
    case None
    then show ?thesis unfolding m parse_simps by simp
  next
    case (Some kr)
    obtain key r where kr: "kr = (key, r)" by (cases kr)
    with Some have key: "member_key s = Some (key, r)" by simp
    then have r: "length r < length s" by (rule member_key_length)
    have val: "json_value fl k r = json_value fl m r"
      by (rule 4(1) [OF key refl]) (use r 4(3,4) m in linarith)+
    have rest: "json_members fl k (dict_set d key v) (skip r2) = json_members fl m (dict_set d key v) (skip r2)"
      if steps: "json_value fl k r = Some (v, r1)" "next_char r1 = Some (c, r2)" and c: "c \<noteq> 125" "c = 44"
      for v r1 c r2
    proof (rule 4(2) [OF key refl steps(1) refl steps(2) refl c])
      have "length r1 < length r" by (rule parse_length(1) [OF steps(1)])
      with next_char_length [OF steps(2)] skip_length [of r2] r 4(3,4) m
      show "2 * length (skip r2) < k" "2 * length (skip r2) < m" by linarith+
    qed
    show ?thesis
      unfolding m parse_simps key by (auto simp flip: val intro!: Option.bind_cong rest)
  qed
next
  case (6 fl k vs s)
  from 6(4) obtain m where m: "k' = Suc m" by (cases k') auto
  have val: "json_value fl k s = json_value fl m s"
    by (rule 6(1)) (use 6(3,4) m in linarith)+
  have rest: "json_elements fl k (vs @ [v]) (skip r2) = json_elements fl m (vs @ [v]) (skip r2)"
    if steps: "json_value fl k s = Some (v, r1)" "next_char r1 = Some (c, r2)" and c: "c \<noteq> 93" "c = 44"
    for v r1 c r2
  proof (rule 6(2) [OF steps(1) refl steps(2) refl c])
    have "length r1 < length s" by (rule parse_length(1) [OF steps(1)])
    with next_char_length [OF steps(2)] skip_length [of r2] 6(3,4) m
    show "2 * length (skip r2) + 1 < k" "2 * length (skip r2) + 1 < m" by linarith+
  qed
  show ?case
    unfolding m parse_simps by (auto simp flip: val intro!: Option.bind_cong rest)
qed (simp_all add: parse_simps)



text \<open>
  The bound the reader puts on its recursion is no bound on its result: from two units for each
  character on, every larger amount gives the same document or the same refusal.
\<close>

lemma json_fuel_suffices:
  assumes "2 * length s < k"
  shows "json_value fl k s = json_value fl (2 * length s + 1) s"
  by (rule parse_fuel(1)) (use assms in simp_all)

end
