(* ===== verification/Webhook.thy ===== *)
theory Webhook
  imports GitHub Json
begin

text \<open>
  \<open>app/main.py\<close>: the webhook endpoint, which checks the signature of a delivery, turns a pull
  request event into a job, and a maintainer's comment into an override of the check run. The
  keyed digest (\<open>hmac\<close> with SHA-256, as hexadecimal text) is an argument; so are the conversion of the
  body to text and the trace context that telemetry injects. Durations, spans and log lines are left
  out.
\<close>

section \<open>Responses\<close>

text \<open>A handler answers with a message or raises an HTTP error, or fails with another exception.\<close>

datatype failure = HttpError int pystr | Crash exn

datatype answer = Message pystr | Refused failure

definition accepted_answer :: answer where
  "accepted_answer = Message (lit ''accepted'')"

section \<open>Signatures\<close>

definition verify_signature ::
    "(bytes \<Rightarrow> bytes \<Rightarrow> pystr) \<Rightarrow> settings \<Rightarrow> bytes \<Rightarrow> pystr option \<Rightarrow> failure option" where
  "verify_signature hmac_hex cfg body signature =
     (case non_empty signature of
        None \<Rightarrow> Some (HttpError 401 (lit ''Missing signature''))
      | Some sig \<Rightarrow>
          (case utf8_encode (GITHUB_WEBHOOK_SECRET cfg) of
             Inl e \<Rightarrow> Some (Crash e)
           | Inr key \<Rightarrow>
               if list_ex (\<lambda>c. 127 < c) sig
               then Some (Crash \<lparr>exn_kind = TypeError,
                 exn_msg = lit ''comparing strings with non-ASCII characters is not supported'', exn_response = None\<rparr>)
               else if lit ''sha256='' @ hmac_hex key body = sig then None
               else Some (HttpError 401 (lit ''Invalid signature''))))"

section \<open>Events\<close>

text \<open>\<open>payload[k1][k2]...\<close>.\<close>

fun item_path :: "pyval \<Rightarrow> string list \<Rightarrow> pyval outcome" where
  "item_path v [] = Inr v"
| "item_path v (k # ks) = bind (subscript v (lit k)) (\<lambda>x. item_path x ks)"

text \<open>The fields a job is made of, with the types GitHub documents.\<close>

definition str_field :: "pyval \<Rightarrow> string list \<Rightarrow> pystr outcome" where
  "str_field v ks = bind (item_path v ks) (\<lambda>x. case as_str x of
     Some s \<Rightarrow> Inr s | None \<Rightarrow> raise_exn TypeError (lit ''expected a string''))"

definition int_field :: "pyval \<Rightarrow> string list \<Rightarrow> int outcome" where
  "int_field v ks = bind (item_path v ks) (\<lambda>x. case as_int x of
     Some n \<Rightarrow> Inr n | None \<Rightarrow> raise_exn TypeError (lit ''expected an integer''))"

record pull_event =
  pe_sha :: pystr
  pe_repo :: pystr
  pe_number :: int
  pe_installation :: int

definition pull_event_of :: "pyval \<Rightarrow> pull_event outcome" where
  "pull_event_of payload =
     bind (str_field payload [''pull_request'', ''head'', ''sha'']) (\<lambda>sha.
     bind (str_field payload [''repository'', ''full_name'']) (\<lambda>repo.
     bind (int_field payload [''pull_request'', ''number'']) (\<lambda>num.
     bind (int_field payload [''installation'', ''id'']) (\<lambda>inst_id.
     Inr \<lparr>pe_sha = sha, pe_repo = repo, pe_number = num, pe_installation = inst_id\<rparr>))))"

text \<open>
  \<open>asyncio.wait_for(..., timeout=3.0)\<close>: a transaction that takes too long is cancelled, and the
  database may or may not have committed it; it shows as a fault of kind \<open>TimeoutError\<close>.
\<close>

definition enqueue :: "host \<Rightarrow> uuid \<Rightarrow> pydict \<Rightarrow> pull_event \<Rightarrow> bool io" where
  "enqueue h new_id trace_context ev = transact h (\<lambda>now d.
     (case enqueue_if_new now new_id (pe_sha ev) (pe_repo ev) (pe_number ev) (pe_installation ev)
        (Some trace_context) d of (yes, d') \<Rightarrow> Inr (yes, d', [Enqueued (pe_sha ev) yes])))"

definition refuse :: "exn \<Rightarrow> answer" where
  "refuse e = (if exn_kind e = TimeoutError then Refused (HttpError 503 (lit ''Database busy, please retry''))
     else Refused (Crash e))"

definition pull_request_event :: "host \<Rightarrow> uuid \<Rightarrow> pydict \<Rightarrow> pyval \<Rightarrow> answer io" where
  "pull_request_event h new_id trace_context payload =
     (case as_dict payload of
        None \<Rightarrow> io_return (Refused (Crash \<lparr>exn_kind = AttributeError, exn_msg = lit ''get'', exn_response = None\<rparr>))
      | Some d \<Rightarrow>
          if dict_get d (lit ''action'') \<noteq> PStr (lit ''opened'') \<and> dict_get d (lit ''action'') \<noteq> PStr (lit ''synchronize'')
          then io_return accepted_answer
          else (case pull_event_of payload of
              Inl e \<Rightarrow> io_return (Refused (Crash e))
            | Inr ev \<Rightarrow> io_catch (io_bind (enqueue h new_id trace_context ev)
                 (\<lambda>yes. io_return (if yes then accepted_answer else Message (lit ''already exists''))))
                 (\<lambda>e. io_return (refuse e))))"

section \<open>Overrides\<close>

definition override_commands :: "pystr list" where
  "override_commands = [lit ''/revix-ignore'', lit ''/revix-approve'', lit ''/revix-ok'']"

definition trusted_associations :: "pystr list" where
  "trusted_associations = [lit ''OWNER'', lit ''MEMBER'', lit ''COLLABORATOR'']"

definition find_check_run :: "host \<Rightarrow> pystr \<Rightarrow> int \<Rightarrow> pystr \<Rightarrow> int option io" where
  "find_check_run h repo num sha = transact h (\<lambda>now d. Inr (get_check_run_id repo num sha d, d, []))"

definition override_output :: "pystr \<Rightarrow> pydict" where
  "override_output comment_body =
     [(lit ''title'', PStr (lit ''Manual Override: Approved'')),
      (lit ''summary'', PStr (lit ''Review status overridden by user comment: '' @ comment_body)),
      (lit ''text'', PStr (lit ''The quality gate has been manually bypassed.''))]"

definition override_check_run :: "host \<Rightarrow> pystr \<Rightarrow> int \<Rightarrow> int \<Rightarrow> pystr \<Rightarrow> unit io" where
  "override_check_run h repo num inst_id comment_body =
     io_bind (get_token h inst_id) (\<lambda>token.
     io_bind (fetch_pull_request h repo num token) (\<lambda>pr.
     io_bind (io_of (str_field pr [''head'', ''sha''])) (\<lambda>head_sha.
     io_bind (find_check_run h repo num head_sha) (\<lambda>check_run_id.
     if check_run_id \<noteq> None \<and> check_run_id \<noteq> Some 0
     then update_check_run h repo (the check_run_id) token (lit ''success'') (override_output comment_body)
     else io_return ()))))"

text \<open>An override needs a pull request and an author the repository trusts.\<close>

definition authorized :: "pydict \<Rightarrow> pydict \<Rightarrow> bool" where
  "authorized issue comment \<longleftrightarrow> dict_get issue (lit ''pull_request'') \<noteq> PNone
     \<and> (\<exists>a \<in> set trusted_associations. dict_get comment (lit ''author_association'') = PStr a)"

definition dict_field :: "pyval \<Rightarrow> string list \<Rightarrow> pydict outcome" where
  "dict_field v ks = bind (item_path v ks) (\<lambda>x. case as_dict x of
     Some d \<Rightarrow> Inr d | None \<Rightarrow> raise_exn AttributeError (lit ''get''))"

text \<open>What the comment asks for: nothing, or an override with its repository, number, installation and command.\<close>

record override =
  ov_repo :: pystr
  ov_number :: int
  ov_installation :: int
  ov_command :: pystr

definition override_of :: "pyval \<Rightarrow> override option outcome" where
  "override_of payload =
     bind (str_field payload [''comment'', ''body'']) (\<lambda>body.
     let command = lower (strip body) in
     if command \<notin> set override_commands then Inr None
     else bind (str_field payload [''repository'', ''full_name'']) (\<lambda>repo.
       bind (dict_field payload [''issue'']) (\<lambda>issue.
       bind (dict_field payload [''comment'']) (\<lambda>comment.
       if \<not> authorized issue comment then Inr None
       else bind (int_field payload [''issue'', ''number'']) (\<lambda>num.
         bind (int_field payload [''installation'', ''id'']) (\<lambda>inst_id.
         Inr (Some \<lparr>ov_repo = repo, ov_number = num, ov_installation = inst_id, ov_command = command\<rparr>)))))))"

definition issue_comment_event :: "host \<Rightarrow> pyval \<Rightarrow> answer io" where
  "issue_comment_event h payload =
     (case as_dict payload of
        None \<Rightarrow> io_return (Refused (Crash \<lparr>exn_kind = AttributeError, exn_msg = lit ''get'', exn_response = None\<rparr>))
      | Some d \<Rightarrow>
          if dict_get d (lit ''action'') \<noteq> PStr (lit ''created'') then io_return accepted_answer
          else (case override_of payload of
              Inl e \<Rightarrow> io_return (Refused (Crash e))
            | Inr None \<Rightarrow> io_return accepted_answer
            | Inr (Some ov) \<Rightarrow>
                io_bind (ignoring (override_check_run h (ov_repo ov) (ov_number ov) (ov_installation ov) (ov_command ov)))
                  (\<lambda>_. io_return accepted_answer)))"

definition github_webhook ::
    "(bytes \<Rightarrow> bytes \<Rightarrow> pystr) \<Rightarrow> (pystr \<Rightarrow> pyfloat) \<Rightarrow> (bytes \<Rightarrow> pystr outcome) \<Rightarrow> host \<Rightarrow> uuid \<Rightarrow> pydict
      \<Rightarrow> bytes \<Rightarrow> pystr \<Rightarrow> pystr option \<Rightarrow> answer io" where
  "github_webhook hmac_hex read_float to_text h new_id trace_context body x_github_event x_hub_signature =
     (case verify_signature hmac_hex (h_cfg h) body x_hub_signature of
        Some bad \<Rightarrow> io_return (Refused bad)
      | None \<Rightarrow>
          (case bind (to_text body) (json_loads read_float) of
             Inl e \<Rightarrow> io_return (Refused (Crash e))
           | Inr payload \<Rightarrow>
               if x_github_event = lit ''pull_request'' then pull_request_event h new_id trace_context payload
               else if x_github_event = lit ''issue_comment'' then issue_comment_event h payload
               else io_return accepted_answer))"

section \<open>Only authentic deliveries act\<close>

lemma verify_signature_None:
  "verify_signature hmac_hex cfg body sig = None \<longleftrightarrow> (\<exists>key. utf8_encode (GITHUB_WEBHOOK_SECRET cfg) = Inr key
     \<and> sig = Some (lit ''sha256='' @ hmac_hex key body) \<and> list_all (\<lambda>c. c \<le> 127) (lit ''sha256='' @ hmac_hex key body))"
proof (cases "non_empty sig")
  case None
  then have "sig = None \<or> sig = Some []" by (auto simp: non_empty_def split: option.splits if_splits)
  then show ?thesis by (auto simp: verify_signature_def non_empty_def lit_def)
next
  case (Some s)
  then have "sig = Some s" "s \<noteq> []" by (auto simp: non_empty_def split: option.splits if_splits)
  with Some show ?thesis
    by (cases "utf8_encode (GITHUB_WEBHOOK_SECRET cfg)")
      (auto simp: verify_signature_def list_ex_iff list_all_iff not_less ball_Un, (meson not_less)+)
qed

lemma verify_signature_refuses:
  assumes "utf8_encode (GITHUB_WEBHOOK_SECRET cfg) = Inr key" "sig \<noteq> Some (lit ''sha256='' @ hmac_hex key body)"
    and "\<And>s. sig = Some s \<Longrightarrow> list_all (\<lambda>c. c \<le> 127) s"
  shows "\<exists>m. verify_signature hmac_hex cfg body sig = Some (HttpError 401 m)"
proof (cases "non_empty sig")
  case None
  then show ?thesis by (simp add: verify_signature_def)
next
  case (Some s)
  then have "sig = Some s" by (auto simp: non_empty_def split: option.splits if_splits)
  moreover from this have "\<not> list_ex (\<lambda>c. 127 < c) s" using assms(3) by (fastforce simp: list_ex_iff list_all_iff)
  ultimately show ?thesis using Some assms by (auto simp: verify_signature_def)
qed

text \<open>
  C16. Only authentic deliveries act: when a delivery changes anything at all (a job,
  a token, a request to GitHub), its signature header is \<open>sha256=\<close> and the keyed digest of
  exactly this body under the configured secret; any other delivery is refused with no effect,
  with status 401 when its header is missing, empty or a wrong ASCII text.
\<close>

theorem only_authentic_deliveries_act:
  assumes "utf8_encode (GITHUB_WEBHOOK_SECRET (h_cfg h)) = Inr key"
    and "github_webhook hmac_hex fl to_text h new_id ctx body event sig w = (r, w')"
  shows "(w' \<noteq> w \<longrightarrow> sig = Some (lit ''sha256='' @ hmac_hex key body))
    \<and> (sig \<noteq> Some (lit ''sha256='' @ hmac_hex key body) \<longrightarrow> (\<forall>s. sig = Some s \<longrightarrow> list_all (\<lambda>c. c \<le> 127) s) \<longrightarrow>
        (\<exists>m. r = Inr (Refused (HttpError 401 m)) \<and> w' = w))"
proof (intro conjI impI)
  assume "w' \<noteq> w"
  then have "verify_signature hmac_hex (h_cfg h) body sig = None"
    using assms(2) by (auto simp: github_webhook_def io_return_def split: option.splits)
  then show "sig = Some (lit ''sha256='' @ hmac_hex key body)"
    using assms(1) by (auto simp: verify_signature_None)
next
  assume bad: "sig \<noteq> Some (lit ''sha256='' @ hmac_hex key body)" "\<forall>s. sig = Some s \<longrightarrow> list_all (\<lambda>c. c \<le> 127) s"
  then obtain m where "verify_signature hmac_hex (h_cfg h) body sig = Some (HttpError 401 m)"
    using verify_signature_refuses [OF assms(1)] by blast
  then have "r = Inr (Refused (HttpError 401 m))" "w' = w" using assms(2) by (simp_all add: github_webhook_def io_return_def)
  then show "\<exists>m. r = Inr (Refused (HttpError 401 m)) \<and> w' = w" by blast
qed

section \<open>Pull request events\<close>


section \<open>Overrides\<close>

text \<open>What an override may do: cache a token, read from GitHub, and complete a check run of its repository.\<close>

definition override_effect :: "override \<Rightarrow> event \<Rightarrow> bool" where
  "override_effect ov e = (case e of
     Stored (CachedToken i t) \<Rightarrow> i = ov_installation ov
   | Sent rq \<Rightarrow> hr_method rq = GET \<or> (\<exists>jwt. rq = token_request (ov_installation ov) jwt)
       \<or> (\<exists>n token at. rq = check_run_completed (ov_repo ov) n token (lit ''success'') (override_output (ov_command ov)) at)
   | _ \<Rightarrow> False)"

lemma override_effects:
  "keeps (logs (override_effect ov)) (override_check_run h (ov_repo ov) (ov_number ov) (ov_installation ov) (ov_command ov))"
  unfolding override_check_run_def get_token_def fetch_pull_request_def update_check_run_def find_check_run_def Let_def
  by (intro logs.keeps_intros logs_send_ok logs_clock logs_transact)
    (auto simp: override_effect_def get_request_def)

lemma override_of_authorized:
  assumes "override_of payload = Inr (Some ov)"
  shows "ov_command ov \<in> set override_commands \<and> (\<exists>issue comment. dict_field payload [''issue''] = Inr issue
    \<and> dict_field payload [''comment''] = Inr comment \<and> authorized issue comment)"
  using assms by (auto simp: override_of_def bind_Inr_iff Let_def split: if_splits)

text \<open>
  C24. The quality gate is overridden only by people the repository trusts: when an \<open>issue_comment\<close>
  event has any effect, its comment is one of the three commands on a pull request and its author is
  owner, member or collaborator; the effects are then a cached token, requests that only read, and the
  completion of check runs of that repository as a success; no job is touched.
\<close>

theorem override_needs_trust:
  assumes "issue_comment_event h payload w = (r, w')" "w_log w' \<noteq> w_log w"
  shows "\<exists>ov issue comment es. override_of payload = Inr (Some ov) \<and> ov_command ov \<in> set override_commands
    \<and> dict_field payload [''issue''] = Inr issue \<and> dict_field payload [''comment''] = Inr comment
    \<and> dict_get issue (lit ''pull_request'') \<noteq> PNone
    \<and> list_ex (\<lambda>a. dict_get comment (lit ''author_association'') = PStr a) trusted_associations
    \<and> w_log w' = w_log w @ es \<and> list_all (override_effect ov) es \<and> r = Inr accepted_answer"
proof -
  obtain ov where ov: "override_of payload = Inr (Some ov)"
    "(r, w') = io_bind (ignoring (override_check_run h (ov_repo ov) (ov_number ov) (ov_installation ov) (ov_command ov)))
       (\<lambda>_. io_return accepted_answer) w"
    using assms(1) assms(2)
    by (fastforce simp: issue_comment_event_def io_return_def split: option.splits if_splits sum.splits)
  let ?m = "ignoring (override_check_run h (ov_repo ov) (ov_number ov) (ov_installation ov) (ov_command ov))"
  obtain r1 w1 where m: "?m w = (r1, w1)" by fastforce
  have "r1 = Inr ()" using m by (auto simp: ignoring_def io_catch_def io_return_def split: prod.splits sum.splits)
  then have out: "r = Inr accepted_answer" "w' = w1" using ov(2) m by (simp_all add: io_bind_def io_return_def)
  have "logs (override_effect ov) w w1" by (rule keepsD [OF logs.keeps_ignoring [OF override_effects] m])
  then obtain es where "w_log w' = w_log w @ es" "list_all (override_effect ov) es" using out by (auto simp: logs_def)
  with ov(1) override_of_authorized [OF ov(1)] out show ?thesis
    by (auto simp: authorized_def list_ex_iff)
qed

section \<open>Demonstrations\<close>

definition demo_opened :: pydict where
  "demo_opened = [(lit ''action'', PStr (lit ''opened'')),
     (lit ''pull_request'', PDict [(lit ''number'', PInt 3), (lit ''head'', PDict [(lit ''sha'', PStr (lit ''abc''))])]),
     (lit ''repository'', PDict [(lit ''full_name'', PStr (lit ''o/r''))]),
     (lit ''installation'', PDict [(lit ''id'', PInt 7)])]"

definition demo_override :: "string \<Rightarrow> pydict" where
  "demo_override who = [(lit ''action'', PStr (lit ''created'')),
     (lit ''comment'', PDict [(lit ''body'', PStr (lit ''/revix-ok'')), (lit ''author_association'', PStr (lit who))]),
     (lit ''issue'', PDict [(lit ''number'', PInt 3), (lit ''pull_request'', PDict [])]),
     (lit ''repository'', PDict [(lit ''full_name'', PStr (lit ''o/r''))]),
     (lit ''installation'', PDict [(lit ''id'', PInt 7)])]"

lemmas payload_eval = item_path.simps subscript_def dict_get_def dict_item_def str_field_def int_field_def dict_field_def
  as_dict_def as_str_def as_int_def

lemma demo_opened_event: "pull_event_of (PDict demo_opened)
    = Inr \<lparr>pe_sha = lit ''abc'', pe_repo = lit ''o/r'', pe_number = 3, pe_installation = 7\<rparr>"
  by (simp add: pull_event_of_def demo_opened_def payload_eval lit_def)

lemma demo_override_of: "override_of (PDict (demo_override ''OWNER''))
    = Inr (Some \<lparr>ov_repo = lit ''o/r'', ov_number = 3, ov_installation = 7, ov_command = lit ''/revix-ok''\<rparr>)"
  by code_simp


theorem only_authentic_deliveries_act_witness:
  "\<exists>m. fst (github_webhook (\<lambda>k b. lit ''00'') undefined (\<lambda>b. Inr []) quiet_host 1 [] [] (lit ''pull_request'')
      (Some (lit ''sha256=1'')) (fresh_world upgrade)) = Inr (Refused (HttpError 401 m))"
  using only_authentic_deliveries_act [of quiet_host "[]" "\<lambda>k b. lit ''00''" undefined "\<lambda>b. Inr []" 1 "[]" "[]"
      "lit ''pull_request''" "Some (lit ''sha256=1'')" "fresh_world upgrade"]
  by (cases "github_webhook (\<lambda>k b. lit ''00'') undefined (\<lambda>b. Inr []) quiet_host 1 [] [] (lit ''pull_request'')
      (Some (lit ''sha256=1'')) (fresh_world upgrade)")
    (auto simp: lit_def utf8_encode_def quiet_host_def default_settings_def)

definition token_world :: world where
  "token_world = fresh_world (upgrade\<lparr>installation_tokens := [\<lparr>it_installation_id = 7, it_token = lit ''t'',
     it_expires_at = seconds 3300\<rparr>]\<rparr>)"

lemma token_world_reads:
  "\<exists>e. override_check_run quiet_host (lit ''o/r'') 3 7 (lit ''/revix-ok'') token_world
     = (Inl e, token_world\<lparr>w_ticks := Suc 0, w_log := [Sent (get_request (pull_path (lit ''o/r'') 3)
          (bearer (lit ''t'')) [])]\<rparr>)"
  by (simp add: override_check_run_def get_token_def io_defs transact_def quiet_host_def token_world_def
    fresh_world_def cached_token_def seconds_def Let_def fetch_pull_request_def send_ok_def send_def raise_exn_def)

theorem override_needs_trust_witness:
  "\<exists>ov. override_of (PDict (demo_override ''OWNER'')) = Inr (Some ov) \<and> ov_command ov \<in> set override_commands"
proof -
  obtain r w' where run: "issue_comment_event quiet_host (PDict (demo_override ''OWNER'')) token_world = (r, w')"
    by fastforce
  have "dict_get (demo_override ''OWNER'') (lit ''action'') = PStr (lit ''created'')"
    by (simp add: demo_override_def dict_get_def)
  then have "w_log w' \<noteq> w_log token_world"
    using run token_world_reads
    by (auto simp: issue_comment_event_def demo_override_of as_dict_def ignoring_def io_defs token_world_def fresh_world_def)
  with override_needs_trust [OF run] show ?thesis by blast
qed

end
