(* ===== verification/QueueSafety.thy ===== *)
theory QueueSafety
  imports JobQueue
begin

text \<open>
  What the queue promises, whatever the order in which ingestion, any number of workers and
  any number of reconcilers call the repository: the database invariant every transaction
  keeps, the discipline of the fence token, and the fate of a job.
\<close>

section \<open>The operations as one transition system\<close>

datatype queue_event =
    Enqueued pystr bool
  | Claimed pystr "job option"
  | Beat uuid pystr bool
  | CheckRunSet uuid int
  | Finalized uuid int job_status bool
  | Released uuid int
  | Reconciled "job list"
  | HeartbeatsLost

text \<open>
  \<open>HeartbeatsLost\<close> is a crash of the database server, which truncates the UNLOGGED
  table. The callers finalize with \<open>SUCCESS\<close> or \<open>FAILURE\<close> only. No rule restricts who
  calls, when, with which token, or what the clock says.
\<close>

inductive queue_step :: "(uuid \<Rightarrow> pystr) \<Rightarrow> settings \<Rightarrow> db \<Rightarrow> queue_event \<Rightarrow> db \<Rightarrow> bool"
  for uuid_str cfg where
  enqueues: "new_id \<notin> j_id ` set (jobs d) \<Longrightarrow>
     enqueue_if_new now new_id sha repo pull inst trace d = (accepted, d') \<Longrightarrow>
     queue_step uuid_str cfg d (Enqueued sha accepted) d'"
| claims: "claim_job now w locked d = (row, d') \<Longrightarrow> queue_step uuid_str cfg d (Claimed w row) d'"
| beats: "update_heartbeat now i w d = (alive, d') \<Longrightarrow>
     queue_step uuid_str cfg d (Beat i w alive) d'"
| sets_check_run: "queue_step uuid_str cfg d (CheckRunSet i n) (set_check_run_id i n d)"
| finalizes: "st \<in> {Success, Failure} \<Longrightarrow>
     finalize_job uuid_str cfg now i f st fb d = Inr d' \<Longrightarrow>
     queue_step uuid_str cfg d (Finalized i f st True) d'"
| finalize_raises: "finalize_job uuid_str cfg now i f st fb d = Inl e \<Longrightarrow>
     queue_step uuid_str cfg d (Finalized i f st False) d"
| releases: "queue_step uuid_str cfg d (Released i f) (release_job now i f delay d)"
| reconciles: "reconcile_stale_jobs cfg now locked d = (rows, d') \<Longrightarrow>
     queue_step uuid_str cfg d (Reconciled rows) d'"
| heartbeats_lost: "queue_step uuid_str cfg d HeartbeatsLost (d\<lparr>worker_heartbeats := []\<rparr>)"

inductive_cases claim_stepE: "queue_step uuid_str cfg d (Claimed w row) d'"
inductive_simps finalize_step_iff:
  "queue_step uuid_str cfg d (Finalized i f st True) d'"
  "queue_step uuid_str cfg d (Finalized i f st False) d'"

section \<open>The invariant of the database\<close>

definition final :: "job \<Rightarrow> bool" where
  "final j \<longleftrightarrow> j_status j = Success \<or> j_status j = Failure"

definition job_ok :: "job \<Rightarrow> bool" where
  "job_ok j \<longleftrightarrow> 0 \<le> j_fence_token j \<and> j_fence_token j \<le> j_attempt_count j
     \<and> j_attempt_count j \<le> j_max_attempts j
     \<and> (j_status j = Processing \<longrightarrow> j_fence_token j < j_attempt_count j \<and> j_worker_id j \<noteq> None)
     \<and> (j_status j = Pending \<longrightarrow> j_worker_id j = None)"

definition keys_ok :: "db \<Rightarrow> bool" where
  "keys_ok d \<longleftrightarrow> distinct (map j_id (jobs d)) \<and> distinct (map j_commit_sha (jobs d))
     \<and> distinct (map hb_job_id (worker_heartbeats d))
     \<and> distinct (map rr_commit_sha (review_records d))"

definition beats_ok :: "db \<Rightarrow> bool" where
  "beats_ok d \<longleftrightarrow> (\<forall>h \<in> set (worker_heartbeats d). \<exists>j \<in> set (jobs d).
     j_id j = hb_job_id h \<and> j_status j = Processing \<and> j_worker_id j = Some (hb_worker_id h))"

definition result_or_empty :: "job \<Rightarrow> pyval" where
  "result_or_empty j = (case j_result j of None \<Rightarrow> PDict [] | Some v \<Rightarrow> v)"

definition reviews_ok :: "db \<Rightarrow> bool" where
  "reviews_ok d \<longleftrightarrow>
     (\<forall>r \<in> set (review_records d). \<exists>j \<in> set (jobs d). j_id j = rr_job_id r
        \<and> j_commit_sha j = rr_commit_sha r \<and> final j \<and> rr_feedback r = result_or_empty j)
   \<and> (\<forall>j \<in> set (jobs d). final j \<longrightarrow> (\<exists>r \<in> set (review_records d). rr_commit_sha r = j_commit_sha j))"

definition db_ok :: "db \<Rightarrow> bool" where
  "db_ok d \<longleftrightarrow> keys_ok d \<and> (\<forall>j \<in> set (jobs d). job_ok j) \<and> beats_ok d \<and> reviews_ok d"

lemma db_okI:
  "keys_ok d \<Longrightarrow> (\<And>j. j \<in> set (jobs d) \<Longrightarrow> job_ok j) \<Longrightarrow> beats_ok d \<Longrightarrow> reviews_ok d \<Longrightarrow> db_ok d"
  by (simp add: db_ok_def)

lemma db_okD:
  "db_ok d \<Longrightarrow> keys_ok d" "db_ok d \<Longrightarrow> j \<in> set (jobs d) \<Longrightarrow> job_ok j"
  "db_ok d \<Longrightarrow> beats_ok d" "db_ok d \<Longrightarrow> reviews_ok d"
  by (simp_all add: db_ok_def)

lemma same_job:
  assumes "db_ok d" "j \<in> set (jobs d)" "j' \<in> set (jobs d)" "j_id j = j_id j'"
  shows "j = j'"
  using assms key_unique [of j_id "jobs d"] by (auto simp: db_ok_def keys_ok_def)

lemma same_job_sha:
  assumes "db_ok d" "j \<in> set (jobs d)" "j' \<in> set (jobs d)" "j_commit_sha j = j_commit_sha j'"
  shows "j = j'"
  using assms key_unique [of j_commit_sha "jobs d"] by (auto simp: db_ok_def keys_ok_def)

lemma db_ok_upgrade: "db_ok upgrade"
  by (simp add: db_ok_def keys_ok_def beats_ok_def reviews_ok_def upgrade_def)

subsection \<open>Row updates keep keys, and each keeps the row invariant\<close>

lemma job_updates_keep_keys [simp]:
  "j_id (claimed now w j) = j_id j" "j_commit_sha (claimed now w j) = j_commit_sha j"
  "j_id (finished now st fb j) = j_id j" "j_commit_sha (finished now st fb j) = j_commit_sha j"
  "j_id (released now dl j) = j_id j" "j_commit_sha (released now dl j) = j_commit_sha j"
  "j_id (reclaimed cfg now j) = j_id j" "j_commit_sha (reclaimed cfg now j) = j_commit_sha j"
  "j_id (expire j) = j_id j" "j_commit_sha (expire j) = j_commit_sha j"
  by (simp_all add: claimed_def finished_def released_def reclaimed_def expire_def)

lemma job_updates_status [simp]:
  "j_status (claimed now w j) = Processing" "j_status (finished now st fb j) = st"
  "j_status (released now dl j) = Pending" "j_status (expire j) = Dead"
  "j_status (reclaimed cfg now j) = (if exhausted j then Dead else Pending)"
  by (simp_all add: claimed_def finished_def released_def reclaimed_def expire_def)

lemma job_updates_fence [simp]:
  "j_fence_token (claimed now w j) = j_fence_token j"
  "j_fence_token (finished now st fb j) = j_fence_token j"
  "j_fence_token (released now dl j) = j_fence_token j + 1"
  "j_fence_token (reclaimed cfg now j) = j_fence_token j + 1"
  "j_fence_token (expire j) = j_fence_token j"
  by (simp_all add: claimed_def finished_def released_def reclaimed_def expire_def)

lemma job_updates_attempts [simp]:
  "j_attempt_count (claimed now w j) = j_attempt_count j + 1"
  "j_attempt_count (finished now st fb j) = j_attempt_count j"
  "j_attempt_count (released now dl j) = j_attempt_count j"
  "j_attempt_count (reclaimed cfg now j) = j_attempt_count j"
  "j_attempt_count (expire j) = j_attempt_count j"
  "j_max_attempts (claimed now w j) = j_max_attempts j"
  "j_max_attempts (finished now st fb j) = j_max_attempts j"
  "j_max_attempts (released now dl j) = j_max_attempts j"
  "j_max_attempts (reclaimed cfg now j) = j_max_attempts j"
  "j_max_attempts (expire j) = j_max_attempts j"
  by (simp_all add: claimed_def finished_def released_def reclaimed_def expire_def)

lemma job_ok_updates:
  "job_ok j \<Longrightarrow> claimable now j \<Longrightarrow> job_ok (claimed now w j)"
  "job_ok j \<Longrightarrow> st \<in> {Success, Failure} \<Longrightarrow> job_ok (finished now st fb j)"
  "job_ok j \<Longrightarrow> j_status j = Processing \<Longrightarrow> job_ok (released now dl j)"
  "job_ok j \<Longrightarrow> j_status j = Processing \<Longrightarrow> job_ok (reclaimed cfg now j)"
  "job_ok j \<Longrightarrow> job_ok (expire j)"
  "job_ok j \<Longrightarrow> job_ok (j\<lparr>j_github_check_run_id := n\<rparr>)"
  by (auto simp: job_ok_def claimable_def claimed_def finished_def released_def reclaimed_def
      expire_def)

lemma job_ok_new: "job_ok (new_job now i sha repo pull inst trace)"
  by (simp add: job_ok_def new_job_def)

lemma final_updates [simp]:
  "\<not> final (claimed now w j)" "\<not> final (released now dl j)" "\<not> final (reclaimed cfg now j)"
  "\<not> final (expire j)" "final (j\<lparr>j_github_check_run_id := n\<rparr>) = final j"
  "st \<in> {Success, Failure} \<Longrightarrow> final (finished now st fb j)"
  by (auto simp: final_def)

text \<open>
  Updating rows that are not final with a function that keeps the keys and yields rows
  that are not final leaves the records in agreement with the jobs.
\<close>

lemma reviews_ok_update:
  assumes "reviews_ok d"
    and "\<And>j. j \<in> set (jobs d) \<Longrightarrow> p j \<Longrightarrow> \<not> final j \<and> \<not> final (f j)"
  shows "reviews_ok (d\<lparr>jobs := sql_update p f (jobs d), worker_heartbeats := hbs\<rparr>)"
  unfolding reviews_ok_def
proof (intro conjI ballI impI)
  fix r assume "r \<in> set (review_records (d\<lparr>jobs := sql_update p f (jobs d), worker_heartbeats := hbs\<rparr>))"
  with assms(1) obtain j where j: "j \<in> set (jobs d)" "j_id j = rr_job_id r"
    "j_commit_sha j = rr_commit_sha r" "final j" "rr_feedback r = result_or_empty j"
    by (auto simp: reviews_ok_def)
  then have "\<not> p j" using assms(2) by blast
  with j show "\<exists>j \<in> set (jobs (d\<lparr>jobs := sql_update p f (jobs d), worker_heartbeats := hbs\<rparr>)).
      j_id j = rr_job_id r \<and> j_commit_sha j = rr_commit_sha r \<and> final j
      \<and> rr_feedback r = result_or_empty j"
    by (auto intro!: bexI [of _ j] sql_update_miss)
next
  fix j assume "j \<in> set (jobs (d\<lparr>jobs := sql_update p f (jobs d), worker_heartbeats := hbs\<rparr>))"
    and "final j"
  with assms show "\<exists>r \<in> set (review_records (d\<lparr>jobs := sql_update p f (jobs d),
      worker_heartbeats := hbs\<rparr>)). rr_commit_sha r = j_commit_sha j"
    by (auto simp: reviews_ok_def elim!: in_sql_updateE)
qed

lemma keys_ok_update:
  assumes "keys_ok d" and "\<And>j. j \<in> set (jobs d) \<Longrightarrow> p j \<Longrightarrow> j_id (f j) = j_id j"
    and "\<And>j. j \<in> set (jobs d) \<Longrightarrow> p j \<Longrightarrow> j_commit_sha (f j) = j_commit_sha j"
    and "distinct (map hb_job_id hbs)"
  shows "keys_ok (d\<lparr>jobs := sql_update p f (jobs d), worker_heartbeats := hbs\<rparr>)"
  using assms by (simp add: keys_ok_def map_sql_update)

lemma beats_ok_empty [simp]: "beats_ok (d\<lparr>worker_heartbeats := []\<rparr>)"
  by (simp add: beats_ok_def)

subsection \<open>Every operation keeps it\<close>

lemma enqueue_ok:
  assumes "db_ok d" and "new_id \<notin> j_id ` set (jobs d)"
    and "enqueue_if_new now new_id sha repo pull inst trace d = (b, d')"
  shows "db_ok d'"
proof -
  have fresh: "\<not> final (new_job now new_id sha repo pull inst trace)"
    by (simp add: final_def new_job_def)
  show ?thesis
    using assms fresh job_ok_new [of now new_id sha repo pull inst trace]
    by (auto simp: enqueue_if_new_def db_ok_def keys_ok_def beats_ok_def reviews_ok_def
        list_ex_iff new_job_def image_iff split: if_splits)
qed

lemma next_claim_Some:
  assumes "next_claim now locked rows = Some j"
  shows "j \<in> set rows" "claimable now j" "\<not> locked (j_id j)"
proof -
  let ?sorted = "py_sorted claim_order (filter (\<lambda>j. claimable now j \<and> \<not> locked (j_id j)) rows)"
  from assms obtain js where "?sorted = j # js"
    by (auto simp: next_claim_def split: list.splits)
  then have "set ?sorted = set (j # js)" by (rule arg_cong)
  then have "j \<in> set (filter (\<lambda>j. claimable now j \<and> \<not> locked (j_id j)) rows)"
    by (simp add: set_eq_iff)
  then show "j \<in> set rows" "claimable now j" "\<not> locked (j_id j)" by auto
qed

lemma upsert_heartbeat_keys:
  "distinct (map hb_job_id hbs) \<Longrightarrow> distinct (map hb_job_id (upsert_heartbeat now i w hbs))"
  by (auto simp: upsert_heartbeat_def list_ex_iff map_sql_update)

lemma in_upsert_heartbeat:
  "h \<in> set (upsert_heartbeat now i w hbs) \<Longrightarrow>
     (hb_job_id h = i \<and> hb_worker_id h = w \<and> hb_heartbeat_at h = now)
     \<or> (h \<in> set hbs \<and> hb_job_id h \<noteq> i)"
  by (auto simp: upsert_heartbeat_def list_ex_iff split: if_splits elim!: in_sql_updateE)

lemma claim_ok:
  assumes ok: "db_ok d" and claim: "claim_job now w locked d = (row, d')"
  shows "db_ok d'"
proof (cases "next_claim now locked (jobs d)")
  case None
  with ok claim show ?thesis by (simp add: claim_job_def)
next
  case (Some j)
  note picked = next_claim_Some [OF Some]
  let ?p = "\<lambda>r. j_id r = j_id j"
  from ok picked have only: "r = j" if "r \<in> set (jobs d)" "j_id r = j_id j" for r
    using same_job that by blast
  have d': "d' = d\<lparr>jobs := sql_update ?p (claimed now w) (jobs d),
      worker_heartbeats := upsert_heartbeat now (j_id j) w (worker_heartbeats d)\<rparr>"
    using claim Some by (simp add: claim_job_def)
  show ?thesis
  proof (rule db_okI)
    show "keys_ok d'" unfolding d'
      using ok upsert_heartbeat_keys
      by (intro keys_ok_update) (auto simp: db_ok_def keys_ok_def)
    show "job_ok r" if "r \<in> set (jobs d')" for r
      using that ok picked only
      by (auto simp: d' db_ok_def elim!: in_sql_updateE intro: job_ok_updates)
    show "reviews_ok d'" unfolding d'
    proof (rule reviews_ok_update)
      show "\<not> final r \<and> \<not> final (claimed now w r)"
        if "r \<in> set (jobs d)" "j_id r = j_id j" for r
        using only [OF that] picked(2) by (simp add: final_def claimable_def)
    qed (use ok in \<open>simp add: db_ok_def\<close>)
    show "beats_ok d'"
      unfolding beats_ok_def
    proof
      fix h assume "h \<in> set (worker_heartbeats d')"
      then consider (new) "hb_job_id h = j_id j" "hb_worker_id h = w"
        | (old) "h \<in> set (worker_heartbeats d)" "hb_job_id h \<noteq> j_id j"
        by (auto simp: d' dest: in_upsert_heartbeat)
      then show "\<exists>k \<in> set (jobs d'). j_id k = hb_job_id h \<and> j_status k = Processing
          \<and> j_worker_id k = Some (hb_worker_id h)"
      proof cases
        case new
        have "claimed now w j \<in> set (jobs d')"
          unfolding d' using picked(1) by (simp add: sql_update_hit)
        with new show ?thesis by (intro bexI [of _ "claimed now w j"]) (simp_all add: claimed_def)
      next
        case old
        with ok obtain k where "k \<in> set (jobs d)" "j_id k = hb_job_id h" "j_status k = Processing"
          "j_worker_id k = Some (hb_worker_id h)"
          by (auto simp: db_ok_def beats_ok_def)
        with old show ?thesis unfolding d'
          by (intro bexI [of _ k]) (simp_all add: sql_update_miss)
      qed
    qed
  qed
qed

lemma beat_ok:
  assumes "db_ok d" and "update_heartbeat now i w d = (b, d')"
  shows "db_ok d'"
  using assms
  by (auto simp: update_heartbeat_def db_ok_def keys_ok_def beats_ok_def reviews_ok_def
      map_sql_update split: list.splits if_splits elim!: in_sql_updateE)

lemma set_check_run_ok:
  assumes ok: "db_ok d"
  shows "db_ok (set_check_run_id i n d)"
proof -
  let ?g = "\<lambda>j. if j_id j = i then j\<lparr>j_github_check_run_id := Some n\<rparr> else j"
  have jobs': "jobs (set_check_run_id i n d) = map ?g (jobs d)"
    by (simp add: set_check_run_id_def sql_update_def)
  have rest: "worker_heartbeats (set_check_run_id i n d) = worker_heartbeats d"
    "review_records (set_check_run_id i n d) = review_records d"
    by (simp_all add: set_check_run_id_def)
  have keep: "j_id (?g j) = j_id j" "j_commit_sha (?g j) = j_commit_sha j"
    "j_status (?g j) = j_status j" "j_worker_id (?g j) = j_worker_id j"
    "final (?g j) = final j" "result_or_empty (?g j) = result_or_empty j"
    "job_ok (?g j) = job_ok j" for j
    by (simp_all add: final_def result_or_empty_def job_ok_def)
  show ?thesis
    using ok unfolding db_ok_def keys_ok_def beats_ok_def reviews_ok_def jobs' rest set_map
    by (simp only: keep ball_simps bex_simps map_map o_def) simp
qed

lemma finalize_finds:
  assumes "finalize_job uuid_str cfg now i f st fb d = Inr d'"
  obtains job where "job \<in> set (jobs d)" "j_id job = i" "j_fence_token job = f"
    "d' = d\<lparr>jobs := sql_update (holds_fence i f) (finished now st fb) (jobs d),
            review_records := upsert_review (review_of cfg now fb job) (review_records d),
            worker_heartbeats := sql_delete (\<lambda>h. hb_job_id h = i) (worker_heartbeats d)\<rparr>"
proof -
  from assms obtain job js where js: "filter (holds_fence i f) (jobs d) = job # js"
    and d': "d' = d\<lparr>jobs := sql_update (holds_fence i f) (finished now st fb) (jobs d),
            review_records := upsert_review (review_of cfg now fb job) (review_records d),
            worker_heartbeats := sql_delete (\<lambda>h. hb_job_id h = i) (worker_heartbeats d)\<rparr>"
    by (auto simp: finalize_job_def split: list.splits)
  from filter_ConsD [OF js] show thesis using that [OF _ _ _ d'] by (auto simp: holds_fence_def)
qed

lemma finalize_raises_iff:
  "(\<exists>e. finalize_job uuid_str cfg now i f st fb d = Inl e)
     \<longleftrightarrow> (\<forall>j \<in> set (jobs d). j_id j = i \<longrightarrow> j_fence_token j \<noteq> f)"
proof (cases "filter (holds_fence i f) (jobs d)")
  case Nil
  then show ?thesis
    by (auto simp: finalize_job_def raise_exn_def filter_empty_conv holds_fence_def)
next
  case (Cons j js)
  from filter_ConsD [OF Cons] Cons show ?thesis by (auto simp: finalize_job_def holds_fence_def)
qed

lemma upsert_review_keys:
  "distinct (map rr_commit_sha rows) \<Longrightarrow> distinct (map rr_commit_sha (upsert_review r rows))"
  by (auto simp: upsert_review_def list_ex_iff map_sql_update)

lemma in_upsert_review:
  assumes "x \<in> set (upsert_review r rows)"
  obtains (new) "x = r" | (merged) y where "y \<in> set rows" "rr_commit_sha y = rr_commit_sha r"
      "x = y\<lparr>rr_feedback := rr_feedback r\<rparr>"
    | (old) "x \<in> set rows" "rr_commit_sha x \<noteq> rr_commit_sha r"
  using assms by (auto simp: upsert_review_def list_ex_iff split: if_splits elim!: in_sql_updateE)

lemma upsert_review_shas:
  "rr_commit_sha ` set (upsert_review r rows) = insert (rr_commit_sha r) (rr_commit_sha ` set rows)"
proof (cases "list_ex (\<lambda>x. rr_commit_sha x = rr_commit_sha r) rows")
  case True
  then have "map rr_commit_sha (upsert_review r rows) = map rr_commit_sha rows"
    by (simp add: upsert_review_def map_sql_update)
  then have "rr_commit_sha ` set (upsert_review r rows) = rr_commit_sha ` set rows"
    by (metis set_map)
  moreover from True obtain x where "x \<in> set rows" "rr_commit_sha x = rr_commit_sha r"
    by (auto simp: list_ex_iff)
  then have "rr_commit_sha r \<in> rr_commit_sha ` set rows" by (metis imageI)
  ultimately show ?thesis by (simp add: insert_absorb)
next
  case False
  then show ?thesis by (simp add: upsert_review_def)
qed

lemma finalize_ok:
  assumes ok: "db_ok d" and st: "st \<in> {Success, Failure}"
    and fin: "finalize_job uuid_str cfg now i f st fb d = Inr d'"
  shows "db_ok d'"
proof -
  from fin obtain job where job: "job \<in> set (jobs d)" "j_id job = i" "j_fence_token job = f"
    and d': "d' = d\<lparr>jobs := sql_update (holds_fence i f) (finished now st fb) (jobs d),
            review_records := upsert_review (review_of cfg now fb job) (review_records d),
            worker_heartbeats := sql_delete (\<lambda>h. hb_job_id h = i) (worker_heartbeats d)\<rparr>"
    by (rule finalize_finds)
  have only: "holds_fence i f r \<longleftrightarrow> r = job" if "r \<in> set (jobs d)" for r
    using same_job [OF ok that job(1)] job by (auto simp: holds_fence_def)
  let ?done = "finished now st fb job"
  have done_in: "?done \<in> set (jobs d')"
    unfolding d' using job only by (simp add: sql_update_hit)
  have others: "r \<in> set (jobs d')" if "r \<in> set (jobs d)" "r \<noteq> job" for r
    unfolding d' using that only by (simp add: sql_update_miss)
  have fb: "rr_feedback (review_of cfg now fb job) = result_or_empty ?done"
    "rr_commit_sha (review_of cfg now fb job) = j_commit_sha job"
    by (simp_all add: review_of_def result_or_empty_def finished_def)
  note inv = db_okD [OF ok]
  show ?thesis
  proof (rule db_okI)
    show "keys_ok d'"
      using inv(1) upsert_review_keys unfolding d' keys_ok_def
      by (simp add: map_sql_update distinct_map_sql_delete)
    show "job_ok r" if "r \<in> set (jobs d')" for r
      using that inv(2) only st by (auto simp: d' elim!: in_sql_updateE intro: job_ok_updates)
    show "beats_ok d'"
      unfolding beats_ok_def
    proof
      fix h assume "h \<in> set (worker_heartbeats d')"
      then have h: "h \<in> set (worker_heartbeats d)" "hb_job_id h \<noteq> i" by (simp_all add: d')
      with inv(3) obtain k where k: "k \<in> set (jobs d)" "j_id k = hb_job_id h"
        "j_status k = Processing" "j_worker_id k = Some (hb_worker_id h)"
        by (auto simp: beats_ok_def)
      with h job have "k \<noteq> job" by auto
      with k others have "k \<in> set (jobs d')" by blast
      with k show "\<exists>j \<in> set (jobs d'). j_id j = hb_job_id h
          \<and> j_status j = Processing \<and> j_worker_id j = Some (hb_worker_id h)"
        by (intro bexI [of _ k]) simp_all
    qed
    show "reviews_ok d'"
      unfolding reviews_ok_def
    proof (intro conjI ballI impI)
      fix r assume "r \<in> set (review_records d')"
      then have "r \<in> set (upsert_review (review_of cfg now fb job) (review_records d))"
        by (simp add: d')
      then show "\<exists>j \<in> set (jobs d'). j_id j = rr_job_id r \<and> j_commit_sha j = rr_commit_sha r
          \<and> final j \<and> rr_feedback r = result_or_empty j"
      proof (cases rule: in_upsert_review)
        case new
        with st fb show ?thesis
          by (intro bexI [OF _ done_in]) (auto simp: review_of_def final_def)
      next
        case (merged y)
        with inv(4) obtain k where "k \<in> set (jobs d)" "j_id k = rr_job_id y"
          "j_commit_sha k = rr_commit_sha y" by (auto simp: reviews_ok_def)
        with merged fb same_job_sha [OF ok _ job(1), of k] have "j_id job = rr_job_id r"
          "rr_commit_sha r = j_commit_sha job" by auto
        with merged st fb show ?thesis
          by (intro bexI [OF _ done_in]) (auto simp: final_def)
      next
        case old
        with inv(4) obtain k where "k \<in> set (jobs d)" "j_id k = rr_job_id r"
          "j_commit_sha k = rr_commit_sha r" "final k" "rr_feedback r = result_or_empty k"
          by (auto simp: reviews_ok_def)
        moreover from calculation old fb have "k \<noteq> job" by auto
        ultimately show ?thesis using others [of k] by (intro bexI [of _ k]) simp_all
      qed
    next
      fix j assume j: "j \<in> set (jobs d')" "final j"
      have "j_commit_sha j \<in> rr_commit_sha ` set (review_records d')"
      proof (cases "j = ?done")
        case True
        then show ?thesis using fb by (simp add: d' upsert_review_shas)
      next
        case False
        with j have "j \<in> set (jobs d)" by (auto simp: d' only elim!: in_sql_updateE)
        with j(2) inv(4) have "j_commit_sha j \<in> rr_commit_sha ` set (review_records d)"
          by (force simp: reviews_ok_def)
        then show ?thesis by (simp add: d' upsert_review_shas)
      qed
      then show "\<exists>r \<in> set (review_records d'). rr_commit_sha r = j_commit_sha j" by force
    qed
  qed
qed

lemma release_ok:
  assumes ok: "db_ok d"
  shows "db_ok (release_job now i f dl d)"
proof -
  note inv = db_okD [OF ok]
  let ?p = "\<lambda>j. holds_fence i f j \<and> j_status j = Processing"
  show ?thesis
    unfolding release_job_def
  proof (rule db_okI, goal_cases)
    case 1
    show ?case
      using inv(1) by (intro keys_ok_update) (simp_all add: keys_ok_def distinct_map_sql_delete)
  next
    case (2 j)
    then show ?case using inv(2) by (auto elim!: in_sql_updateE intro: job_ok_updates)
  next
    case 3
    show ?case
      unfolding beats_ok_def
    proof (simp, intro allI impI, elim conjE)
      fix h assume h: "h \<in> set (worker_heartbeats d)" "hb_job_id h \<noteq> i"
      with inv(3) obtain k where "k \<in> set (jobs d)" "j_id k = hb_job_id h"
        "j_status k = Processing" "j_worker_id k = Some (hb_worker_id h)"
        by (auto simp: beats_ok_def)
      with h show "\<exists>j \<in> set (sql_update ?p (released now dl) (jobs d)). j_id j = hb_job_id h
          \<and> j_status j = Processing \<and> j_worker_id j = Some (hb_worker_id h)"
        by (intro bexI [of _ k]) (auto intro: sql_update_miss simp: holds_fence_def)
    qed
  next
    case 4
    show ?case using inv(4) by (intro reviews_ok_update) (auto simp: final_def)
  qed
qed

lemma reconcile_ok:
  assumes ok: "db_ok d" and rec: "reconcile_stale_jobs cfg now locked d = (rows, d')"
  shows "db_ok d'"
proof -
  note inv = db_okD [OF ok]
  define hit where "hit = reclaimable cfg now locked d"
  define jobs1 where "jobs1 = sql_update hit (reclaimed cfg now) (jobs d)"
  define hbs where "hbs = sql_delete (\<lambda>h. \<not> list_ex (\<lambda>j. j_id j = hb_job_id h
    \<and> j_status j = Processing) jobs1) (worker_heartbeats d)"
  define d1 where "d1 = d\<lparr>jobs := jobs1, worker_heartbeats := hbs\<rparr>"
  have d': "d' = d1\<lparr>jobs := sql_update (timed_out now) expire (jobs d1), worker_heartbeats := hbs\<rparr>"
    using rec by (simp add: reconcile_stale_jobs_def Let_def d1_def jobs1_def hit_def hbs_def)
  have hit_proc: "j_status j = Processing" if "hit j" for j
    using that by (simp add: hit_def reclaimable_def)
  have pend: "j_status j = Pending" if "timed_out now j" for j
    using that by (simp add: timed_out_def)
  have dist_hbs: "distinct (map hb_job_id hbs)"
    using inv(1) by (simp add: hbs_def keys_ok_def distinct_map_sql_delete)
  have keys1: "keys_ok d1"
    unfolding d1_def jobs1_def using inv(1) dist_hbs by (intro keys_ok_update) simp_all
  have rows1: "job_ok j" if "j \<in> set jobs1" for j
    using that inv(2) hit_proc by (auto simp: jobs1_def elim!: in_sql_updateE intro: job_ok_updates)
  have proc1: "j \<in> set (jobs d)" if "j \<in> set jobs1" "j_status j = Processing" for j
    using that by (auto simp: jobs1_def split: if_splits elim!: in_sql_updateE)
  show ?thesis
  proof (rule db_okI)
    show "keys_ok d'" unfolding d' using keys1 dist_hbs by (intro keys_ok_update) simp_all
    show "job_ok j" if "j \<in> set (jobs d')" for j
      using that rows1 by (auto simp: d' d1_def elim!: in_sql_updateE intro: job_ok_updates)
    have "reviews_ok d1" unfolding d1_def jobs1_def
      using inv(4) hit_proc by (intro reviews_ok_update) (auto simp: final_def)
    then show "reviews_ok d'" unfolding d'
      using pend by (intro reviews_ok_update) (auto simp: final_def)
    show "beats_ok d'"
      unfolding beats_ok_def
    proof
      fix h assume "h \<in> set (worker_heartbeats d')"
      then obtain j where h: "h \<in> set (worker_heartbeats d)" and j: "j \<in> set jobs1"
        "j_id j = hb_job_id h" "j_status j = Processing"
        by (auto simp: d' hbs_def list_ex_iff)
      from h inv(3) obtain k where k: "k \<in> set (jobs d)" "j_id k = hb_job_id h"
        "j_worker_id k = Some (hb_worker_id h)" by (auto simp: beats_ok_def)
      have "j = k" using same_job [OF ok proc1 [OF j(1,3)] k(1)] j k by simp
      moreover from j have "j \<in> set (jobs d')"
        unfolding d' d1_def using pend by (auto intro: sql_update_miss)
      ultimately show "\<exists>j \<in> set (jobs d'). j_id j = hb_job_id h \<and> j_status j = Processing
          \<and> j_worker_id j = Some (hb_worker_id h)"
        using j k by (intro bexI [of _ k]) simp_all
    qed
  qed
qed

lemma heartbeats_lost_ok: "db_ok d \<Longrightarrow> db_ok (d\<lparr>worker_heartbeats := []\<rparr>)"
  by (simp add: db_ok_def keys_ok_def reviews_ok_def)

lemmas operations_keep_db_ok = enqueue_ok claim_ok beat_ok set_check_run_ok finalize_ok
  release_ok reconcile_ok heartbeats_lost_ok

lemma queue_step_ok: "queue_step uuid_str cfg d e d' \<Longrightarrow> db_ok d \<Longrightarrow> db_ok d'"
  by (induction rule: queue_step.induct) (blast intro: operations_keep_db_ok)+

interpretation queue: safe_system "\<lambda>d. d = upgrade" "queue_step uuid_str cfg" db_ok for uuid_str cfg
  by unfold_locales (simp_all add: db_ok_upgrade, blast intro: queue_step_ok)

end
