(* ===== verification/Fencing.thy ===== *)
theory Fencing
  imports QueueSafety
begin

text \<open>
  The fence token along arbitrary executions. A row only evolves in certain ways; from that
  follow the exclusiveness of claims, the rejection of a worker that lost its job, the
  permanence of a finished job and the bound on retries.
\<close>

section \<open>How a row may evolve\<close>

abbreviation reachable_db :: "(uuid \<Rightarrow> pystr) \<Rightarrow> settings \<Rightarrow> db \<Rightarrow> bool" where
  "reachable_db uuid_str cfg d \<equiv> reachable (\<lambda>d. d = upgrade) (queue_step uuid_str cfg) d"

text \<open>A settled row is finished or in the dead-letter state.\<close>

definition settled :: "job \<Rightarrow> bool" where
  "settled j \<longleftrightarrow> final j \<or> j_status j = Dead"

definition evolves :: "job \<Rightarrow> job \<Rightarrow> bool" where
  "evolves j j' \<longleftrightarrow> j_id j' = j_id j \<and> j_commit_sha j' = j_commit_sha j
     \<and> j_max_attempts j' = j_max_attempts j
     \<and> j_fence_token j \<le> j_fence_token j' \<and> j_attempt_count j \<le> j_attempt_count j'
     \<and> (final j \<longrightarrow> final j' \<and> j_fence_token j' = j_fence_token j
          \<and> j_attempt_count j' = j_attempt_count j)
     \<and> (settled j \<longrightarrow> settled j')
     \<and> (j_fence_token j' = j_fence_token j \<longrightarrow> j_status j \<noteq> Pending \<longrightarrow> j_status j' \<noteq> Pending)
     \<and> (j_fence_token j' = j_fence_token j \<longrightarrow> j_status j \<noteq> Pending \<longrightarrow> j_status j \<noteq> Dead \<longrightarrow>
          j_status j' \<noteq> Dead)"

lemma evolves_refl: "evolves j j"
  by (simp add: evolves_def)

lemma evolves_trans: "evolves j k \<Longrightarrow> evolves k l \<Longrightarrow> evolves j l"
  by (auto simp: evolves_def)

definition db_evolves :: "db \<Rightarrow> db \<Rightarrow> bool" where
  "db_evolves d d' \<longleftrightarrow> (\<forall>j \<in> set (jobs d). \<exists>j' \<in> set (jobs d'). evolves j j')"

lemma db_evolves_refl: "db_evolves d d"
  by (auto simp: db_evolves_def intro: evolves_refl)

lemma db_evolves_trans: "db_evolves d e \<Longrightarrow> db_evolves e f \<Longrightarrow> db_evolves d f"
  unfolding db_evolves_def by (meson evolves_trans)

lemma db_evolves_same_jobs: "jobs d' = jobs d \<Longrightarrow> db_evolves d d'"
  by (auto simp: db_evolves_def intro: evolves_refl)

lemma db_evolves_update:
  assumes "jobs d' = sql_update p f (jobs d)"
    and "\<And>j. j \<in> set (jobs d) \<Longrightarrow> p j \<Longrightarrow> evolves j (f j)"
  shows "db_evolves d d'"
  unfolding db_evolves_def
proof
  fix j assume "j \<in> set (jobs d)"
  with assms show "\<exists>j' \<in> set (jobs d'). evolves j j'"
    by (cases "p j") (auto intro: sql_update_hit sql_update_miss evolves_refl)
qed

lemma evolves_updates:
  "j_status j = Pending \<Longrightarrow> evolves j (claimed now w j)"
  "st \<in> {Success, Failure} \<Longrightarrow> evolves j (finished now st fb j)"
  "j_status j = Processing \<Longrightarrow> evolves j (released now dl j)"
  "j_status j = Processing \<Longrightarrow> evolves j (reclaimed cfg now j)"
  "j_status j = Pending \<Longrightarrow> evolves j (expire j)"
  "evolves j (j\<lparr>j_github_check_run_id := n\<rparr>)"
  by (auto simp: evolves_def final_def settled_def)

lemma step_evolves:
  assumes "db_ok d" and "queue_step uuid_str cfg d e d'"
  shows "db_evolves d d'"
  using assms(2)
proof cases
  case (enqueues new_id now sha repo pull inst trace accepted)
  then show ?thesis
    by (auto simp: enqueue_if_new_def db_evolves_def evolves_refl split: if_splits
        intro!: bexI evolves_refl)
next
  case (claims now w locked row)
  show ?thesis
  proof (cases "next_claim now locked (jobs d)")
    case None
    with claims show ?thesis by (simp add: claim_job_def db_evolves_refl)
  next
    case (Some j)
    note picked = next_claim_Some [OF Some]
    from claims Some have "jobs d' = sql_update (\<lambda>r. j_id r = j_id j) (claimed now w) (jobs d)"
      by (auto simp: claim_job_def)
    moreover have "evolves r (claimed now w r)" if "r \<in> set (jobs d)" "j_id r = j_id j" for r
      using same_job [OF assms(1) that(1) picked(1) that(2)] picked(2)
      by (simp add: claimable_def evolves_updates)
    ultimately show ?thesis by (rule db_evolves_update)
  qed
next
  case (beats now i w alive)
  then show ?thesis
    by (intro db_evolves_same_jobs) (auto simp: update_heartbeat_def split: list.splits if_splits)
next
  case (sets_check_run i n)
  then show ?thesis
    by (intro db_evolves_update [where p = "\<lambda>j. j_id j = i"
          and f = "\<lambda>j. j\<lparr>j_github_check_run_id := Some n\<rparr>"])
      (auto simp: set_check_run_id_def evolves_updates)
next
  case finalizes
  then obtain st now i f fb where st: "st \<in> {Success, Failure}"
    and fin: "finalize_job uuid_str cfg now i f st fb d = Inr d'" by blast
  from fin have "jobs d' = sql_update (holds_fence i f) (finished now st fb) (jobs d)"
    by (auto elim!: finalize_finds)
  with st show ?thesis
    by (intro db_evolves_update [where p = "holds_fence i f" and f = "finished now st fb"])
      (auto simp: evolves_updates)
next
  case releases
  then obtain now i f delay where "d' = release_job now i f delay d" by blast
  then show ?thesis
    by (intro db_evolves_update [where p = "\<lambda>j. holds_fence i f j \<and> j_status j = Processing"
          and f = "released now delay"]) (auto simp: release_job_def evolves_updates)
next
  case (reconciles now locked rows)
  define hit where "hit = reclaimable cfg now locked d"
  define mid where "mid = d\<lparr>jobs := sql_update hit (reclaimed cfg now) (jobs d)\<rparr>"
  have "db_evolves d mid"
    by (rule db_evolves_update [where p = hit and f = "reclaimed cfg now"])
      (auto simp: mid_def hit_def reclaimable_def evolves_updates)
  moreover have "db_evolves mid d'"
    using reconciles
    by (intro db_evolves_update [where p = "timed_out now" and f = expire])
      (auto simp: mid_def hit_def reconcile_stale_jobs_def Let_def timed_out_def evolves_updates)
  ultimately show ?thesis by (rule db_evolves_trans)
qed (auto intro: db_evolves_refl db_evolves_same_jobs)

interpretation rows: ordered_system "\<lambda>d. d = upgrade" "queue_step uuid_str cfg" db_ok db_evolves
  for uuid_str cfg
  by unfold_locales (auto intro: db_evolves_refl db_evolves_trans step_evolves)

lemma run_evolves:
  assumes "run (queue_step uuid_str cfg) d es d'" and "db_ok d" and "j \<in> set (jobs d)"
  obtains j' where "j' \<in> set (jobs d')" "evolves j j'"
  using rows.rel_run [OF assms(1,2)] assms(3) by (auto simp: db_evolves_def)

section \<open>Claims\<close>

lemma claim_step_row:
  assumes "db_ok d" and "queue_step uuid_str cfg d (Claimed w (Some row)) d'"
  obtains now j where "j \<in> set (jobs d)" "j_status j = Pending" "row = claimed now w j"
    "row \<in> set (jobs d')"
proof -
  from assms(2) obtain now locked where claim: "claim_job now w locked d = (Some row, d')"
    by (auto elim: claim_stepE)
  then obtain j where j: "next_claim now locked (jobs d) = Some j" and row: "row = claimed now w j"
    and d': "jobs d' = sql_update (\<lambda>r. j_id r = j_id j) (claimed now w) (jobs d)"
    by (auto simp: claim_job_def split: option.splits)
  note picked = next_claim_Some [OF j]
  show thesis
  proof
    show "row \<in> set (jobs d')" unfolding d' row using picked(1) by (simp add: sql_update_hit)
  qed (use picked row in \<open>auto simp: claimable_def\<close>)
qed

text \<open>
  Two claims of one job: whatever happened in between, the later claim carries a larger
  token. In particular no token is handed out twice.
\<close>

lemma claims_increase:
  assumes ok: "db_ok d"
    and run: "run (queue_step uuid_str cfg) d
      (Claimed w1 (Some row1) # es @ [Claimed w2 (Some row2)]) d'"
    and same: "j_id row1 = j_id row2"
  shows "j_fence_token row1 < j_fence_token row2"
proof -
  from run obtain d1 d2 where first: "queue_step uuid_str cfg d (Claimed w1 (Some row1)) d1"
    and mid: "run (queue_step uuid_str cfg) d1 es d2"
    and second: "queue_step uuid_str cfg d2 (Claimed w2 (Some row2)) d'"
    by (auto simp: run_append run_cons_iff)
  from ok first have ok1: "db_ok d1" by (blast intro: queue_step_ok)
  with mid have ok2: "db_ok d2" by (blast intro: queue.inv_run)
  from claim_step_row [OF ok first] obtain now1 j1
    where row1: "row1 = claimed now1 w1 j1" "row1 \<in> set (jobs d1)" by blast
  from claim_step_row [OF ok2 second] obtain now2 j2
    where j2: "j2 \<in> set (jobs d2)" "j_status j2 = Pending" "row2 = claimed now2 w2 j2" by blast
  from run_evolves [OF mid ok1 row1(2)] obtain k where k: "k \<in> set (jobs d2)" "evolves row1 k" .
  have "k = j2"
    using same_job [OF ok2 k(1) j2(1)] k(2) same j2(3) by (simp add: evolves_def)
  with k(2) j2 row1(1) show ?thesis by (auto simp: evolves_def)
qed

section \<open>Stale tokens\<close>

lemma finalize_stepD:
  assumes "queue_step uuid_str cfg d (Finalized i f st ok) d'"
  shows "ok \<longleftrightarrow> (\<exists>j \<in> set (jobs d). j_id j = i \<and> j_fence_token j = f)" "\<not> ok \<Longrightarrow> d' = d"
proof -
  show "ok \<longleftrightarrow> (\<exists>j \<in> set (jobs d). j_id j = i \<and> j_fence_token j = f)"
  proof (cases ok)
    case True
    with assms show ?thesis by (auto simp: finalize_step_iff elim!: finalize_finds)
  next
    case False
    with assms obtain now fb e where "finalize_job uuid_str cfg now i f st fb d = Inl e"
      by (auto simp: finalize_step_iff)
    with False finalize_raises_iff [of uuid_str cfg now i f st fb d] show ?thesis by blast
  qed
  show "d' = d" if "\<not> ok"
    using assms that by (auto simp: finalize_step_iff)
qed

lemma token_superseded:
  assumes "db_ok d" and "run (queue_step uuid_str cfg) d es d'"
    and "j \<in> set (jobs d)" and "f < j_fence_token j"
    and "queue_step uuid_str cfg d' (Finalized (j_id j) f st ok) d''"
  shows "\<not> ok \<and> d'' = d'"
proof -
  from assms(1,2) have ok': "db_ok d'" by (blast intro: queue.inv_run)
  from run_evolves [OF assms(2,1,3)] obtain j' where j': "j' \<in> set (jobs d')" "evolves j j'" .
  have "j_fence_token k \<noteq> f" if "k \<in> set (jobs d')" "j_id k = j_id j" for k
    using same_job [OF ok' that(1) j'(1)] that(2) j'(2) assms(4) by (auto simp: evolves_def)
  then have "\<not> ok" using finalize_stepD(1) [OF assms(5)] by blast
  with finalize_stepD(2) [OF assms(5)] show ?thesis by blast
qed

text \<open>
  A worker whose job has since been claimed by another can no longer commit: its
  \<open>finalize_job\<close> raises and changes nothing, however late it comes.
\<close>

lemma zombie_rejected:
  assumes ok: "db_ok d"
    and run: "run (queue_step uuid_str cfg) d
      (Claimed w1 (Some row1) # es @ Claimed w2 (Some row2) # es') d1"
    and same: "j_id row1 = j_id row2"
    and late: "queue_step uuid_str cfg d1 (Finalized (j_id row1) (j_fence_token row1) st committed) d2"
  shows "\<not> committed \<and> d2 = d1"
proof -
  from run have "run (queue_step uuid_str cfg) d
      ((Claimed w1 (Some row1) # es @ [Claimed w2 (Some row2)]) @ es') d1" by simp
  then obtain dm where upto: "run (queue_step uuid_str cfg) d
      (Claimed w1 (Some row1) # es @ [Claimed w2 (Some row2)]) dm"
    and rest: "run (queue_step uuid_str cfg) dm es' d1"
    unfolding run_append by metis
  have less: "j_fence_token row1 < j_fence_token row2" by (rule claims_increase [OF ok upto same])
  from upto obtain dl where "run (queue_step uuid_str cfg) d (Claimed w1 (Some row1) # es) dl"
    and second: "queue_step uuid_str cfg dl (Claimed w2 (Some row2)) dm"
    using run_append [of _ d "Claimed w1 (Some row1) # es"] by (auto simp: run_cons_iff)
  with ok have "db_ok dl" "db_ok dm" by (blast intro: queue.inv_run queue_step_ok)+
  with second obtain "row2 \<in> set (jobs dm)" by (auto elim: claim_step_row)
  from token_superseded [OF \<open>db_ok dm\<close> rest this less, folded same, OF late]
  show ?thesis .
qed

section \<open>Finished jobs\<close>

lemma finalize_step_final:
  assumes "db_ok d" and "queue_step uuid_str cfg d (Finalized i f st True) d'"
  obtains j where "j \<in> set (jobs d')" "j_id j = i" "j_fence_token j = f" "final j" "j_status j = st"
proof -
  from assms(2) obtain now fb where st: "st \<in> {Success, Failure}"
    and fin: "finalize_job uuid_str cfg now i f st fb d = Inr d'"
    by (auto simp: finalize_step_iff)
  from fin obtain job where job: "job \<in> set (jobs d)" "j_id job = i" "j_fence_token job = f"
    and d': "jobs d' = sql_update (holds_fence i f) (finished now st fb) (jobs d)"
    by (auto elim!: finalize_finds)
  have "finished now st fb job \<in> set (jobs d')"
    unfolding d' using job by (simp add: sql_update_hit holds_fence_def)
  with job st show thesis by (intro that [of "finished now st fb job"]) auto
qed

text \<open>
  Once a finalization has succeeded the job stays finished, is never claimed again, and
  only the token that finished it can write its result again.
\<close>

lemma finished_forever:
  assumes ok: "db_ok d"
    and run: "run (queue_step uuid_str cfg) d (Finalized i f st True # es) d1"
  shows "\<exists>j \<in> set (jobs d1). j_id j = i \<and> final j \<and> j_fence_token j = f"
    and "queue_step uuid_str cfg d1 (Claimed w (Some row)) d2 \<Longrightarrow> j_id row \<noteq> i"
    and "queue_step uuid_str cfg d1 (Finalized i f' st' True) d2 \<Longrightarrow> f' = f"
proof -
  from run obtain dm where fin: "queue_step uuid_str cfg d (Finalized i f st True) dm"
    and rest: "run (queue_step uuid_str cfg) dm es d1" by (auto simp: run_cons_iff)
  from ok fin have okm: "db_ok dm" by (blast intro: queue_step_ok)
  with rest have ok1: "db_ok d1" by (blast intro: queue.inv_run)
  from finalize_step_final [OF ok fin] obtain j
    where j: "j \<in> set (jobs dm)" "j_id j = i" "j_fence_token j = f" "final j" by metis
  from run_evolves [OF rest okm j(1)] obtain k where k: "k \<in> set (jobs d1)" "evolves j k" .
  with j have k_props: "j_id k = i" "final k" "j_fence_token k = f" by (auto simp: evolves_def)
  with k(1) show "\<exists>j \<in> set (jobs d1). j_id j = i \<and> final j \<and> j_fence_token j = f" by blast
  show "j_id row \<noteq> i" if claim: "queue_step uuid_str cfg d1 (Claimed w (Some row)) d2"
  proof
    assume row: "j_id row = i"
    from claim_step_row [OF ok1 claim] obtain now l where "l \<in> set (jobs d1)"
      "j_status l = Pending" "row = claimed now w l" by blast
    with row k_props same_job [OF ok1 _ k(1)] have "l = k" by auto
    with \<open>j_status l = Pending\<close> k_props(2) show False by (simp add: final_def)
  qed
  show "f' = f" if "queue_step uuid_str cfg d1 (Finalized i f' st' True) d2"
    using finalize_stepD(1) [OF that] same_job [OF ok1 _ k(1)] k_props by auto
qed

section \<open>Durable reviews and bounded retries\<close>

definition reviewed_shas :: "db \<Rightarrow> pystr set" where
  "reviewed_shas d = rr_commit_sha ` set (review_records d)"

lemma step_reviewed_shas:
  "queue_step uuid_str cfg d e d' \<Longrightarrow> reviewed_shas d \<subseteq> reviewed_shas d'"
  by (induction rule: queue_step.induct)
    (auto simp: reviewed_shas_def enqueue_if_new_def claim_job_def update_heartbeat_def
      set_check_run_id_def release_job_def reconcile_stale_jobs_def Let_def upsert_review_shas
      split: if_splits option.splits list.splits elim!: finalize_finds)

interpretation durable: monotone_system "\<lambda>d. d = upgrade" "queue_step uuid_str cfg" db_ok reviewed_shas
  for uuid_str cfg
  by unfold_locales (rule step_reviewed_shas)

definition attempts_of :: "db \<Rightarrow> uuid \<Rightarrow> int" where
  "attempts_of d i = (case find (\<lambda>j. j_id j = i) (jobs d) of None \<Rightarrow> 0 | Some j \<Rightarrow> j_attempt_count j)"

lemma attempts_of_job: "db_ok d \<Longrightarrow> j \<in> set (jobs d) \<Longrightarrow> attempts_of d (j_id j) = j_attempt_count j"
  using same_job
  by (auto simp: attempts_of_def find_Some_iff find_None_iff split: option.splits) (metis nth_mem)

definition claims_of :: "uuid \<Rightarrow> queue_event \<Rightarrow> bool" where
  "claims_of i e \<longleftrightarrow> (case e of Claimed w (Some row) \<Rightarrow> j_id row = i | _ \<Rightarrow> False)"

lemma attempts_of_nonneg: "db_ok d \<Longrightarrow> 0 \<le> attempts_of d i"
  by (auto simp: attempts_of_def db_ok_def job_ok_def find_Some_iff split: option.splits)
    (metis nth_mem order_trans)

lemma step_attempts:
  assumes ok: "db_ok d" and step: "queue_step uuid_str cfg d e d'"
  shows "attempts_of d i + (if claims_of i e then 1 else 0) \<le> attempts_of d' i"
proof -
  from ok step have ok': "db_ok d'" by (blast intro: queue_step_ok)
  have grows: "attempts_of d i \<le> attempts_of d' i"
  proof (cases "\<exists>j \<in> set (jobs d). j_id j = i")
    case True
    then obtain j where j: "j \<in> set (jobs d)" "j_id j = i" by blast
    from step_evolves [OF ok step] j(1) obtain j' where "j' \<in> set (jobs d')" "evolves j j'"
      by (auto simp: db_evolves_def)
    with attempts_of_job [OF ok j(1)] attempts_of_job [OF ok', of j'] j(2) show ?thesis
      by (simp add: evolves_def)
  next
    case False
    then have "attempts_of d i = 0"
      by (auto simp: attempts_of_def find_Some_iff split: option.splits)
    with attempts_of_nonneg [OF ok'] show ?thesis by simp
  qed
  show ?thesis
  proof (cases "claims_of i e")
    case True
    then obtain w row where e: "e = Claimed w (Some row)" "j_id row = i"
      by (auto simp: claims_of_def split: queue_event.splits option.splits)
    from claim_step_row [OF ok step [unfolded e(1)]] obtain now j where
      "j \<in> set (jobs d)" "row = claimed now w j" "row \<in> set (jobs d')" by blast
    with attempts_of_job [OF ok, of j] attempts_of_job [OF ok', of row] e(2) show ?thesis
      by (simp split: if_splits)
  qed (use grows in simp)
qed

lemma run_attempts:
  "run (queue_step uuid_str cfg) d es d' \<Longrightarrow> db_ok d \<Longrightarrow>
     attempts_of d i + int (length (filter (claims_of i) es)) \<le> attempts_of d' i"
proof (induction rule: run.induct)
  case (run_cons d e d1 es d')
  have "attempts_of d1 i + int (length (filter (claims_of i) es)) \<le> attempts_of d' i"
    using run_cons by (blast intro: queue_step_ok)
  with step_attempts [OF run_cons.prems run_cons.hyps(1), of i] show ?case by (auto split: if_splits)
qed simp

lemma settled_run:
  "run (queue_step uuid_str cfg) d es d' \<Longrightarrow> db_ok d \<Longrightarrow> j \<in> set (jobs d) \<Longrightarrow> settled j \<Longrightarrow>
     filter (claims_of (j_id j)) es = []"
proof (induction arbitrary: j rule: run.induct)
  case (run_cons d e d1 es d')
  note ok = run_cons.prems(1) and j = run_cons.prems(2,3)
  from rows.rel_step [OF ok run_cons.hyps(1)] j obtain j1
    where j1: "j1 \<in> set (jobs d1)" "evolves j j1" by (auto simp: db_evolves_def)
  have "filter (claims_of (j_id j1)) es = []"
    using queue_step_ok [OF run_cons.hyps(1) ok] j1 j(2)
    by (intro run_cons.IH) (auto simp: evolves_def)
  moreover have "\<not> claims_of (j_id j) e"
  proof
    assume "claims_of (j_id j) e"
    then obtain w row where e: "e = Claimed w (Some row)" "j_id row = j_id j"
      by (auto simp: claims_of_def split: queue_event.splits option.splits)
    from claim_step_row [OF ok] run_cons.hyps(1) e(1) obtain now k
      where k: "k \<in> set (jobs d)" "j_status k = Pending" "row = claimed now w k" by metis
    with same_job [OF ok k(1) j(1)] e(2) j(2) show False
      by (auto simp: settled_def final_def)
  qed
  ultimately show ?case using j1(2) by (simp add: evolves_def)
qed simp

definition three_attempts :: "db \<Rightarrow> bool" where
  "three_attempts d \<longleftrightarrow> (\<forall>j \<in> set (jobs d). j_max_attempts j = 3)"

lemma step_three_attempts:
  "queue_step uuid_str cfg d e d' \<Longrightarrow> three_attempts d \<Longrightarrow> three_attempts d'"
  by (induction rule: queue_step.induct)
    (auto simp: three_attempts_def enqueue_if_new_def claim_job_def update_heartbeat_def new_job_def
      set_check_run_id_def release_job_def reconcile_stale_jobs_def Let_def
      split: if_splits option.splits list.splits elim!: finalize_finds in_sql_updateE)

interpretation tries: safe_system "\<lambda>d. d = upgrade" "queue_step uuid_str cfg" three_attempts
  for uuid_str cfg
  by unfold_locales (simp add: three_attempts_def upgrade_def, blast intro: step_three_attempts)

text \<open>Starting from the fresh schema, no job is ever handed out more than three times.\<close>

lemma at_most_three_claims:
  assumes run: "run (queue_step uuid_str cfg) upgrade es d"
  shows "length (filter (claims_of i) es) \<le> 3"
proof -
  have "three_attempts upgrade" by (simp add: three_attempts_def upgrade_def)
  with run have "db_ok d" "three_attempts d"
    using db_ok_upgrade by (blast intro: queue.inv_run tries.inv_run)+
  then have "attempts_of d i \<le> 3"
    by (auto simp: attempts_of_def db_ok_def job_ok_def three_attempts_def find_Some_iff
        split: option.splits)
  moreover have "int (length (filter (claims_of i) es)) \<le> attempts_of d i"
    using run_attempts [OF run db_ok_upgrade, of i] by (simp add: attempts_of_def upgrade_def)
  ultimately show ?thesis by linarith
qed

end
