(* ===== verification/Recovery.thy ===== *)
theory Recovery
  imports Fencing
begin

text \<open>
  What single operations of the queue do, on every branch: which row a claim picks, what a
  reconciliation does to each row, that a live worker keeps its job and a dead worker's job
  comes back, and the corner cases of ingestion, release and expiry.
\<close>

section \<open>The choice of a claim\<close>

lemma next_claim_best:
  assumes "next_claim now locked rows = Some j"
    and "k \<in> set rows" "claimable now k" "\<not> locked (j_id k)"
  shows "claim_order j \<le> claim_order k"
proof -
  let ?open = "filter (\<lambda>j. claimable now j \<and> \<not> locked (j_id j)) rows"
  from assms(1) obtain js where js: "py_sorted claim_order ?open = j # js"
    by (auto simp: next_claim_def split: list.splits)
  then have "sorted (map claim_order (j # js))"
    using sorted_py_sorted [of claim_order ?open] by (simp only:)
  moreover have "k \<in> set (j # js)"
    unfolding js [symmetric] using assms(2-) by simp
  ultimately show ?thesis by auto
qed

lemma next_claim_None_iff:
  "next_claim now locked rows = None \<longleftrightarrow> (\<forall>j \<in> set rows. claimable now j \<longrightarrow> locked (j_id j))"
proof -
  let ?open = "filter (\<lambda>j. claimable now j \<and> \<not> locked (j_id j)) rows"
  have "next_claim now locked rows = None \<longleftrightarrow> py_sorted claim_order ?open = []"
    by (cases "py_sorted claim_order ?open") (simp_all add: next_claim_def del: py_sorted_eq_Nil)
  then show ?thesis by (auto simp: filter_empty_conv)
qed

lemma fresh_heartbeat_after_claim:
  assumes "distinct (map hb_job_id hbs)"
  shows "\<exists>h \<in> set (upsert_heartbeat now i w hbs).
     hb_job_id h = i \<and> hb_worker_id h = w \<and> hb_heartbeat_at h = now"
proof (cases "list_ex (\<lambda>h. hb_job_id h = i) hbs")
  case True
  then obtain h where "h \<in> set hbs" "hb_job_id h = i" by (auto simp: list_ex_iff)
  then have "h\<lparr>hb_heartbeat_at := now, hb_worker_id := w\<rparr> \<in> set (upsert_heartbeat now i w hbs)"
    using True by (simp add: upsert_heartbeat_def sql_update_hit
        [of h hbs _ "\<lambda>h. h\<lparr>hb_heartbeat_at := now, hb_worker_id := w\<rparr>"])
  with \<open>hb_job_id h = i\<close> show ?thesis by (intro bexI) simp_all
next
  case False
  then show ?thesis by (simp add: upsert_heartbeat_def)
qed

section \<open>Reconciliation, row by row\<close>

definition reconciled_row :: "settings \<Rightarrow> int \<Rightarrow> (uuid \<Rightarrow> bool) \<Rightarrow> db \<Rightarrow> job \<Rightarrow> job" where
  "reconciled_row cfg now locked d j =
     (let j1 = (if reclaimable cfg now locked d j then reclaimed cfg now j else j)
      in if timed_out now j1 then expire j1 else j1)"

lemma reconcile_jobs:
  "jobs (snd (reconcile_stale_jobs cfg now locked d)) = map (reconciled_row cfg now locked d) (jobs d)"
  by (simp add: reconcile_stale_jobs_def reconciled_row_def Let_def sql_update_def)

lemma reconcile_rows:
  "fst (reconcile_stale_jobs cfg now locked d) =
     map (reclaimed cfg now) (filter (reclaimable cfg now locked d) (jobs d))"
  by (simp add: reconcile_stale_jobs_def Let_def)

lemma reconciled_row_id [simp]: "j_id (reconciled_row cfg now locked d j) = j_id j"
  by (simp add: reconciled_row_def Let_def)

lemma reconcile_row_of:
  "j \<in> set (jobs d) \<Longrightarrow>
     reconciled_row cfg now locked d j \<in> set (jobs (snd (reconcile_stale_jobs cfg now locked d)))"
  by (simp add: reconcile_jobs)

lemma fresh_not_stale:
  assumes "distinct (map hb_job_id hbs)" and "h \<in> set hbs"
    and "now - seconds (WORKER_HEARTBEAT_STALE_SECONDS cfg) \<le> hb_heartbeat_at h"
  shows "\<not> stale_heartbeat cfg now hbs (hb_job_id h)"
  using assms key_unique [of hb_job_id hbs] by (force simp: stale_heartbeat_def list_ex_iff)

text \<open>A job whose worker signalled within the threshold is left alone, heartbeat included.\<close>

lemma reconcile_spares_live:
  assumes ok: "db_ok d" and j: "j \<in> set (jobs d)" "j_status j = Processing"
    and h: "h \<in> set (worker_heartbeats d)" "hb_job_id h = j_id j"
    and fresh: "now - seconds (WORKER_HEARTBEAT_STALE_SECONDS cfg) \<le> hb_heartbeat_at h"
  shows "j \<in> set (jobs (snd (reconcile_stale_jobs cfg now locked d)))"
    and "h \<in> set (worker_heartbeats (snd (reconcile_stale_jobs cfg now locked d)))"
proof -
  have "\<not> stale_heartbeat cfg now (worker_heartbeats d) (j_id j)"
    using fresh_not_stale [OF _ h(1) fresh] ok h(2) by (simp add: db_ok_def keys_ok_def)
  then have spared: "\<not> reclaimable cfg now locked d j" by (simp add: reclaimable_def)
  then have "reconciled_row cfg now locked d j = j"
    using j(2) by (simp add: reconciled_row_def timed_out_def)
  with reconcile_row_of [OF j(1)] show "j \<in> set (jobs (snd (reconcile_stale_jobs cfg now locked d)))"
    by metis
  have "j \<in> set (sql_update (reclaimable cfg now locked d) (reclaimed cfg now) (jobs d))"
    using j(1) spared by (rule sql_update_miss)
  with j(2) h show "h \<in> set (worker_heartbeats (snd (reconcile_stale_jobs cfg now locked d)))"
    by (auto simp: reconcile_stale_jobs_def Let_def list_ex_iff)
qed

lemma reclaimed_claimable:
  assumes "j_attempt_count j < j_max_attempts j"
    and "now + seconds (WORKER_RETRY_BACKOFF_SECONDS cfg) * j_attempt_count j \<le> t"
  shows "claimable t (reclaimed cfg now j)"
  using assms by (simp add: claimable_def reclaimed_def exhausted_def)

lemma reconciled_recent:
  assumes "reclaimable cfg now locked d j" and "now - seconds 3600 \<le> j_created_at j"
  shows "reconciled_row cfg now locked d j = reclaimed cfg now j"
  using assms by (simp add: reconciled_row_def timed_out_def reclaimed_def)

lemma reconciled_expired:
  assumes "reclaimable cfg now locked d j" and "j_created_at j < now - seconds 3600"
  shows "j_status (reconciled_row cfg now locked d j) = Dead"
  using assms by (simp add: reconciled_row_def timed_out_def Let_def) (simp add: reclaimed_def)

section \<open>Release\<close>

lemma stale_release_keeps_jobs:
  assumes "\<forall>j \<in> set (jobs d). j_id j = i \<longrightarrow> j_fence_token j \<noteq> f"
  shows "jobs (release_job now i f dl d) = jobs d"
  using assms by (auto simp: release_job_def holds_fence_def intro!: sql_update_none)

lemma release_drops_heartbeat:
  "\<not> list_ex (\<lambda>h. hb_job_id h = i) (worker_heartbeats (release_job now i f dl d))"
  by (auto simp: release_job_def list_ex_iff)

lemma no_heartbeat_no_row:
  assumes "\<not> list_ex (\<lambda>h. hb_job_id h = i) (worker_heartbeats d)"
    and "update_heartbeat now i w d = (alive, d')"
  shows "\<not> list_ex (\<lambda>h. hb_job_id h = i) (worker_heartbeats d')" "jobs d' = jobs d"
  using assms
  by (auto simp: update_heartbeat_def list_ex_iff split: list.splits if_splits elim!: in_sql_updateE)

lemma update_heartbeat_of_owner:
  assumes "db_ok d" and "j \<in> set (jobs d)" "j_status j = Processing" "j_worker_id j = Some w"
  shows "fst (update_heartbeat now (j_id j) w d)"
proof -
  have "filter (\<lambda>k. j_id k = j_id j \<and> j_worker_id k = Some w) (jobs d) \<noteq> []"
    using assms by (auto simp: filter_empty_conv)
  then obtain r rs where r: "filter (\<lambda>k. j_id k = j_id j \<and> j_worker_id k = Some w) (jobs d) = r # rs"
    by (auto simp: neq_Nil_conv)
  from filter_ConsD [OF r] same_job [OF assms(1) _ assms(2), of r] have "r = j" by simp
  with r assms(3) show ?thesis by (simp add: update_heartbeat_def)
qed

lemma exhausted_never_claimed:
  assumes ok: "db_ok d" and j: "j \<in> set (jobs d)" "j_attempt_count j = j_max_attempts j"
    and run: "run (queue_step uuid_str cfg) d es d'"
  shows "filter (claims_of (j_id j)) es = []"
proof -
  from run_evolves [OF run ok j(1)] obtain j' where j': "j' \<in> set (jobs d')" "evolves j j'" .
  have ok': "db_ok d'" using run ok by (rule queue.inv_run)
  have "attempts_of d' (j_id j) \<le> j_max_attempts j"
    using attempts_of_job [OF ok' j'(1)] db_okD(2) [OF ok' j'(1)] j'(2)
    by (simp add: evolves_def job_ok_def)
  with run_attempts [OF run ok, of "j_id j"] attempts_of_job [OF ok j(1)] j(2)
  have "int (length (filter (claims_of (j_id j)) es)) \<le> 0" by linarith
  then show ?thesis by simp
qed

section \<open>Ingestion and locks\<close>

lemma enqueue_twice:
  "snd (enqueue_if_new n2 i2 sha r2 p2 k2 t2 (snd (enqueue_if_new n1 i1 sha r1 p1 k1 t1 d)))
     = snd (enqueue_if_new n1 i1 sha r1 p1 k1 t1 d)"
  by (simp add: enqueue_if_new_def new_job_def)

lemma enqueue_known:
  assumes "j \<in> set (jobs d)" "j_commit_sha j = sha"
  shows "snd (enqueue_if_new now i sha r p k t d) = d"
  using assms by (auto simp: enqueue_if_new_def list_ex_iff)

lemma foldl_bytes:
  defines "step \<equiv> \<lambda>acc b::int. 256 * acc + b"
  assumes "\<forall>b \<in> set bs. 0 \<le> b \<and> b < 256" and "0 \<le> a"
  shows "0 \<le> foldl step a bs" and "foldl step a bs < (a + 1) * 256 ^ length bs"
proof -
  have "0 \<le> foldl step a bs \<and> foldl step a bs < (a + 1) * 256 ^ length bs"
    using assms(2,3)
  proof (induction bs arbitrary: a)
    case (Cons b bs)
    then have b: "0 \<le> b" "b < 256" by auto
    have "0 \<le> foldl step (step a b) bs
        \<and> foldl step (step a b) bs < (step a b + 1) * 256 ^ length bs"
      using Cons.prems by (intro Cons.IH) (auto simp: step_def)
    moreover have "(step a b + 1) * 256 ^ length bs \<le> (256 * (a + 1)) * 256 ^ length bs"
      using b by (intro mult_right_mono) (auto simp: step_def)
    ultimately show ?case by (auto simp: algebra_simps)
  qed simp
  then show "0 \<le> foldl step a bs" "foldl step a bs < (a + 1) * 256 ^ length bs" by simp_all
qed

lemma signed_bytes_range:
  assumes "\<forall>b \<in> set bs. 0 \<le> b \<and> b < 256" and "0 < length bs"
  shows "- (2 ^ (8 * length bs - 1)) \<le> int_from_bytes_be_signed bs"
    and "int_from_bytes_be_signed bs < 2 ^ (8 * length bs - 1)"
proof -
  let ?u = "foldl (\<lambda>acc b. 256 * acc + b) 0 bs" and ?n = "8 * length bs"
  have pow: "(2::int) ^ ?n = 2 * 2 ^ (?n - 1)"
    using assms(2) by (metis length_greater_0_conv mult_is_0 neq0_conv power_eq_if zero_neq_numeral)
  have "(256::int) ^ length bs = 2 ^ ?n" by (simp add: power_mult)
  with foldl_bytes [OF assms(1), where a = 0] have "0 \<le> ?u" "?u < 2 ^ ?n" by simp_all
  with pow assms(2) show "- (2 ^ (?n - 1)) \<le> int_from_bytes_be_signed bs"
    "int_from_bytes_be_signed bs < 2 ^ (?n - 1)"
    by (auto simp: int_from_bytes_be_signed_def Let_def)
qed

end
