(* ===== verification/QueueGuarantees.thy ===== *)
theory QueueGuarantees
  imports Recovery
begin

text \<open>
  The guarantees of the job queue, as statements about the operations of \<open>JobQueue\<close>
  along every execution that starts on the migrated database, each with an instance on a
  concrete execution: a push is enqueued, worker \<open>w1\<close> claims it and goes silent, the
  reconciler requeues it, worker \<open>w2\<close> claims it, \<open>w1\<close> comes back too late.
\<close>

section \<open>A concrete execution\<close>

definition demo_uuid :: "uuid \<Rightarrow> pystr" where
  "demo_uuid i = str_int (int i)"

definition demo_sha :: pystr where
  "demo_sha = lit ''c0ffee''"

definition demo_job :: job where
  "demo_job = new_job 0 1 demo_sha (lit ''o/r'') 7 42 None"

definition w1 :: pystr where "w1 = lit ''host-1''"
definition w2 :: pystr where "w2 = lit ''host-2''"

abbreviation nobody :: "uuid \<Rightarrow> bool" where "nobody \<equiv> \<lambda>_. False"

definition beat_row :: "pystr \<Rightarrow> int \<Rightarrow> heartbeat" where
  "beat_row w t = \<lparr>hb_job_id = 1, hb_worker_id = w, hb_heartbeat_at = t\<rparr>"

definition row1 :: job where "row1 = claimed (seconds 5) w1 demo_job"
definition row1' :: job where "row1' = reclaimed default_settings (seconds 100) row1"
definition row2 :: job where "row2 = claimed (seconds 300) w2 row1'"
definition row3 :: job where "row3 = finished (seconds 350) Success None row2"

definition row4 :: job where "row4 = released (seconds 310) 0 row2"
definition row5 :: job where "row5 = claimed (seconds 320) w2 row4"

definition q1 :: db where "q1 = upgrade\<lparr>jobs := [demo_job]\<rparr>"
definition q2 :: db where
  "q2 = upgrade\<lparr>jobs := [row1], worker_heartbeats := [beat_row w1 (seconds 5)]\<rparr>"
definition q3 :: db where "q3 = upgrade\<lparr>jobs := [row1']\<rparr>"
definition q4 :: db where
  "q4 = upgrade\<lparr>jobs := [row2], worker_heartbeats := [beat_row w2 (seconds 300)]\<rparr>"
definition q5 :: db where
  "q5 = upgrade\<lparr>jobs := [row3],
     review_records := [review_of default_settings (seconds 350) None row2]\<rparr>"
definition q6 :: db where "q6 = upgrade\<lparr>jobs := [row4]\<rparr>"
definition q7 :: db where
  "q7 = upgrade\<lparr>jobs := [row5], worker_heartbeats := [beat_row w2 (seconds 320)]\<rparr>"

lemmas demo_rows = row1_def row1'_def row2_def row3_def row4_def row5_def demo_job_def new_job_def
lemmas demo_dbs = q1_def q2_def q3_def q4_def q5_def q6_def q7_def beat_row_def

lemma demo_ops:
  "enqueue_if_new 0 1 demo_sha (lit ''o/r'') 7 42 None upgrade = (True, q1)"
  "claim_job (seconds 5) w1 nobody q1 = (Some row1, q2)"
  "reconcile_stale_jobs default_settings (seconds 100) nobody q2 = ([row1'], q3)"
  "claim_job (seconds 300) w2 nobody q3 = (Some row2, q4)"
  "finalize_job demo_uuid default_settings (seconds 350) 1 1 Success None q4 = Inr q5"
  "release_job (seconds 310) 1 1 0 q4 = q6"
  "claim_job (seconds 320) w2 nobody q6 = (Some row5, q7)"
  by (simp_all add: enqueue_if_new_def claim_job_def next_claim_def claimable_def py_sorted_def
      upsert_heartbeat_def reconcile_stale_jobs_def Let_def reclaimable_def stale_heartbeat_def
      sql_update_def sql_delete_def timed_out_def finalize_job_def holds_fence_def upsert_review_def
      demo_dbs demo_rows upgrade_def claimed_def reclaimed_def finished_def released_def exhausted_def
      release_job_def
      seconds_def default_settings_def)

abbreviation demo_step :: "db \<Rightarrow> queue_event \<Rightarrow> db \<Rightarrow> bool" where
  "demo_step \<equiv> queue_step demo_uuid default_settings"

lemma demo_steps:
  "demo_step upgrade (Enqueued demo_sha True) q1"
  "demo_step q1 (Claimed w1 (Some row1)) q2"
  "demo_step q2 (Reconciled [row1']) q3"
  "demo_step q3 (Claimed w2 (Some row2)) q4"
  "demo_step q4 (Finalized 1 1 Success True) q5"
  "demo_step q4 (Released 1 1) q6"
  "demo_step q6 (Claimed w2 (Some row5)) q7"
  using demo_ops queue_step.releases [of demo_uuid default_settings q4 1 1 "seconds 310" 0]
  by (auto simp: upgrade_def intro: queue_step.intros)

lemma demo_reachable:
  "reachable_db demo_uuid default_settings q1" "reachable_db demo_uuid default_settings q2"
  "reachable_db demo_uuid default_settings q3" "reachable_db demo_uuid default_settings q4"
  "reachable_db demo_uuid default_settings q5" "reachable_db demo_uuid default_settings q7"
proof -
  have "reachable_db demo_uuid default_settings upgrade" by (simp add: reachable_init)
  from reachable_step [OF this demo_steps(1)]
  show r1: "reachable_db demo_uuid default_settings q1" .
  from reachable_step [OF this demo_steps(2)]
  show r2: "reachable_db demo_uuid default_settings q2" .
  from reachable_step [OF this demo_steps(3)]
  show r3: "reachable_db demo_uuid default_settings q3" .
  from reachable_step [OF this demo_steps(4)]
  show r4: "reachable_db demo_uuid default_settings q4" .
  from reachable_step [OF this demo_steps(5)]
  show r5: "reachable_db demo_uuid default_settings q5" .
  from reachable_step [OF reachable_step [OF r4 demo_steps(6)] demo_steps(7)]
  show "reachable_db demo_uuid default_settings q7" .
qed

lemma demo_ids: "j_id row1 = 1" "j_id row2 = 1" "j_fence_token row1 = 0" "j_fence_token row2 = 1"
  by (simp_all add: demo_rows)

lemma demo_runs:
  "run demo_step upgrade [Enqueued demo_sha True, Claimed w1 (Some row1), Reconciled [row1'],
     Claimed w2 (Some row2), Finalized 1 1 Success True] q5"
  "run demo_step q1 [Claimed w1 (Some row1), Reconciled [row1'], Claimed w2 (Some row2)] q4"
  "run demo_step q4 [Finalized 1 1 Success True] q5"
  by (blast intro: run_cons run_nil demo_steps)+

section \<open>Guarantees along every execution\<close>

lemma reachable_db_ok: "reachable_db u cfg d \<Longrightarrow> db_ok d"
  by (rule queue.inv_reachable)

text \<open>
  C1. After any sequence of enqueues, claims, heartbeats, finalizations, releases,
  reconciliations and heartbeat losses, in any order and by any callers: keys are unique
  (one job and one review record per commit), the fence token counts at most the ended
  attempts and every attempt is within the limit, a processing job has an owner and every heartbeat
  belongs to the owner of a processing job, and the review records are exactly those of the finished jobs, with
  the same feedback.
\<close>

theorem database_invariant:
  assumes "reachable_db u cfg d"
  shows "(distinct (map j_id (jobs d)) \<and> distinct (map j_commit_sha (jobs d)))
    \<and> (distinct (map rr_commit_sha (review_records d)))
    \<and> (\<forall>j \<in> set (jobs d). 0 \<le> j_fence_token j \<and> j_fence_token j \<le> j_attempt_count j
           \<and> j_attempt_count j \<le> j_max_attempts j
           \<and> (j_status j = Processing \<longrightarrow> j_fence_token j < j_attempt_count j \<and> j_worker_id j \<noteq> None))
    \<and> (\<forall>h \<in> set (worker_heartbeats d). \<exists>j \<in> set (jobs d). j_id j = hb_job_id h
           \<and> j_status j = Processing \<and> j_worker_id j = Some (hb_worker_id h))
    \<and> (rr_commit_sha ` set (review_records d) = j_commit_sha ` {j \<in> set (jobs d). final j})
    \<and> (\<forall>r \<in> set (review_records d). \<exists>j \<in> set (jobs d). j_id j = rr_job_id r
           \<and> j_commit_sha j = rr_commit_sha r \<and> rr_feedback r = result_or_empty j)"
proof -
  have ok: "keys_ok d" "beats_ok d" "reviews_ok d" "\<And>j. j \<in> set (jobs d) \<Longrightarrow> job_ok j"
    using reachable_db_ok [OF assms] by (simp_all add: db_ok_def)
  have "(distinct (map j_id (jobs d)) \<and> distinct (map j_commit_sha (jobs d))) \<and> distinct (map rr_commit_sha (review_records d))"
    using ok(1) by (simp add: keys_ok_def)
  moreover have "\<forall>j \<in> set (jobs d). 0 \<le> j_fence_token j \<and> j_fence_token j \<le> j_attempt_count j
       \<and> j_attempt_count j \<le> j_max_attempts j
       \<and> (j_status j = Processing \<longrightarrow> j_fence_token j < j_attempt_count j \<and> j_worker_id j \<noteq> None)"
    using ok(4) by (simp add: job_ok_def)
  moreover have "\<forall>h \<in> set (worker_heartbeats d). \<exists>j \<in> set (jobs d). j_id j = hb_job_id h
       \<and> j_status j = Processing \<and> j_worker_id j = Some (hb_worker_id h)"
    using ok(2) by (simp add: beats_ok_def)
  moreover have "rr_commit_sha ` set (review_records d) = j_commit_sha ` {j \<in> set (jobs d). final j}"
  proof (intro subset_antisym subsetI; elim imageE CollectE conjE)
    fix x r assume "x = rr_commit_sha r" "r \<in> set (review_records d)"
    with ok(3) show "x \<in> j_commit_sha ` {j \<in> set (jobs d). final j}"
      unfolding reviews_ok_def by (metis (mono_tags, lifting) image_eqI mem_Collect_eq)
  next
    fix x j assume "x = j_commit_sha j" "j \<in> set (jobs d)" "final j"
    with ok(3) show "x \<in> rr_commit_sha ` set (review_records d)"
      unfolding reviews_ok_def by (metis image_eqI)
  qed
  moreover have "\<forall>r \<in> set (review_records d). \<exists>j \<in> set (jobs d). j_id j = rr_job_id r
       \<and> j_commit_sha j = rr_commit_sha r \<and> rr_feedback r = result_or_empty j"
    using ok(3) unfolding reviews_ok_def by blast
  ultimately show ?thesis by blast
qed

theorem database_invariant_witness:
  "rr_commit_sha ` set (review_records q5) = j_commit_sha ` {j \<in> set (jobs q5). final j}
     \<and> distinct (map j_id (jobs q4)) \<and> distinct (map j_commit_sha (jobs q4))"
  using database_invariant [OF demo_reachable(4)] database_invariant [OF demo_reachable(5)]
  by (elim conjE) (intro conjI; assumption)

text \<open>
  C2. Fencing. When a worker claimed a job and another claim of the same job followed, the
  first worker can no longer commit: finalizing with the token it was given raises
  \<open>RuntimeError\<close>, whatever happened in between and since; and the second claim carries a strictly
  larger token.
\<close>

theorem zombie_cannot_finalize:
  assumes "reachable_db u cfg d"
    and "run (queue_step u cfg) d (Claimed w (Some r) # es @ Claimed w' (Some r') # es') d'"
    and "j_id r = j_id r'"
  shows "(j_fence_token r < j_fence_token r')
    \<and> (finalize_job u cfg now (j_id r) (j_fence_token r) st fb d' =
           raise_exn RuntimeError (stale_message u (j_id r) (j_fence_token r)))"
proof -
  note ok = reachable_db_ok [OF assms(1)]
  from assms(2) obtain dm where "run (queue_step u cfg) d (Claimed w (Some r) # es @ [Claimed w' (Some r')]) dm"
    by (auto simp: run_append run_cons_iff)
  from claims_increase [OF ok this assms(3)] have less: "j_fence_token r < j_fence_token r'" .
  have "\<not> holds_fence (j_id r) (j_fence_token r) j" if "j \<in> set (jobs d')" for j
  proof
    assume "holds_fence (j_id r) (j_fence_token r) j"
    with that obtain d'' where
      "finalize_job u cfg now (j_id r) (j_fence_token r) Success fb d' = Inr d''"
      using finalize_raises_iff [of u cfg now "j_id r" "j_fence_token r" Success fb d']
      by (cases "finalize_job u cfg now (j_id r) (j_fence_token r) Success fb d'")
        (auto simp: holds_fence_def)
    then have "queue_step u cfg d' (Finalized (j_id r) (j_fence_token r) Success True) d''"
      by (intro queue_step.finalizes) simp_all
    from zombie_rejected [OF ok assms(2,3) this] show False by simp
  qed
  then have "filter (holds_fence (j_id r) (j_fence_token r)) (jobs d') = []"
    by (simp add: filter_empty_conv)
  then have "finalize_job u cfg now (j_id r) (j_fence_token r) st fb d' =
      raise_exn RuntimeError (stale_message u (j_id r) (j_fence_token r))"
    by (simp add: finalize_job_def)
  with less show ?thesis by blast
qed

theorem zombie_cannot_finalize_witness:
  "finalize_job demo_uuid default_settings 0 1 0 Success None q4 =
     raise_exn RuntimeError (stale_message demo_uuid 1 0)"
  using zombie_cannot_finalize [OF demo_reachable(1),
      of w1 row1 "[Reconciled [row1']]" w2 row2 "[]" q4 0 Success None] demo_runs(2)
  by (simp add: demo_ids)

text \<open>
  C12. A committed review is permanent. After a successful finalization the job stays
  finished with the same token for ever, no claim ever returns it again, and only a
  finalization with the very same token can write it again.
\<close>

theorem finished_job_stays_finished:
  assumes "reachable_db u cfg d"
    and "run (queue_step u cfg) d (Finalized i f st True # es) d'"
  shows "(\<exists>j \<in> set (jobs d'). j_id j = i \<and> j_status j \<in> {Success, Failure} \<and> j_fence_token j = f)
    \<and> (\<forall>now w locked row. fst (claim_job now w locked d') = Some row \<longrightarrow> j_id row \<noteq> i)
    \<and> (\<forall>now st' fb f'. f' \<noteq> f \<longrightarrow> (\<exists>e. finalize_job u cfg now i f' st' fb d' = Inl e))"
proof -
  note facts = finished_forever [OF reachable_db_ok [OF assms(1)] assms(2)]
  from facts(1) have j: "\<exists>j \<in> set (jobs d'). j_id j = i \<and> j_status j \<in> {Success, Failure} \<and> j_fence_token j = f"
    by (auto simp: final_def)
  moreover have "\<forall>now w locked row. fst (claim_job now w locked d') = Some row \<longrightarrow> j_id row \<noteq> i"
    using facts(2) by (metis claims prod.collapse)
  moreover have "\<forall>k \<in> set (jobs d'). j_id k = i \<longrightarrow> j_fence_token k = f"
  proof -
    have "db_ok d'" using assms by (blast intro: reachable_db_ok reachable_run)
    with j show ?thesis using same_job by blast
  qed
  then have "\<forall>now st' fb f'. f' \<noteq> f \<longrightarrow> (\<exists>e. finalize_job u cfg now i f' st' fb d' = Inl e)"
    unfolding finalize_raises_iff by blast
  ultimately show ?thesis by blast
qed

theorem finished_job_stays_finished_witness:
  "\<exists>j \<in> set (jobs q5). j_id j = 1 \<and> j_status j \<in> {Success, Failure} \<and> j_fence_token j = 1"
  by (rule finished_job_stays_finished [OF demo_reachable(4) demo_runs(3), THEN conjunct1])

text \<open>
  C14. Retries are bounded: from the migrated database on, no job is handed to a worker more
  than three times, however often it is released, reclaimed or loses its heartbeat.
\<close>

theorem at_most_three_attempts:
  assumes "run (queue_step u cfg) upgrade es d"
  shows "length (filter (claims_of i) es) \<le> 3"
  using assms by (rule at_most_three_claims)

theorem at_most_three_attempts_witness:
  "length (filter (claims_of 1) [Enqueued demo_sha True, Claimed w1 (Some row1), Reconciled [row1'],
     Claimed w2 (Some row2), Finalized 1 1 Success True]) \<le> 3"
  by (rule at_most_three_attempts [OF demo_runs(1)])

text \<open>
  Review records survive every later operation, and the webhook is told so: once a commit is
  reviewed, enqueueing it answers \<open>False\<close> and changes nothing, at any later time.
\<close>

theorem reviewed_commit_not_enqueued:
  assumes "reachable_db u cfg d" and "sha \<in> reviewed_shas d" and "run (queue_step u cfg) d es d'"
  shows "enqueue_if_new now new_id sha repo pull inst trace d' = (False, d')"
proof -
  have "sha \<in> reviewed_shas d'"
    using durable.grows.rel_run [OF assms(3) reachable_db_ok [OF assms(1)]] assms(2) by auto
  then show ?thesis by (auto simp: enqueue_if_new_def reviewed_shas_def list_ex_iff)
qed

theorem reviewed_commit_not_enqueued_witness:
  "enqueue_if_new 9 8 demo_sha [] 1 1 None q5 = (False, q5)"
  by (rule reviewed_commit_not_enqueued [OF demo_reachable(5) _ run_nil])
    (simp add: reviewed_shas_def q5_def review_of_def demo_rows claimed_def reclaimed_def)

lemma enqueue_known_result:
  assumes "j \<in> set (jobs d)" "j_commit_sha j = sha"
  shows "enqueue_if_new now i sha r p k t d = (sha \<notin> reviewed_shas d, d)"
  using enqueue_known [OF assms, of now i r p k t]
  by (auto simp: enqueue_if_new_def reviewed_shas_def list_ex_iff split: if_splits)

text \<open>
  The dead-letter state and the finished states are final for the commit, too: a settled job is
  never claimed again, and enqueueing its commit never changes the database. For a dead job that call
  nevertheless answers \<open>True\<close> (queued), because only reviewed commits answer \<open>False\<close>.
\<close>

theorem settled_job_never_reopened:
  assumes "reachable_db u cfg d" and "j \<in> set (jobs d)" and "settled j"
    and "run (queue_step u cfg) d es d'"
  shows "(filter (claims_of (j_id j)) es = [])
    \<and> (enqueue_if_new now new_id (j_commit_sha j) repo pull inst trace d' =
           (j_commit_sha j \<notin> reviewed_shas d', d'))"
proof -
  note ok = reachable_db_ok [OF assms(1)]
  have "filter (claims_of (j_id j)) es = []" by (rule settled_run [OF assms(4) ok assms(2,3)])
  from run_evolves [OF assms(4) ok assms(2)] obtain j' where "j' \<in> set (jobs d')" "evolves j j'" .
  then have "enqueue_if_new now new_id (j_commit_sha j) repo pull inst trace d' =
      (j_commit_sha j \<notin> reviewed_shas d', d')"
    by (intro enqueue_known_result [of j']) (simp_all add: evolves_def)
  with \<open>filter (claims_of (j_id j)) es = []\<close> show ?thesis by blast
qed

theorem settled_job_never_reopened_witness:
  "enqueue_if_new 9 8 (j_commit_sha row3) [] 1 1 None q5 = (j_commit_sha row3 \<notin> reviewed_shas q5, q5)"
  by (rule settled_job_never_reopened [OF demo_reachable(5) _ _ run_nil, THEN conjunct2])
    (simp_all add: q5_def row3_def settled_def final_def)

section \<open>Claiming and recovery\<close>

lemma claim_job_Some:
  assumes ok: "db_ok d" and claim: "claim_job now w locked d = (Some r, d')"
  shows "\<exists>j \<in> set (jobs d). claimable now j \<and> \<not> locked (j_id j) \<and> r = claimed now w j
       \<and> (\<forall>k \<in> set (jobs d). claimable now k \<longrightarrow> \<not> locked (j_id k) \<longrightarrow>
            j_priority k < j_priority j \<or> j_priority k = j_priority j \<and> j_created_at j \<le> j_created_at k)
       \<and> set (jobs d') = insert r (set (jobs d) - {j})
       \<and> (\<exists>h \<in> set (worker_heartbeats d'). hb_job_id h = j_id r \<and> hb_worker_id h = w
            \<and> hb_heartbeat_at h = now)"
proof -
  from claim obtain j where j: "next_claim now locked (jobs d) = Some j" "r = claimed now w j"
    and jobs': "jobs d' = sql_update (\<lambda>k. j_id k = j_id j) (claimed now w) (jobs d)"
    and beats': "worker_heartbeats d' = upsert_heartbeat now (j_id j) w (worker_heartbeats d)"
    by (auto simp: claim_job_def split: option.splits)
  note picked = next_claim_Some [OF j(1)]
  have best: "j_priority k < j_priority j \<or> j_priority k = j_priority j \<and> j_created_at j \<le> j_created_at k"
    if "k \<in> set (jobs d)" "claimable now k" "\<not> locked (j_id k)" for k
    using next_claim_best [OF j(1) that] by (auto simp: claim_order_def)
  have "k = j" if "k \<in> set (jobs d)" "j_id k = j_id j" for k
    using same_job [OF ok that(1) picked(1) that(2)] .
  with picked(1) have set': "set (jobs d') = insert r (set (jobs d) - {j})"
    unfolding jobs' j(2) by (intro set_sql_update_one) auto
  have "\<exists>h \<in> set (worker_heartbeats d'). hb_job_id h = j_id r \<and> hb_worker_id h = w \<and> hb_heartbeat_at h = now"
    unfolding beats' j(2) job_updates_keep_keys
    by (rule fresh_heartbeat_after_claim) (use ok in \<open>simp add: db_ok_def keys_ok_def\<close>)
  with picked best set' j(2) show ?thesis by blast
qed

text \<open>
  C23. A claim hands out a job exactly when there is one that is pending, due, within its
  attempts and not locked by another transaction. The job it takes has the highest priority and,
  among those, the earliest creation; it becomes processing under the claiming worker with one attempt more and a
  fresh heartbeat of that worker; every other job stays as it was.
\<close>

theorem claim_takes_first_due_job:
  assumes "reachable_db u cfg d" and "claim_job now w locked d = (row, d')"
  shows "(row = None \<longleftrightarrow> (\<forall>k \<in> set (jobs d). claimable now k \<longrightarrow> locked (j_id k)))
    \<and> (\<forall>r. row = Some r \<longrightarrow> (\<exists>j \<in> set (jobs d). claimable now j \<and> \<not> locked (j_id j) \<and> r = claimed now w j
       \<and> (\<forall>k \<in> set (jobs d). claimable now k \<longrightarrow> \<not> locked (j_id k) \<longrightarrow>
            j_priority k < j_priority j \<or> j_priority k = j_priority j \<and> j_created_at j \<le> j_created_at k)
       \<and> set (jobs d') = insert r (set (jobs d) - {j})
       \<and> (\<exists>h \<in> set (worker_heartbeats d'). hb_job_id h = j_id r \<and> hb_worker_id h = w
            \<and> hb_heartbeat_at h = now)))"
proof -
  have "row = None \<longleftrightarrow> (\<forall>k \<in> set (jobs d). claimable now k \<longrightarrow> locked (j_id k))"
    using assms(2) next_claim_None_iff [of now locked "jobs d"]
    by (auto simp: claim_job_def split: option.splits)
  then show ?thesis using claim_job_Some [OF reachable_db_ok [OF assms(1)]] assms(2) by blast
qed

theorem claim_takes_first_due_job_witness:
  "\<exists>j \<in> set (jobs q1). claimable (seconds 5) j \<and> row1 = claimed (seconds 5) w1 j
     \<and> set (jobs q2) = insert row1 (set (jobs q1) - {j})"
  using claim_takes_first_due_job [OF demo_reachable(1) demo_ops(2)] by blast

text \<open>
  Reconciliation never disturbs a live worker: a processing job whose heartbeat is at most
  the threshold old is unchanged, keeps its heartbeat and is not among the reported rows.
\<close>

theorem reconcile_keeps_live_job:
  assumes "reachable_db u cfg d" and "j \<in> set (jobs d)" and "j_status j = Processing"
    and "h \<in> set (worker_heartbeats d)" and "hb_job_id h = j_id j"
    and "now - hb_heartbeat_at h \<le> seconds (WORKER_HEARTBEAT_STALE_SECONDS cfg)"
    and "reconcile_stale_jobs cfg now locked d = (rows, d')"
  shows "(j \<in> set (jobs d'))
    \<and> (h \<in> set (worker_heartbeats d'))
    \<and> (j_id j \<notin> j_id ` set rows)"
proof -
  note ok = reachable_db_ok [OF assms(1)]
  have fresh: "now - seconds (WORKER_HEARTBEAT_STALE_SECONDS cfg) \<le> hb_heartbeat_at h"
    using assms(6) by simp
  have d': "d' = snd (reconcile_stale_jobs cfg now locked d)"
    and rows: "rows = fst (reconcile_stale_jobs cfg now locked d)" using assms(7) by simp_all
  have "j \<in> set (jobs d')" "h \<in> set (worker_heartbeats d')"
    unfolding d' by (rule reconcile_spares_live [OF ok assms(2-5) fresh])+
  moreover have "distinct (map hb_job_id (worker_heartbeats d))" using ok by (simp add: db_ok_def keys_ok_def)
  from fresh_not_stale [OF this assms(4) fresh] assms(5)
  have "j_id j \<notin> j_id ` set rows"
    unfolding rows reconcile_rows by (auto simp: reclaimable_def)
  ultimately show ?thesis by blast
qed

theorem reconcile_keeps_live_job_witness:
  "row1 \<in> set (jobs (snd (reconcile_stale_jobs default_settings (seconds 90) nobody q2)))"
  by (rule reconcile_keeps_live_job [OF demo_reachable(2), of row1 "beat_row w1 (seconds 5)"
        "seconds 90" nobody, OF _ _ _ _ _ prod.collapse [symmetric], THEN conjunct1])
    (simp_all add: q2_def beat_row_def demo_rows claimed_def seconds_def default_settings_def)



section \<open>Three corners where a job is lost\<close>

text \<open>
  \<open>release_job\<close> deletes the heartbeat without checking the token. A stale release leaves the
  job with its present owner, whose heartbeats go on answering \<open>True\<close> but no longer store
  anything, so the next reconciliation takes the job from the live worker.
\<close>

theorem stale_release_costs_owner_the_job:
  assumes "reachable_db u cfg d" and "j \<in> set (jobs d)" and "j_status j = Processing"
    and "j_worker_id j = Some w" and "f \<noteq> j_fence_token j"
    and "update_heartbeat t (j_id j) w (release_job now (j_id j) f dl d) = (alive, d')"
  shows "(alive)
    \<and> (jobs d' = jobs d)
    \<and> (reclaimed cfg t' j \<in> set (fst (reconcile_stale_jobs cfg t' nobody d')))"
proof -
  note ok = reachable_db_ok [OF assms(1)]
  let ?d1 = "release_job now (j_id j) f dl d"
  have same: "jobs ?d1 = jobs d"
    using same_job [OF ok _ assms(2)] assms(5) by (intro stale_release_keeps_jobs) blast
  have "reachable_db u cfg ?d1" by (rule reachable_step [OF assms(1) releases])
  note ok1 = reachable_db_ok [OF this]
  have "alive"
    using update_heartbeat_of_owner [OF ok1 _ assms(3,4), of t] same assms(2,6) by simp
  moreover from no_heartbeat_no_row [OF release_drops_heartbeat assms(6)] same
  have "\<not> list_ex (\<lambda>h. hb_job_id h = j_id j) (worker_heartbeats d')" and jobs': "jobs d' = jobs d"
    by simp_all
  moreover from this have "reclaimable cfg t' nobody d' j"
    using assms(3) by (simp add: reclaimable_def stale_heartbeat_def)
  with assms(2) jobs' have "reclaimed cfg t' j \<in> set (fst (reconcile_stale_jobs cfg t' nobody d'))"
    by (simp add: reconcile_rows)
  ultimately show ?thesis by blast
qed

theorem stale_release_costs_owner_the_job_witness:
  "reclaimed default_settings (seconds 320) row2 \<in> set (fst (reconcile_stale_jobs default_settings
     (seconds 320) nobody (snd (update_heartbeat (seconds 310) (j_id row2) w2
       (release_job (seconds 305) (j_id row2) 0 60 q4)))))"
  by (rule stale_release_costs_owner_the_job [OF demo_reachable(4) _ _ _ _ prod.collapse [symmetric],
        THEN conjunct2, THEN conjunct2])
    (simp_all add: q4_def demo_rows claimed_def reclaimed_def)

text \<open>
  A job requeued by a reconciliation more than an hour after it was created is reported to
  the caller as \<open>pending\<close> (to be retried) although the same transaction moves it to the
  dead-letter state, where nothing ever picks it up again.
\<close>

theorem reconcile_reports_retry_of_dead_job:
  assumes "reachable_db u cfg d" and "j \<in> set (jobs d)" and "j_status j = Processing"
    and "stale_heartbeat cfg now (worker_heartbeats d) (j_id j)" and "\<not> locked (j_id j)"
    and "j_attempt_count j < j_max_attempts j" and "seconds 3600 < now - j_created_at j"
    and "reconcile_stale_jobs cfg now locked d = (rows, d')"
    and "run (queue_step u cfg) d' es d''"
  shows "(\<exists>r \<in> set rows. j_id r = j_id j \<and> j_status r = Pending)
    \<and> (\<exists>j' \<in> set (jobs d'). j_id j' = j_id j \<and> j_status j' = Dead)
    \<and> (filter (claims_of (j_id j)) es = [])"
proof -
  have hit: "reclaimable cfg now locked d j" using assms(3-5) by (simp add: reclaimable_def)
  with assms(2,8) have "reclaimed cfg now j \<in> set rows"
    using reconcile_rows [of cfg now locked d] by auto
  then have reported: "\<exists>r \<in> set rows. j_id r = j_id j \<and> j_status r = Pending"
    using assms(6) by (intro bexI [of _ "reclaimed cfg now j"]) (auto simp: exhausted_def)
  let ?j' = "reconciled_row cfg now locked d j"
  have j': "?j' \<in> set (jobs d')" "j_status ?j' = Dead"
    using reconcile_row_of [OF assms(2), of cfg now locked] assms(7,8) reconciled_expired [OF hit]
    by simp_all
  then have dead: "\<exists>j' \<in> set (jobs d'). j_id j' = j_id j \<and> j_status j' = Dead"
    by (intro bexI [of _ ?j']) simp_all
  have "db_ok d'"
    by (rule reachable_db_ok [OF reachable_step [OF assms(1) queue_step.reconciles [OF assms(8)]]])
  from settled_run [OF assms(9) this j'(1)] j'(2) have unclaimed: "filter (claims_of (j_id j)) es = []"
    by (simp add: settled_def)
  show ?thesis using reported dead unclaimed by (intro conjI)
qed

theorem reconcile_reports_retry_of_dead_job_witness:
  "\<exists>r \<in> set (fst (reconcile_stale_jobs default_settings (seconds 4000) nobody q2)).
     j_id r = j_id row1 \<and> j_status r = Pending"
  by (rule reconcile_reports_retry_of_dead_job [OF demo_reachable(2) _ _ _ _ _ _
        prod.collapse [symmetric] run_nil, THEN conjunct1])
    (simp_all add: q2_def beat_row_def demo_rows claimed_def seconds_def default_settings_def
      stale_heartbeat_def)

text \<open>
  A job released on its last attempt goes back to \<open>pending\<close>, where no claim can ever take it:
  it waits there until the one-hour expiry moves it to the dead-letter state.
\<close>

theorem release_on_last_attempt_strands_job:
  assumes "reachable_db u cfg d" and "j \<in> set (jobs d)" and "j_status j = Processing"
    and "j_attempt_count j = j_max_attempts j"
    and "run (queue_step u cfg) (release_job now (j_id j) (j_fence_token j) dl d) es d'"
  shows "(\<exists>j' \<in> set (jobs (release_job now (j_id j) (j_fence_token j) dl d)).
           j_id j' = j_id j \<and> j_status j' = Pending)
    \<and> (filter (claims_of (j_id j)) es = [])"
proof -
  let ?d1 = "release_job now (j_id j) (j_fence_token j) dl d"
  have row: "released now dl j \<in> set (jobs ?d1)"
    using assms(2,3) by (simp add: release_job_def holds_fence_def sql_update_hit)
  then have "\<exists>j' \<in> set (jobs ?d1). j_id j' = j_id j \<and> j_status j' = Pending"
    by (intro bexI [of _ "released now dl j"]) simp_all
  moreover have "db_ok ?d1" by (rule reachable_db_ok [OF reachable_step [OF assms(1) releases]])
  from exhausted_never_claimed [OF this row _ assms(5)] assms(4)
  have "filter (claims_of (j_id j)) es = []" by simp
  ultimately show ?thesis by blast
qed

theorem release_on_last_attempt_strands_job_witness:
  "\<exists>j' \<in> set (jobs (release_job (seconds 330) (j_id row5) (j_fence_token row5) 60 q7)).
     j_id j' = j_id row5 \<and> j_status j' = Pending"
  by (rule release_on_last_attempt_strands_job [OF demo_reachable(6) _ _ _ run_nil, THEN conjunct1])
    (simp_all add: q7_def demo_rows claimed_def reclaimed_def released_def)

section \<open>Ingestion\<close>

text \<open>
  The advisory lock of a commit fits PostgreSQL's \<open>bigint\<close>, whatever the digest is, and
  equal commits get equal locks, so two concurrent ingestions of a commit exclude each other.
\<close>

theorem lock_id_is_bigint:
  assumes "\<And>s. length (md5 s) = 16 \<and> (\<forall>b \<in> set (md5 s). 0 \<le> b \<and> b < 256)"
  shows "(- (2 ^ 63) \<le> generate_lock_id md5 sha)
    \<and> (generate_lock_id md5 sha < 2 ^ 63)"
proof -
  have bytes: "\<forall>b \<in> set (take 8 (md5 sha)). 0 \<le> b \<and> b < 256"
    using assms [of sha] by (auto dest: in_set_takeD)
  have len: "length (take 8 (md5 sha)) = 8" using assms [of sha] by simp
  from signed_bytes_range [OF bytes, unfolded len]
  show ?thesis by (simp add: generate_lock_id_def)
qed

theorem lock_id_is_bigint_witness:
  "- (2 ^ 63) \<le> generate_lock_id (\<lambda>_. replicate 16 255) demo_sha
     \<and> generate_lock_id (\<lambda>_. replicate 16 255) demo_sha < 2 ^ 63"
  by (rule lock_id_is_bigint) simp

end
