(* ===== verification/Comments.thy ===== *)
theory Comments
  imports Settings Findings
begin

text \<open>
  What \<open>app/worker.py\<close> makes of a review result: the choice of the findings that become
  inline comments, the text of such a comment and the body of the review.
\<close>

section \<open>Selection of inline comments\<close>

definition has_fix :: "review_comment \<Rightarrow> bool" where
  "has_fix c \<longleftrightarrow> (case rc_suggested_fix c of None \<Rightarrow> False | Some s \<Rightarrow> strip s \<noteq> [])"

definition severity_threshold :: "settings \<Rightarrow> int" where
  "severity_threshold cfg = (case severity_of (REVIEW_MIN_INLINE_SEVERITY cfg) of
     None \<Rightarrow> 1 | Some s \<Rightarrow> severity_rank s)"

definition inline_key :: "review_comment \<Rightarrow> int \<times> int \<times> int" where
  "inline_key c = (severity_rank (rc_severity c), if has_fix c then 1 else 0,
     - int (length (rc_body c)))"

definition inline_candidates :: "settings \<Rightarrow> review_comment list \<Rightarrow> review_comment list" where
  "inline_candidates cfg comments = py_sorted_rev inline_key
     (filter (\<lambda>c. severity_threshold cfg \<le> severity_rank (rc_severity c)) comments)"

definition near :: "review_comment \<Rightarrow> review_comment \<Rightarrow> bool" where
  "near s c \<longleftrightarrow> rc_path s = rc_path c \<and> \<bar>rc_line s - rc_line c\<bar> \<le> 5"

fun pick_inline :: "int \<Rightarrow> review_comment list \<Rightarrow> review_comment list \<Rightarrow> review_comment list" where
  "pick_inline limit selected [] = selected"
| "pick_inline limit selected (c # cs) =
     (let selected' = (if list_ex (\<lambda>s. near s c) selected then selected else selected @ [c])
      in if limit \<le> int (length selected') then selected'
         else pick_inline limit selected' cs)"

definition select_inline_comments :: "settings \<Rightarrow> review_comment list \<Rightarrow> review_comment list" where
  "select_inline_comments cfg comments =
     pick_inline (REVIEW_MAX_INLINE_COMMENTS cfg) [] (inline_candidates cfg comments)"

section \<open>The text of an inline comment\<close>

definition severity_badge :: "severity \<Rightarrow> pystr" where
  "severity_badge s = (case s of
     CRITICAL \<Rightarrow> [95, 128680] @ lit '' Critical Issue_''
   | WARNING \<Rightarrow> [95, 9888, 65039] @ lit '' Potential Issue_''
   | INFO \<Rightarrow> [95, 128161] @ lit '' Suggestion_'')"

definition severity_prefixes :: "pystr list" where
  "severity_prefixes = [lit ''CRITICAL:'', lit ''WARNING:'', lit ''INFO:'', lit ''[CRITICAL]'',
     lit ''[WARNING]'', lit ''[INFO]'']"

definition drop_prefix :: "pystr \<Rightarrow> pystr \<Rightarrow> pystr" where
  "drop_prefix body p = (if starts p body then strip (drop (length p) body) else body)"

definition fence :: pystr where "fence = [96, 96, 96]"

definition clean_fix :: "pystr \<Rightarrow> pystr" where
  "clean_fix fix = strip (replace fence [] (replace (fence @ [NL]) []
     (replace (fence @ lit ''cpp'' @ [NL]) [] (strip fix))))"

definition fix_part :: "review_comment \<Rightarrow> pystr list" where
  "fix_part c = (if has_fix c
     then [[NL] @ fence @ lit ''suggestion'' @ [NL] @ clean_fix (the (rc_suggested_fix c)) @ [NL] @ fence]
     else [])"

definition agent_part :: "review_comment \<Rightarrow> pystr" where
  "agent_part c = [NL, NL] @ lit ''<sub>Reviewed by **Revix Swarm** (''
     @ (case rc_agent_id c of None \<Rightarrow> lit ''None'' | Some a \<Rightarrow> a) @ lit '')</sub>''"

definition format_inline_comment :: "review_comment \<Rightarrow> pystr" where
  "format_inline_comment c =
     (let body_text = foldl drop_prefix (strip (rc_body c)) severity_prefixes
      in join [NL] ([severity_badge (rc_severity c) @ [NL, NL] @ body_text] @ fix_part c @ [agent_part c]))"

section \<open>The body of the review\<close>

definition str_len :: "'a list \<Rightarrow> pystr" where
  "str_len xs = str_int (int (length xs))"

definition decision_row :: "int \<Rightarrow> pystr" where
  "decision_row score = lit ''| **Review Decision** | '' @ (if score < 80 then [10060] else [9989]) @ lit '' **''
     @ (if score < 80 then lit ''Changes Requested'' else lit ''Approved'') @ lit ''** |'' @ [NL]"

definition body_header :: "review_result \<Rightarrow> review_comment list \<Rightarrow> pr_file list \<Rightarrow> pystr" where
  "body_header r inline pr_files =
     lit ''## '' @ [128269] @ lit '' Revix Review Summary'' @ [NL, NL]
     @ lit ''| Metric | Assessment |'' @ [NL] @ lit ''| :--- | :--- |'' @ [NL]
     @ lit ''| **Quality Score** | `'' @ str_int (res_score r) @ lit '' / 100` |'' @ [NL]
     @ decision_row (res_score r)
     @ lit ''| **Actionable Comments** | '' @ str_len inline @ lit '' critical item(s) inline |'' @ [NL]
     @ lit ''| **Files Analyzed** | '' @ str_len pr_files @ lit '' file(s) |'' @ [NL, NL]
     @ lit ''### '' @ [128221] @ lit '' High-Level Overview'' @ [NL, NL]
     @ res_summary r @ [NL, NL] @ lit ''---'' @ [NL, NL]
     @ lit ''### '' @ [128230] @ lit '' Changes Walkthrough'' @ [NL, NL]
     @ lit ''| File | Findings | Risk Assessment |'' @ [NL] @ lit ''| :--- | :--- | :--- |'' @ [NL]"

definition count_severity :: "severity \<Rightarrow> review_comment list \<Rightarrow> nat" where
  "count_severity s cs = length (filter (\<lambda>c. rc_severity c = s) cs)"

definition file_risk :: "review_comment list \<Rightarrow> pystr" where
  "file_risk cs =
     (if 0 < count_severity CRITICAL cs
      then [128680] @ lit '' High ('' @ str_int (int (count_severity CRITICAL cs)) @ lit '' critical)''
      else if 0 < count_severity WARNING cs
      then [9888, 65039] @ lit '' Medium ('' @ str_int (int (count_severity WARNING cs)) @ lit '' warning)''
      else [128994] @ lit '' Low'')"

definition file_comments :: "review_comment list \<Rightarrow> pystr \<Rightarrow> review_comment list" where
  "file_comments cs path = filter (\<lambda>c. rc_path c = path) cs"

definition file_row :: "review_comment list \<Rightarrow> pr_file \<Rightarrow> pystr" where
  "file_row cs f =
     (let path = (case pf_filename f of None \<Rightarrow> lit ''unknown'' | Some p \<Rightarrow> p);
          fc = file_comments cs path
      in lit ''| `'' @ path @ lit ''` | ''
         @ (if fc \<noteq> [] then str_len fc @ lit '' issue(s) identified'' else lit ''No issues flagged'')
         @ lit '' | '' @ file_risk fc @ lit '' |'' @ [NL])"

definition orphan_row :: "review_comment list \<Rightarrow> pystr \<Rightarrow> pystr" where
  "orphan_row cs path =
     (let fc = file_comments cs path; crit = count_severity CRITICAL fc
      in lit ''| `'' @ path @ lit ''` | '' @ str_len fc @ lit '' issue(s) identified | ''
         @ (if crit \<noteq> 0 then [128680] @ lit '' High ('' @ str_int (int crit) @ lit '' critical)''
            else [9888, 65039] @ lit '' Medium'')
         @ lit '' |'' @ [NL])"

definition details_header :: "review_comment list \<Rightarrow> pystr" where
  "details_header cs = [NL] @ lit ''---'' @ [NL, NL] @ lit ''<details>'' @ [NL]
     @ lit ''<summary>'' @ [128203] @ lit '' <b>All Findings & Architecture Details ('' @ str_len cs
     @ lit '')</b></summary>'' @ [NL, NL]
     @ lit ''| Severity | Location | Summary |'' @ [NL] @ lit ''| :--- | :--- | :--- |'' @ [NL]"

definition finding_row :: "review_comment \<Rightarrow> pystr" where
  "finding_row c = lit ''| ''
     @ (case rc_severity c of CRITICAL \<Rightarrow> [128680] | WARNING \<Rightarrow> [9888, 65039] | INFO \<Rightarrow> [8505, 65039])
     @ lit '' **'' @ severity_text (rc_severity c) @ lit ''** | `'' @ rc_path c @ lit '':'' @ str_int (rc_line c)
     @ lit ''` | '' @ slice_to 140 (replace [NL] (lit '' '') (rc_body c)) @ lit ''... |'' @ [NL]"

definition body_footer :: pystr where
  "body_footer = [NL] @ lit ''</details>'' @ [NL, NL] @ lit ''<details>'' @ [NL]
     @ lit ''<summary>'' @ [128161] @ lit '' <b>Revix Concurrency & Architecture Insight</b></summary>''
     @ [NL, NL]
     @ lit ''> In high-concurrency C++, `std::shared_lock` allows parallel reads only when ''
     @ lit ''operations are read-only. Mutating internal container pointers (such as ''
     @ lit ''`std::list::splice`) requires exclusive ownership (`std::unique_lock`) to prevent ''
     @ lit ''heap corruption.'' @ [NL, NL] @ lit ''</details>'' @ [NL]"

definition format_review_body ::
    "review_result \<Rightarrow> review_comment list \<Rightarrow> pr_file list \<Rightarrow> pystr" where
  "format_review_body r inline pr_files =
     body_header r inline pr_files
     @ concat (map (file_row (res_comments r)) pr_files)
     @ (if pr_files = []
        then concat (map (orphan_row (res_comments r)) (from_keys (map rc_path (res_comments r))))
        else [])
     @ details_header (res_comments r)
     @ concat (map finding_row (res_comments r))
     @ body_footer"

section \<open>Lemmas on the selection\<close>

lemma pick_inline_length:
  "int (length selected) \<le> max 1 limit \<Longrightarrow>
     int (length (pick_inline limit selected cs)) \<le> max 1 limit \<or> limit \<le> int (length selected)"
  by (induction limit selected cs rule: pick_inline.induct) (auto simp: Let_def)

text \<open>What the loop keeps: it only appends, in the order of the candidates, elements that are not near.\<close>

definition apart :: "review_comment list \<Rightarrow> bool" where
  "apart xs \<longleftrightarrow> sorted_wrt (\<lambda>s c. \<not> near s c) xs"

lemma apart_snoc: "apart (xs @ [c]) \<longleftrightarrow> apart xs \<and> \<not> list_ex (\<lambda>s. near s c) xs"
  by (auto simp: apart_def sorted_wrt_append list_ex_iff)

lemma pick_inline_apart: "apart selected \<Longrightarrow> apart (pick_inline limit selected cs)"
  by (induction limit selected cs rule: pick_inline.induct) (auto simp: Let_def apart_snoc)

lemma pick_inline_subseq:
  "\<exists>picked. pick_inline limit selected cs = selected @ picked \<and> subseq picked cs"
proof (induction limit selected cs rule: pick_inline.induct)
  case (2 limit selected c cs)
  let ?s = "if list_ex (\<lambda>s. near s c) selected then selected else selected @ [c]"
  show ?case
  proof (cases "limit \<le> int (length ?s)")
    case True
    then show ?thesis by (auto simp: Let_def)
  next
    case False
    with 2 [of ?s] obtain picked where "pick_inline limit ?s cs = ?s @ picked" "subseq picked cs"
      by auto
    with False show ?thesis by (auto simp: Let_def)
  qed
qed auto

lemma near_refl [simp]: "near c c"
  by (simp add: near_def)

lemma near_sym: "near s c \<longleftrightarrow> near c s"
  by (auto simp: near_def abs_minus_commute)

text \<open>
  When the loop ran out of candidates rather than of room, every candidate is near a selected
  one of at least its rank.
\<close>

lemma pick_inline_covers:
  fixes key :: "review_comment \<Rightarrow> 'k::linorder"
  assumes "int (length (pick_inline limit selected cs)) < limit" and "c \<in> set cs"
    and "sorted_wrt (\<lambda>x y. key y \<le> key x) (selected @ cs)"
  shows "\<exists>s \<in> set (pick_inline limit selected cs). near s c \<and> key c \<le> key s"
  using assms
proof (induction limit selected cs rule: pick_inline.induct)
  case (2 limit selected d cs)
  let ?s = "if list_ex (\<lambda>s. near s d) selected then selected else selected @ [d]"
  have room: "\<not> limit \<le> int (length ?s)" using "2.prems"(1) by (auto simp: Let_def split: if_splits)
  then have rest: "pick_inline limit selected (d # cs) = pick_inline limit ?s cs" by (simp add: Let_def)
  show ?case
  proof (cases "c = d")
    case True
    have "\<exists>s \<in> set ?s. near s d \<and> key d \<le> key s"
      using "2.prems"(3) by (auto simp: list_ex_iff sorted_wrt_append)
    moreover have "set ?s \<subseteq> set (pick_inline limit ?s cs)"
      using pick_inline_subseq [of limit ?s cs] by auto
    ultimately show ?thesis unfolding rest True by blast
  next
    case False
    have "sorted_wrt (\<lambda>x y. key y \<le> key x) (?s @ cs)"
      using "2.prems"(3) by (auto simp: sorted_wrt_append)
    then show ?thesis using "2.IH" [OF refl room] "2.prems" False unfolding rest by auto
  qed
qed simp

lemma sorted_candidates:
  "sorted_wrt (\<lambda>x y. inline_key y \<le> inline_key x) (inline_candidates cfg cs)"
  unfolding inline_candidates_def by (rule sorted_py_sorted_rev)

lemma in_candidates:
  "c \<in> set (inline_candidates cfg cs) \<longleftrightarrow>
     c \<in> set cs \<and> severity_threshold cfg \<le> severity_rank (rc_severity c)"
  by (auto simp: inline_candidates_def)

lemma selection_subseq:
  "subseq (select_inline_comments cfg cs) (inline_candidates cfg cs)"
  using pick_inline_subseq [of "REVIEW_MAX_INLINE_COMMENTS cfg" "[]" "inline_candidates cfg cs"]
  by (auto simp: select_inline_comments_def)

lemma selection_length:
  "int (length (select_inline_comments cfg cs)) \<le> max 1 (REVIEW_MAX_INLINE_COMMENTS cfg)"
proof (cases "inline_candidates cfg cs")
  case Nil
  then show ?thesis by (simp add: select_inline_comments_def)
next
  case (Cons c rest)
  let ?limit = "REVIEW_MAX_INLINE_COMMENTS cfg"
  show ?thesis
  proof (cases "?limit \<le> 1")
    case True
    with Cons show ?thesis by (simp add: select_inline_comments_def)
  next
    case False
    with pick_inline_length [of "[]" ?limit "inline_candidates cfg cs"]
    show ?thesis by (simp add: select_inline_comments_def)
  qed
qed

lemma set_subseq: "subseq xs ys \<Longrightarrow> set xs \<subseteq> set ys"
  by (induction rule: list_emb.induct) auto

lemma sorted_wrt_subseq: "subseq xs ys \<Longrightarrow> sorted_wrt P ys \<Longrightarrow> sorted_wrt P xs"
  by (induction rule: list_emb.induct) (auto dest: list_emb_set)


text \<open>With the limit set to zero the loop still selects one comment: it tests the limit after appending.\<close>

theorem zero_limit_selects_one:
  assumes "REVIEW_MAX_INLINE_COMMENTS cfg = 0" and "inline_candidates cfg cs = c # rest"
  shows "select_inline_comments cfg cs = [c]"
  using assms by (simp add: select_inline_comments_def)

section \<open>Lemmas on the texts\<close>

definition lead :: "pystr \<Rightarrow> nat" where
  "lead s = length (takeWhile (\<lambda>c. c = 96) s)"

lemma lead_simps [simp]: "lead [] = 0" "lead (c # s) = (if c = 96 then Suc (lead s) else 0)"
  by (simp_all add: lead_def)

lemma starts_fence: "starts fence s \<longleftrightarrow> 3 \<le> lead s"
  by (cases s; cases "tl s"; cases "tl (tl s)") (auto simp: starts_def fence_def)

lemma lead_drop_fence: "starts fence s \<Longrightarrow> lead s = 3 + lead (drop 3 s)"
  by (cases s; cases "tl s"; cases "tl (tl s)") (auto simp: starts_def fence_def)

lemma replace_fence:
  "\<not> contains fence (replace fence [] s) \<and> lead (replace fence [] s) = lead s mod 3"
proof (induction "length s" arbitrary: s rule: less_induct)
  case less
  show ?case
  proof (cases s)
    case Nil
    then show ?thesis by (simp add: fence_def)
  next
    case (Cons c t)
    show ?thesis
    proof (cases "starts fence s")
      case True
      then have "replace fence [] s = replace fence [] (drop 3 s)"
        using Cons by (simp add: fence_def numeral_2_eq_2)
      moreover have "length (drop 3 s) < length s" using Cons by simp
      ultimately show ?thesis using less [of "drop 3 s"] lead_drop_fence [OF True] by simp
    next
      case False
      then have step: "replace fence [] s = c # replace fence [] t"
        using Cons by simp
      have IH: "\<not> contains fence (replace fence [] t)" "lead (replace fence [] t) = lead t mod 3"
        using less [of t] Cons by simp_all
      have small: "lead s < 3" using False by (simp add: starts_fence)
      then have "lead (c # replace fence [] t) = lead s"
        using IH(2) Cons by (auto split: if_splits)
      with small IH(1) step show ?thesis by (simp add: starts_fence)
    qed
  qed
qed

lemma contains_strip: "contains p (strip s) \<Longrightarrow> contains p s"
proof -
  have l: "contains (dropWhile q s) s" for q and s :: pystr
    by (metis append_Nil2 contains_iff takeWhile_dropWhile_id)
  have r: "contains (rev (dropWhile q (rev s))) s" for q and s :: pystr
    by (metis append_Nil contains_iff rev_append rev_rev_ident takeWhile_dropWhile_id)
  show "contains p s" if "contains p (strip s)"
    using that l r unfolding strip_def lstrip_def rstrip_def by (blast intro: contains_trans)
qed

lemma clean_fix_no_fence: "\<not> contains fence (clean_fix fix)"
  unfolding clean_fix_def using replace_fence contains_strip by blast

text \<open>
  The suggestion block of an inline comment cannot be broken open: whatever fences the
  proposed fix contains, the text between the opening and the closing fence holds none.
\<close>

theorem suggestion_block_closed:
  assumes "has_fix c"
  shows "\<exists>text fix. \<not> contains fence fix \<and> format_inline_comment c =
     severity_badge (rc_severity c) @ [NL, NL] @ text
       @ [NL, NL] @ fence @ lit ''suggestion'' @ [NL] @ fix @ [NL] @ fence
       @ [NL] @ agent_part c"
proof -
  have "format_inline_comment c = severity_badge (rc_severity c) @ [NL, NL]
      @ foldl drop_prefix (strip (rc_body c)) severity_prefixes
      @ [NL, NL] @ fence @ lit ''suggestion'' @ [NL] @ clean_fix (the (rc_suggested_fix c)) @ [NL] @ fence
      @ [NL] @ agent_part c"
    using assms by (simp add: format_inline_comment_def fix_part_def)
  then show ?thesis using clean_fix_no_fence by blast
qed

definition demo_fixed :: review_comment where
  "demo_fixed = demo_comment\<lparr>rc_suggested_fix := Some (fence @ [NL] @ lit ''x = 1'' @ [NL] @ fence)\<rparr>"

theorem suggestion_block_closed_witness:
  "\<exists>text fix. \<not> contains fence fix \<and> format_inline_comment demo_fixed =
     severity_badge CRITICAL @ [NL, NL] @ text
       @ [NL, NL] @ fence @ lit ''suggestion'' @ [NL] @ fix @ [NL] @ fence
       @ [NL] @ agent_part demo_fixed"
proof -
  have "has_fix demo_fixed"
    by (simp add: has_fix_def demo_fixed_def fence_def pystr_eval)
  from suggestion_block_closed [OF this] show ?thesis by (simp add: demo_fixed_def demo_comment_def)
qed

lemma contains_concat: "x \<in> set xs \<Longrightarrow> contains (f x) (concat (map f xs))"
  by (induction xs) (auto intro: contains_append1 contains_append2)

text \<open>
  The body of a review is complete: it states \<open>Approved\<close> exactly for a score of at least 80,
  has a row for every file of the pull request, with the number of its findings, and a row for every finding.
\<close>

theorem review_body_complete:
  fixes r :: review_result and inline :: "review_comment list" and files :: "pr_file list"
  defines "body \<equiv> format_review_body r inline files"
  shows "contains (lit ''| **Review Decision** | '' @ (if 80 \<le> res_score r
            then [9989] @ lit '' **Approved** |'' else [10060] @ lit '' **Changes Requested** |'')) body
    \<and> (\<forall>f \<in> set files. contains (file_row (res_comments r) f) body)
    \<and> (\<forall>c \<in> set (res_comments r). contains (finding_row c) body)"
proof (intro conjI ballI)
  let ?row = "lit ''| **Review Decision** | '' @ (if 80 \<le> res_score r
      then [9989] @ lit '' **Approved** |'' else [10060] @ lit '' **Changes Requested** |'')"
  have "decision_row (res_score r) = ?row @ [NL]"
    by (simp add: decision_row_def lit_def)
  then have row: "contains ?row (decision_row (res_score r))"
    by (metis contains_append1 contains_refl)
  have "contains (decision_row (res_score r)) (body_header r inline files)"
    unfolding body_header_def by (rule contains_refl | rule contains_append1 contains_append2)+
  with row show "contains ?row body"
    unfolding body_def format_review_body_def by (blast intro: contains_append1 contains_trans)
  show "contains (file_row (res_comments r) f) body" if "f \<in> set files" for f
    unfolding body_def format_review_body_def
    by (rule contains_append2, rule contains_append1, rule contains_concat [OF that])
  show "contains (finding_row c) body" if "c \<in> set (res_comments r)" for c
  proof -
    have "contains (finding_row c) (concat (map finding_row (res_comments r)))"
      by (rule contains_concat [OF that])
    then have "contains (finding_row c) (concat (map finding_row (res_comments r)) @ body_footer)"
      by (rule contains_append1)
    then show ?thesis unfolding body_def format_review_body_def
      by (rule contains_append2 [OF contains_append2 [OF contains_append2 [OF contains_append2]]])
  qed
qed

definition demo_result :: review_result where
  "demo_result = \<lparr>res_summary = lit ''ok'', res_score = 79, res_comments = [demo_comment],
     res_agent_reports = []\<rparr>"

theorem review_body_complete_witness:
  "contains (finding_row demo_comment) (format_review_body demo_result [] [])"
  using review_body_complete [of demo_result "[]" "[]"] by (simp add: demo_result_def)


end
