(* ===== verification/SyntaxTree.thy ===== *)
theory SyntaxTree
  imports Utf8
begin

text \<open>
  The interface of the tree-sitter parser: a node has a type, a byte range, the rows of its
  ends, the name of the field of its parent it fills (if any) and its children. The tables
  \<open>LANGUAGES\<close> and \<open>BOUNDARY_TYPES\<close> of \<open>app/services/ai.py\<close> are here; parsing itself is an argument
  of what uses it.
\<close>

record node_info =
  n_type :: pystr
  n_start_byte :: nat
  n_end_byte :: nat
  n_start_row :: int
  n_end_row :: int
  n_field :: "pystr option"
  n_has_error :: bool

datatype node = Node (info: node_info) (children: "node list")

type_synonym parser = "bytes \<Rightarrow> node"

datatype grammar = PythonGrammar | JavaScriptGrammar | GoGrammar

definition languages :: "pystr \<Rightarrow> grammar option" where
  "languages ext = map_of [(lit ''.py'', PythonGrammar), (lit ''.js'', JavaScriptGrammar),
     (lit ''.ts'', JavaScriptGrammar), (lit ''.go'', GoGrammar)] ext"

definition boundary_types :: "pystr \<Rightarrow> pystr list" where
  "boundary_types ext = (case map_of [
     (lit ''.py'', [lit ''class_definition'', lit ''function_definition'', lit ''decorated_definition'']),
     (lit ''.js'', [lit ''class_declaration'', lit ''function_declaration'', lit ''arrow_function'',
        lit ''method_definition'', lit ''export_statement'']),
     (lit ''.go'', [lit ''function_declaration'', lit ''method_declaration'', lit ''type_declaration''])] ext
   of None \<Rightarrow> [] | Some ts \<Rightarrow> ts)"

definition class_types :: "pystr list" where
  "class_types = [lit ''class_definition'', lit ''class_declaration'']"

text \<open>\<open>"." + path.rsplit(".", 1)[-1] if "." in path else ""\<close>.\<close>

definition file_ext :: "pystr \<Rightarrow> pystr" where
  "file_ext path = (if 46 \<in> set path then 46 # last (split_on 46 path) else [])"

definition get_parser :: "(grammar \<Rightarrow> parser) \<Rightarrow> pystr \<Rightarrow> parser option" where
  "get_parser parse ext = map_option parse (languages ext)"

definition child_by_field_name :: "pystr \<Rightarrow> node \<Rightarrow> node option" where
  "child_by_field_name f n = find (\<lambda>c. n_field (info c) = Some f) (children n)"

definition node_bytes :: "bytes \<Rightarrow> node \<Rightarrow> bytes" where
  "node_bytes src n = slice (n_start_byte (info n)) (n_end_byte (info n)) src"

definition node_text :: "bytes \<Rightarrow> node \<Rightarrow> pystr" where
  "node_text src n = decode_replace (node_bytes src n)"

text \<open>
  What the parser documents of the ranges of a tree over an encoded text: every node covers
  whole characters of the text.
\<close>

definition covers :: "pystr \<Rightarrow> node \<Rightarrow> pystr \<Rightarrow> bool" where
  "covers s n v \<longleftrightarrow> (\<exists>u w a b. s = u @ v @ w \<and> utf8_encode u = Inr a \<and> utf8_encode v = Inr b
     \<and> n_start_byte (info n) = length a \<and> n_end_byte (info n) = length a + length b)"

fun nodes :: "node \<Rightarrow> node list" where
  "nodes (Node i cs) = Node i cs # concat (map nodes cs)"

definition aligned :: "pystr \<Rightarrow> node \<Rightarrow> bool" where
  "aligned s t \<longleftrightarrow> (\<forall>n \<in> set (nodes t). \<exists>v. covers s n v)"

lemma nodes_root [simp]: "t \<in> set (nodes t)"
  by (cases t) simp

lemma nodes_child: "c \<in> set (children t) \<Longrightarrow> n \<in> set (nodes c) \<Longrightarrow> n \<in> set (nodes t)"
  by (cases t) auto

lemma aligned_child: "aligned s t \<Longrightarrow> c \<in> set (children t) \<Longrightarrow> aligned s c"
  by (auto simp: aligned_def intro: nodes_child)

lemma utf8_encode_split:
  "utf8_encode (u @ v) = Inr bs \<Longrightarrow>
     \<exists>a b. utf8_encode u = Inr a \<and> utf8_encode v = Inr b \<and> bs = a @ b"
  by (auto simp: utf8_encode_def split: if_splits)

lemma covers_text:
  assumes "covers s n v" and "utf8_encode s = Inr src"
  shows "decode_strict (node_bytes src n) = Inr v" and "node_text src n = v"
proof -
  from assms(1) obtain u w a b where s: "s = u @ v @ w" and e: "utf8_encode u = Inr a" "utf8_encode v = Inr b"
    and n: "n_start_byte (info n) = length a" "n_end_byte (info n) = length a + length b"
    by (auto simp: covers_def)
  from assms(2) s e obtain c where "utf8_encode w = Inr c" "src = a @ b @ c"
    by (auto dest!: utf8_encode_split)
  with decode_slice [OF e this(1)] n
  show "decode_strict (node_bytes src n) = Inr v" "node_text src n = v"
    by (simp_all add: node_bytes_def node_text_def)
qed

lemma covers_contains: "covers s n v \<Longrightarrow> contains v s"
  by (auto simp: covers_def contains_iff)

end
