(* ===== verification/Indexer.thy ===== *)
theory Indexer
  imports SyntaxTree
begin

text \<open>
  \<open>RepoIndexer\<close> of \<open>app/services/ai.py\<close>: the definitions and the call references of a file,
  extracted from its syntax tree. The two recursive methods append to lists they are given;
  here they return what they append. Strict decoding raises, so the extraction of definitions
  has an outcome.
\<close>

section \<open>Data\<close>

record symbol =
  sym_name :: pystr
  sym_qualified_name :: pystr
  sym_kind :: pystr
  sym_file_path :: pystr
  sym_start_line :: int
  sym_end_line :: int
  sym_signature :: pystr
  sym_parent :: "pystr option"

record reference =
  ref_symbol_name :: pystr
  ref_file_path :: pystr
  ref_line :: int
  ref_context_line :: pystr
  ref_type :: pystr

section \<open>Definitions\<close>

definition name_types :: "pystr list" where
  "name_types = [lit ''identifier'', lit ''name'', lit ''property_identifier'', lit ''field_identifier'']"

definition node_name :: "bytes \<Rightarrow> node list \<Rightarrow> pystr outcome" where
  "node_name src cs = (case find (\<lambda>c. n_type (info c) \<in> set name_types) cs of
     None \<Rightarrow> Inr [] | Some c \<Rightarrow> decode_strict (node_bytes src c))"

definition qualify :: "pystr option \<Rightarrow> pystr \<Rightarrow> pystr" where
  "qualify parent name = (case parent of None \<Rightarrow> name
     | Some p \<Rightarrow> if p = [] then name else p @ lit ''.'' @ name)"

definition make_symbol :: "pystr \<Rightarrow> pystr option \<Rightarrow> node_info \<Rightarrow> pystr \<Rightarrow> pystr \<Rightarrow> symbol" where
  "make_symbol path parent i name text = \<lparr>sym_name = name, sym_qualified_name = qualify parent name,
     sym_kind = n_type i, sym_file_path = path, sym_start_line = n_start_row i,
     sym_end_line = n_end_row i, sym_signature = strip (hd (split_on NL text)), sym_parent = parent\<rparr>"

fun extract_definitions :: "pystr \<Rightarrow> bytes \<Rightarrow> pystr \<Rightarrow> pystr option \<Rightarrow> node \<Rightarrow> symbol list outcome"
  and extract_children :: "pystr \<Rightarrow> bytes \<Rightarrow> pystr \<Rightarrow> pystr option \<Rightarrow> node list \<Rightarrow> symbol list outcome"
  where
  "extract_definitions ext src path parent (Node i cs) =
     (if n_type i \<in> set (boundary_types ext) then
        bind (node_name src cs) (\<lambda>name.
          if name = [] then extract_children ext src path parent cs
          else bind (decode_strict (node_bytes src (Node i cs))) (\<lambda>text.
            let sym = make_symbol path parent i name text
            in if n_type i \<in> set class_types
               then bind (extract_children ext src path (Some name) cs) (\<lambda>r. Inr (sym # r))
               else bind (extract_children ext src path parent cs) (\<lambda>r. Inr (sym # r))))
      else extract_children ext src path parent cs)"
| "extract_children ext src path parent [] = Inr []"
| "extract_children ext src path parent (c # cs) =
     bind (extract_definitions ext src path parent c) (\<lambda>a.
     bind (extract_children ext src path parent cs) (\<lambda>b. Inr (a @ b)))"

section \<open>References\<close>

definition called_node :: "node \<Rightarrow> node option" where
  "called_node n = (case child_by_field_name (lit ''function'') n of
     Some f \<Rightarrow> Some f
   | None \<Rightarrow> (case children n of [] \<Rightarrow> None | c # _ \<Rightarrow> Some c))"

definition called_name :: "pystr \<Rightarrow> pystr" where
  "called_name func_text = strip (hd (split_on 40 (last (split_on 46 func_text))))"

definition call_types :: "pystr list" where
  "call_types = [lit ''call'', lit ''call_expression'']"

definition reference_at :: "bytes \<Rightarrow> pystr \<Rightarrow> node \<Rightarrow> reference list" where
  "reference_at src path n =
     (if n_type (info n) \<in> set call_types
      then (case called_node n of None \<Rightarrow> []
        | Some f \<Rightarrow> (let name = called_name (node_text src f)
            in if name = [] then []
               else [\<lparr>ref_symbol_name = name, ref_file_path = path, ref_line = n_start_row (info n),
                      ref_context_line = [], ref_type = lit ''call''\<rparr>]))
      else [])"

fun extract_references :: "bytes \<Rightarrow> pystr \<Rightarrow> node \<Rightarrow> reference list" where
  "extract_references src path (Node i cs) =
     reference_at src path (Node i cs) @ concat (map (extract_references src path) cs)"

definition index_file ::
    "(grammar \<Rightarrow> parser) \<Rightarrow> pystr \<Rightarrow> pystr \<Rightarrow> (symbol list \<times> reference list) outcome" where
  "index_file parse path source =
     (let ext = file_ext path in
      case get_parser parse ext of
        None \<Rightarrow> Inr ([], [])
      | Some p \<Rightarrow> bind (utf8_encode source) (\<lambda>src.
          let root = p src in
          bind (extract_definitions ext src path None root) (\<lambda>symbols.
          Inr (symbols, extract_references src path root))))"

section \<open>A declarative reading\<close>

text \<open>
  The nodes in source order, each with the name of the innermost enclosing named class.
\<close>

definition scope_name :: "pystr \<Rightarrow> bytes \<Rightarrow> pystr option \<Rightarrow> node_info \<Rightarrow> node list \<Rightarrow> pystr option" where
  "scope_name ext src parent i cs =
     (case node_name src cs of
        Inr name \<Rightarrow> if n_type i \<in> set (boundary_types ext) \<and> n_type i \<in> set class_types \<and> name \<noteq> []
                    then Some name else parent
      | Inl e \<Rightarrow> parent)"

fun scoped :: "pystr \<Rightarrow> bytes \<Rightarrow> pystr option \<Rightarrow> node \<Rightarrow> (node \<times> pystr option) list" where
  "scoped ext src parent (Node i cs) =
     (Node i cs, parent) # concat (map (scoped ext src (scope_name ext src parent i cs)) cs)"

definition symbol_at :: "pystr \<Rightarrow> bytes \<Rightarrow> pystr \<Rightarrow> node \<times> pystr option \<Rightarrow> symbol list outcome" where
  "symbol_at ext src path np = (case np of (n, parent) \<Rightarrow>
     if n_type (info n) \<in> set (boundary_types ext) then
       bind (node_name src (children n)) (\<lambda>name.
         if name = [] then Inr []
         else bind (decode_strict (node_bytes src n)) (\<lambda>text.
           Inr [make_symbol path parent (info n) name text]))
     else Inr [])"

fun gather :: "'a list outcome list \<Rightarrow> 'a list outcome" where
  "gather [] = Inr []"
| "gather (r # rs) = bind r (\<lambda>a. bind (gather rs) (\<lambda>b. Inr (a @ b)))"

lemma bind_assoc: "bind (bind r f) g = bind r (\<lambda>x. bind (f x) g)"
  by (cases r) simp_all

lemma bind_Inr_right [simp]: "bind r Inr = r"
  by (cases r) simp_all

lemma gather_append:
  "gather (xs @ ys) = bind (gather xs) (\<lambda>a. bind (gather ys) (\<lambda>b. Inr (a @ b)))"
  by (induction xs) (simp_all add: bind_assoc)

lemma gather_Inr:
  "(\<And>r. r \<in> set rs \<Longrightarrow> \<exists>x. r = Inr x) \<Longrightarrow> \<exists>xs. gather rs = Inr xs"
proof (induction rs)
  case (Cons r rs)
  then obtain x xs where "r = Inr x" "gather rs = Inr xs" by (metis list.set_intros)
  then show ?case by simp
qed simp

lemma extract_is_gather:
  "extract_definitions ext src path parent n = gather (map (symbol_at ext src path) (scoped ext src parent n))"
  "extract_children ext src path parent ns =
     gather (map (symbol_at ext src path) (concat (map (scoped ext src parent) ns)))"
proof (induction ext src path parent n and ext src path parent ns
    rule: extract_definitions_extract_children.induct)
  case (1 ext src path parent i cs)
  show ?case
  proof (cases "n_type i \<in> set (boundary_types ext)")
    case False
    then have "scope_name ext src parent i cs = parent"
      by (simp add: scope_name_def split: sum.split)
    with False 1 show ?thesis by (simp add: symbol_at_def)
  next
    case True
    show ?thesis
    proof (cases "node_name src cs")
      case (Inl e)
      with True show ?thesis by (simp add: symbol_at_def)
    next
      case (Inr name)
      then show ?thesis
        using True 1
        by (cases "decode_strict (node_bytes src (Node i cs))")
          (auto simp: symbol_at_def scope_name_def Let_def)
    qed
  qed
next
  case 3
  then show ?case by (simp add: gather_append bind_assoc)
qed simp

lemma scoped_nodes: "map fst (scoped ext src parent n) = nodes n"
  by (induction ext src parent n rule: scoped.induct)
    (simp add: map_concat comp_def cong: map_cong)


section \<open>Indexing never fails on a parsed text\<close>

definition symbol_of_text :: "pystr \<Rightarrow> pystr \<Rightarrow> pystr \<Rightarrow> symbol \<Rightarrow> bool" where
  "symbol_of_text path ext source x \<longleftrightarrow> sym_file_path x = path
     \<and> sym_kind x \<in> set (boundary_types ext) \<and> sym_name x \<noteq> [] \<and> contains (sym_name x) source
     \<and> contains (sym_signature x) source"

lemma contains_strip_self: "contains (strip s) s"
proof -
  have l: "contains (dropWhile q s) s" for q and s :: pystr
    by (metis append_Nil2 contains_iff takeWhile_dropWhile_id)
  have r: "contains (rev (dropWhile q (rev s))) s" for q and s :: pystr
    by (metis append_Nil contains_iff rev_append rev_rev_ident takeWhile_dropWhile_id)
  show ?thesis
    unfolding strip_def lstrip_def rstrip_def using l r by (blast intro: contains_trans)
qed

lemma contains_hd_split: "contains (hd (split_on c s)) s"
proof -
  have "contains (hd (split_on c s)) (join [c] (split_on c s))"
    by (rule contains_join) simp
  then show ?thesis by (simp add: join_split_on)
qed

lemma contains_last_split: "contains (last (split_on c s)) s"
proof -
  have "contains (last (split_on c s)) (join [c] (split_on c s))"
    by (rule contains_join) simp
  then show ?thesis by (simp add: join_split_on)
qed

lemma aligned_covers: "aligned s t \<Longrightarrow> n \<in> set (nodes t) \<Longrightarrow> \<exists>v. covers s n v"
  by (simp add: aligned_def)

lemma node_name_of_text:
  assumes "aligned s n" and "utf8_encode s = Inr src"
  shows "\<exists>name. node_name src (children n) = Inr name \<and> contains name s"
proof (cases "find (\<lambda>c. n_type (info c) \<in> set name_types) (children n)")
  case None
  then show ?thesis by (simp add: node_name_def)
next
  case (Some c)
  then have "c \<in> set (children n)" by (auto simp: find_Some_iff)
  then have "c \<in> set (nodes n)" by (rule nodes_child) simp
  with assms(1) obtain v where "covers s c v" by (blast dest: aligned_covers)
  with Some covers_text [OF this assms(2)] show ?thesis
    by (auto simp: node_name_def dest: covers_contains)
qed

lemma symbol_at_of_text:
  assumes "aligned s n" and "utf8_encode s = Inr src"
  shows "\<exists>syms. symbol_at ext src path (n, parent) = Inr syms \<and> (\<forall>x \<in> set syms. symbol_of_text path ext s x)"
proof -
  obtain name where name: "node_name src (children n) = Inr name" "contains name s"
    using node_name_of_text [OF assms] by blast
  obtain v where v: "covers s n v" using assms(1) aligned_covers nodes_root by blast
  have "contains (strip (hd (split_on NL v))) s"
    by (meson contains_hd_split contains_strip_self contains_trans covers_contains v)
  with name covers_text [OF v assms(2)] show ?thesis
    by (auto simp: symbol_at_def make_symbol_def symbol_of_text_def)
qed

lemma gather_members:
  "gather rs = Inr xs \<Longrightarrow> x \<in> set xs \<Longrightarrow> \<exists>ys. Inr ys \<in> set rs \<and> x \<in> set ys"
  by (induction rs arbitrary: xs) (fastforce simp: bind_Inr_iff)+

lemma aligned_nodes: "aligned s t \<Longrightarrow> n \<in> set (nodes t) \<Longrightarrow> aligned s n"
proof (induction t)
  case (Node i cs)
  then show ?case by (auto simp: aligned_def)
qed

lemma extract_definitions_of_text:
  assumes "aligned s root" and "utf8_encode s = Inr src"
  shows "\<exists>syms. extract_definitions ext src path None root = Inr syms
    \<and> (\<forall>x \<in> set syms. symbol_of_text path ext s x)"
proof -
  let ?rs = "map (symbol_at ext src path) (scoped ext src None root)"
  have each: "\<exists>syms. r = Inr syms \<and> (\<forall>x \<in> set syms. symbol_of_text path ext s x)" if "r \<in> set ?rs" for r
  proof -
    from that obtain n parent where r: "r = symbol_at ext src path (n, parent)"
      and "(n, parent) \<in> set (scoped ext src None root)" by auto
    then have "n \<in> set (map fst (scoped ext src None root))" by force
    then have "n \<in> set (nodes root)" by (simp only: scoped_nodes)
    with assms(1) have "aligned s n" by (rule aligned_nodes)
    from symbol_at_of_text [OF this assms(2)] r show ?thesis by blast
  qed
  then obtain syms where syms: "gather ?rs = Inr syms" using gather_Inr [of ?rs] by blast
  have "symbol_of_text path ext s x" if "x \<in> set syms" for x
    using gather_members [OF syms that] each by (metis Inr_inject)
  with syms show ?thesis by (auto simp: extract_is_gather)
qed

lemma reference_at_name:
  assumes "r \<in> set (reference_at src path n)"
  shows "\<exists>f. called_node n = Some f \<and> ref_symbol_name r = called_name (node_text src f)"
proof (cases "n_type (info n) \<in> set call_types")
  case False
  with assms show ?thesis by (simp add: reference_at_def)
next
  case True
  show ?thesis
  proof (cases "called_node n")
    case None
    with assms True show ?thesis by (simp add: reference_at_def)
  next
    case (Some f)
    with assms True show ?thesis
      by (cases "called_name (node_text src f) = []") (simp_all add: reference_at_def Let_def)
  qed
qed

lemma reference_at_of_text:
  assumes "aligned s n" and "utf8_encode s = Inr src" and "r \<in> set (reference_at src path n)"
  shows "contains (ref_symbol_name r) s"
proof -
  from reference_at_name [OF assms(3)] obtain f
    where f: "called_node n = Some f" and r: "ref_symbol_name r = called_name (node_text src f)" by blast
  have "f \<in> set (children n)"
  proof (cases "child_by_field_name (lit ''function'') n")
    case None
    with f show ?thesis by (cases "children n") (simp_all add: called_node_def)
  next
    case (Some g)
    with f have "find (\<lambda>c. n_field (info c) = Some (lit ''function'')) (children n) = Some f"
      by (simp add: called_node_def child_by_field_name_def)
    then show ?thesis by (auto simp: find_Some_iff)
  qed
  then have "f \<in> set (nodes n)" by (rule nodes_child) simp
  with assms(1) obtain v where v: "covers s f v" by (blast dest: aligned_covers)
  have "contains (called_name v) v"
    unfolding called_name_def
    by (meson contains_hd_split contains_last_split contains_strip_self contains_trans)
  with v r covers_text(2) [OF v assms(2)] show ?thesis by (metis contains_trans covers_contains)
qed

lemma references_of_text:
  assumes "aligned s root" and "utf8_encode s = Inr src" and "r \<in> set (extract_references src path root)"
  shows "contains (ref_symbol_name r) s"
proof -
  have "\<exists>n \<in> set (nodes root). r \<in> set (reference_at src path n)"
    using assms(3)
  proof (induction root)
    case (Node i cs)
    then consider "r \<in> set (reference_at src path (Node i cs))"
      | c where "c \<in> set cs" "r \<in> set (extract_references src path c)" by auto
    then show ?case using Node.IH by cases force+
  qed
  with assms show ?thesis by (blast intro: reference_at_of_text aligned_nodes)
qed

text \<open>
  Indexing a file never raises when the text can be encoded and the parser's nodes cover whole
  characters of it; what it returns is grounded in the file: every symbol is a boundary node of the file's language
  whose name and signature occur in the source, and every referenced name occurs in the source.
\<close>

theorem index_file_grounded:
  assumes "utf8_encode source = Inr src" and "\<And>g. aligned source (parse g src)"
  shows "\<exists>symbols references. index_file parse path source = Inr (symbols, references)
    \<and> (\<forall>x \<in> set symbols. sym_file_path x = path \<and> sym_kind x \<in> set (boundary_types (file_ext path))
         \<and> contains (sym_name x) source \<and> contains (sym_signature x) source)
    \<and> (\<forall>r \<in> set references. contains (ref_symbol_name r) source)"
proof (cases "languages (file_ext path)")
  case None
  then show ?thesis by (simp add: index_file_def get_parser_def)
next
  case (Some g)
  let ?root = "parse g src"
  obtain syms where "extract_definitions (file_ext path) src path None ?root = Inr syms"
    "\<forall>x \<in> set syms. symbol_of_text path (file_ext path) source x"
    using extract_definitions_of_text [OF assms(2,1)] by blast
  with Some assms(1) references_of_text [OF assms(2,1)] show ?thesis
    by (auto simp: index_file_def get_parser_def symbol_of_text_def)
qed

definition demo_node :: node where
  "demo_node = Node \<lparr>n_type = lit ''module'', n_start_byte = 0, n_end_byte = 0, n_start_row = 0,
     n_end_row = 0, n_field = None, n_has_error = False\<rparr> []"

theorem index_file_grounded_witness:
  "\<exists>symbols references. index_file (\<lambda>_ _. demo_node) (lit ''a.py'') (lit ''x'') = Inr (symbols, references)"
proof -
  have "utf8_encode (lit ''x'') = Inr [120]"
    by (simp add: utf8_encode_def lit_def scalar_def encode_cp_def)
  moreover have "covers (lit ''x'') demo_node []"
    unfolding covers_def demo_node_def
    by (rule exI [where x = "[]"], rule exI [where x = "lit ''x''"]) (simp add: utf8_encode_def)
  then have "aligned (lit ''x'') demo_node"
    unfolding aligned_def by (auto simp: demo_node_def)
  ultimately show ?thesis
    using index_file_grounded [of "lit ''x''" "[120]" "\<lambda>_ _. demo_node" "lit ''a.py''"] by blast
qed

text \<open>
  TypeScript files have a parser but no boundary types, so no symbol is ever extracted from one.
\<close>

theorem typescript_has_no_symbols:
  assumes "file_ext path = lit ''.ts''" and "index_file parse path source = Inr (symbols, references)"
  shows "symbols = []"
proof -
  have none: "boundary_types (lit ''.ts'') = []" by (simp add: boundary_types_def lit_def)
  have "gather (map (symbol_at (lit ''.ts'') src path) xs) = Inr []" for src xs
    by (induction xs) (auto simp: symbol_at_def none)
  with assms show ?thesis
    by (auto simp: index_file_def get_parser_def bind_Inr_iff extract_is_gather Let_def split: option.splits)
qed

end
