(* ===== verification/Graph.thy ===== *)
theory Graph
  imports Tables Indexer
begin

text \<open>
  \<open>app/services/db/graph.py\<close>: the symbols and references of a repository in the database.
  The dictionaries the worker passes are \<open>vars(x)\<close> of the indexer's dataclasses, so they hold
  exactly the fields of the records. The contract of a store keyed by repository is a
  locale, interpreted on the two operations.
\<close>

section \<open>The operations\<close>

definition symbol_row :: "pystr \<Rightarrow> symbol \<Rightarrow> repo_symbol" where
  "symbol_row repo s = \<lparr>rs_repo_full_name = repo, rs_name = sym_name s,
     rs_qualified_name = sym_qualified_name s, rs_kind = sym_kind s, rs_file_path = sym_file_path s,
     rs_start_line = sym_start_line s, rs_end_line = sym_end_line s, rs_signature = sym_signature s,
     rs_parent = sym_parent s\<rparr>"

definition reference_row :: "pystr \<Rightarrow> reference \<Rightarrow> repo_reference" where
  "reference_row repo r = \<lparr>rf_repo_full_name = repo, rf_symbol_name = ref_symbol_name r,
     rf_file_path = ref_file_path r, rf_line = ref_line r, rf_context_line = ref_context_line r,
     rf_ref_type = ref_type r\<rparr>"

definition persist_repo_graph :: "pystr \<Rightarrow> symbol list \<Rightarrow> reference list \<Rightarrow> db \<Rightarrow> db" where
  "persist_repo_graph repo syms refs d = d\<lparr>
     repo_symbols := sql_delete (\<lambda>s. rs_repo_full_name s = repo) (repo_symbols d)
       @ map (symbol_row repo) syms,
     repo_references := sql_delete (\<lambda>r. rf_repo_full_name r = repo) (repo_references d)
       @ map (reference_row repo) refs\<rparr>"

text \<open>A row of the join is the reference with the file that defines the symbol.\<close>

definition get_external_callers :: "pystr \<Rightarrow> pystr list \<Rightarrow> db \<Rightarrow> (repo_reference \<times> pystr) list" where
  "get_external_callers repo symbol_names d =
     concat (map (\<lambda>r. map (\<lambda>s. (r, rs_file_path s))
         (filter (\<lambda>s. rf_symbol_name r = rs_name s \<and> rf_repo_full_name r = rs_repo_full_name s
            \<and> rf_repo_full_name r = repo \<and> rf_symbol_name r \<in> set symbol_names
            \<and> rf_file_path r \<noteq> rs_file_path s) (repo_symbols d)))
       (repo_references d))"

section \<open>A store keyed by repository\<close>

locale keyed_store =
  fixes put :: "'k \<Rightarrow> 'v \<Rightarrow> 's \<Rightarrow> 's"
    and get :: "'k \<Rightarrow> 's \<Rightarrow> 'v"
  assumes get_put_same: "get k (put k v s) = v"
    and get_put_other: "k' \<noteq> k \<Longrightarrow> get k' (put k v s) = get k' s"
begin

lemma get_puts:
  "get k (foldl (\<lambda>s w. put (fst w) (snd w) s) s ws) =
     (if filter (\<lambda>w. fst w = k) ws = [] then get k s else snd (last (filter (\<lambda>w. fst w = k) ws)))"
proof (induction ws rule: rev_induct)
  case (snoc w ws)
  then show ?case by (cases "fst w = k") (simp_all add: get_put_same get_put_other)
qed simp

end

definition row_symbol :: "repo_symbol \<Rightarrow> symbol" where
  "row_symbol s = \<lparr>sym_name = rs_name s, sym_qualified_name = rs_qualified_name s, sym_kind = rs_kind s,
     sym_file_path = rs_file_path s, sym_start_line = rs_start_line s, sym_end_line = rs_end_line s,
     sym_signature = rs_signature s, sym_parent = rs_parent s\<rparr>"

definition row_reference :: "repo_reference \<Rightarrow> reference" where
  "row_reference r = \<lparr>ref_symbol_name = rf_symbol_name r, ref_file_path = rf_file_path r,
     ref_line = rf_line r, ref_context_line = rf_context_line r, ref_type = rf_ref_type r\<rparr>"

definition read_graph :: "pystr \<Rightarrow> db \<Rightarrow> symbol list \<times> reference list" where
  "read_graph repo d =
     (map row_symbol (filter (\<lambda>s. rs_repo_full_name s = repo) (repo_symbols d)),
      map row_reference (filter (\<lambda>r. rf_repo_full_name r = repo) (repo_references d)))"

definition put_graph :: "pystr \<Rightarrow> symbol list \<times> reference list \<Rightarrow> db \<Rightarrow> db" where
  "put_graph repo g = persist_repo_graph repo (fst g) (snd g)"

lemma row_symbol_row [simp]: "row_symbol (symbol_row repo s) = s"
  by (simp add: row_symbol_def symbol_row_def)

lemma row_reference_row [simp]: "row_reference (reference_row repo r) = r"
  by (simp add: row_reference_def reference_row_def)

lemma rows_repo [simp]:
  "rs_repo_full_name (symbol_row repo s) = repo" "rf_repo_full_name (reference_row repo r) = repo"
  by (simp_all add: symbol_row_def reference_row_def)

interpretation graph: keyed_store put_graph read_graph
proof
  show "read_graph k (put_graph k v s) = v" for k v s
    by (simp add: read_graph_def put_graph_def persist_repo_graph_def sql_delete_def comp_def)
  show "read_graph k' (put_graph k v s) = read_graph k' s" if "k' \<noteq> k" for k k' v s
    using that
    by (auto simp: read_graph_def put_graph_def persist_repo_graph_def sql_delete_def comp_def
        intro!: arg_cong [where f = "map _"] filter_cong)
qed

text \<open>
  The stored graph of a repository is what the last call wrote, entirely: after any
  sequence of writes, reading a repository yields the symbols and references of its last write, in
  order, and nothing of any earlier one; repositories that were not written keep theirs.
\<close>

theorem graph_is_last_write:
  "read_graph repo (foldl (\<lambda>d w. persist_repo_graph (fst w) (fst (snd w)) (snd (snd w)) d) d writes) =
     (if filter (\<lambda>w. fst w = repo) writes = [] then read_graph repo d
      else snd (last (filter (\<lambda>w. fst w = repo) writes)))"
  using graph.get_puts [of repo d writes] by (simp add: put_graph_def)

lemma callers_iff:
  "(r, f) \<in> set (get_external_callers repo names d) \<longleftrightarrow>
     (r \<in> set (repo_references d) \<and> rf_repo_full_name r = repo) \<and> rf_symbol_name r \<in> set names
     \<and> rf_file_path r \<noteq> f
     \<and> (\<exists>s. (s \<in> set (repo_symbols d) \<and> rs_repo_full_name s = repo)
          \<and> rs_name s = rf_symbol_name r \<and> rs_file_path s = f)"
  unfolding get_external_callers_def by (auto simp: image_iff)

lemma row_fields [simp]:
  "rs_name (symbol_row repo s) = sym_name s" "rs_file_path (symbol_row repo s) = sym_file_path s"
  "rf_symbol_name (reference_row repo r) = ref_symbol_name r"
  "rf_file_path (reference_row repo r) = ref_file_path r"
  by (simp_all add: symbol_row_def reference_row_def)

lemma persisted_rows:
  "s \<in> set (repo_symbols (persist_repo_graph repo syms refs d)) \<and> rs_repo_full_name s = repo
     \<longleftrightarrow> (\<exists>x \<in> set syms. s = symbol_row repo x)"
  "r \<in> set (repo_references (persist_repo_graph repo syms refs d)) \<and> rf_repo_full_name r = repo
     \<longleftrightarrow> (\<exists>x \<in> set refs. r = reference_row repo x)"
  by (auto simp: persist_repo_graph_def)

text \<open>
  The callers read back from a stored graph are exactly its cross-file references: a
  stored reference to one of the names, paired with each file other than its own that defines a symbol
  of that name in the same repository. Graphs of other repositories never contribute.
\<close>

theorem external_callers_of_stored_graph:
  "set (get_external_callers repo names (persist_repo_graph repo syms refs d)) =
     {(reference_row repo r, sym_file_path s) |r s. r \<in> set refs \<and> s \<in> set syms
        \<and> ref_symbol_name r \<in> set names \<and> sym_name s = ref_symbol_name r
        \<and> ref_file_path r \<noteq> sym_file_path s}"
proof (intro subset_antisym subrelI)
  fix r f assume "(r, f) \<in> set (get_external_callers repo names (persist_repo_graph repo syms refs d))"
  then obtain x y where "x \<in> set refs" "r = reference_row repo x" "y \<in> set syms" "f = sym_file_path y"
    "ref_symbol_name x \<in> set names" "sym_name y = ref_symbol_name x" "ref_file_path x \<noteq> sym_file_path y"
    unfolding callers_iff persisted_rows by auto
  then show "(r, f) \<in> {(reference_row repo r, sym_file_path s) |r s. r \<in> set refs \<and> s \<in> set syms
        \<and> ref_symbol_name r \<in> set names \<and> sym_name s = ref_symbol_name r
        \<and> ref_file_path r \<noteq> sym_file_path s}" by blast
next
  fix r f assume "(r, f) \<in> {(reference_row repo r, sym_file_path s) |r s. r \<in> set refs \<and> s \<in> set syms
        \<and> ref_symbol_name r \<in> set names \<and> sym_name s = ref_symbol_name r
        \<and> ref_file_path r \<noteq> sym_file_path s}"
  then show "(r, f) \<in> set (get_external_callers repo names (persist_repo_graph repo syms refs d))"
    unfolding callers_iff persisted_rows by auto
qed

end
