(* ===== verification/DiffLines.thy ===== *)
theory DiffLines
  imports PyStr
begin

text \<open>
  \<open>parse_changed_lines\<close> and \<open>HUNK_HEADER_RE\<close> of \<open>app/services/ai.py\<close>, with a model of
  the unified diff format it reads: on every rendered list of hunks the routine returns exactly
  the new-file lines the hunks touch.
\<close>

section \<open>The hunk header\<close>

text \<open>
  The regular expression is deterministic: after a run of decimal digits only a comma or a
  blank can follow, so no backtracking changes the match. \<open>hunk_start\<close> yields group 1 read by \<open>int\<close>.
\<close>

definition is_dec :: "int \<Rightarrow> bool" where
  "is_dec c \<longleftrightarrow> digit_val c \<noteq> None"

definition expect :: "pystr \<Rightarrow> pystr \<Rightarrow> pystr option" where
  "expect p s = (if starts p s then Some (drop (length p) s) else None)"

definition digits1 :: "pystr \<Rightarrow> (pystr \<times> pystr) option" where
  "digits1 s = (let d = takeWhile is_dec s in if d = [] then None else Some (d, dropWhile is_dec s))"

definition opt_count :: "pystr \<Rightarrow> pystr" where
  "opt_count s = (case s of [] \<Rightarrow> []
     | c # t \<Rightarrow> if c = 44 then (case digits1 t of None \<Rightarrow> s | Some (d, r) \<Rightarrow> r) else s)"

definition hunk_start :: "pystr \<Rightarrow> int option" where
  "hunk_start raw =
     Option.bind (expect (lit ''@@ -'') raw) (\<lambda>s.
     Option.bind (digits1 s) (\<lambda>(_, s).
     Option.bind (expect (lit '' +'') (opt_count s)) (\<lambda>s.
     Option.bind (digits1 s) (\<lambda>(d, s).
     Option.bind (expect (lit '' @@'') (opt_count s)) (\<lambda>_. py_int d)))))"

section \<open>The loop over the lines\<close>

definition changed_step :: "int set \<times> int \<Rightarrow> pystr \<Rightarrow> int set \<times> int" where
  "changed_step st raw = (case st of (changed, line_no) \<Rightarrow>
     (case hunk_start raw of
        Some n \<Rightarrow> (changed, n)
      | None \<Rightarrow>
         (case raw of [] \<Rightarrow> (changed, line_no)
          | marker # _ \<Rightarrow>
             if marker = 43 then (insert line_no changed, line_no + 1)
             else if marker = 45 then (insert line_no changed, line_no)
             else if marker = 32 then (changed, line_no + 1)
             else (changed, line_no))))"

definition parse_changed_lines :: "pystr \<Rightarrow> int set" where
  "parse_changed_lines patch = fst (foldl changed_step ({}, 0) (splitlines patch))"

section \<open>The unified diff format\<close>

datatype diff_line = Ctx pystr | Add pystr | Del pystr | NoEol

record hunk =
  old_start :: int
  old_count :: "int option"
  new_start :: int
  new_count :: "int option"
  hunk_section :: pystr
  hunk_lines :: "diff_line list"

fun render_line :: "diff_line \<Rightarrow> pystr" where
  "render_line (Ctx s) = 32 # s"
| "render_line (Add s) = 43 # s"
| "render_line (Del s) = 45 # s"
| "render_line NoEol = 92 # lit '' No newline at end of file''"

definition render_count :: "int option \<Rightarrow> pystr" where
  "render_count c = (case c of None \<Rightarrow> [] | Some n \<Rightarrow> 44 # str_int n)"

definition render_header :: "hunk \<Rightarrow> pystr" where
  "render_header h = lit ''@@ -'' @ str_int (old_start h) @ render_count (old_count h) @ lit '' +''
     @ str_int (new_start h) @ render_count (new_count h) @ lit '' @@'' @ hunk_section h"

definition render_hunk :: "hunk \<Rightarrow> pystr list" where
  "render_hunk h = render_header h # map render_line (hunk_lines h)"

definition render_patch :: "hunk list \<Rightarrow> pystr" where
  "render_patch hs = concat (map (\<lambda>l. l @ [NL]) (concat (map render_hunk hs)))"

fun diff_text :: "diff_line \<Rightarrow> pystr" where
  "diff_text (Ctx s) = s" | "diff_text (Add s) = s" | "diff_text (Del s) = s" | "diff_text NoEol = []"

definition hunk_ok :: "hunk \<Rightarrow> bool" where
  "hunk_ok h \<longleftrightarrow> 0 \<le> old_start h \<and> 0 \<le> new_start h
     \<and> (\<forall>n. old_count h = Some n \<longrightarrow> 0 \<le> n) \<and> (\<forall>n. new_count h = Some n \<longrightarrow> 0 \<le> n)
     \<and> one_line (hunk_section h) \<and> list_all (\<lambda>l. one_line (diff_text l)) (hunk_lines h)"

text \<open>
  What a hunk touches, stated on positions: the line number at position \<open>i\<close> is the start
  of the hunk plus the number of new-file lines (context and additions) before it.
\<close>

fun in_new :: "diff_line \<Rightarrow> bool" where
  "in_new (Ctx s) = True" | "in_new (Add s) = True" | "in_new _ = False"

fun is_edit :: "diff_line \<Rightarrow> bool" where
  "is_edit (Add s) = True" | "is_edit (Del s) = True" | "is_edit _ = False"

definition line_at :: "hunk \<Rightarrow> nat \<Rightarrow> int" where
  "line_at h i = new_start h + int (length (filter in_new (take i (hunk_lines h))))"

definition touched_lines :: "hunk \<Rightarrow> int set" where
  "touched_lines h = {line_at h i |i. i < length (hunk_lines h) \<and> is_edit (hunk_lines h ! i)}"

section \<open>Reading back a rendered patch\<close>

lemma is_dec_ascii: "48 \<le> c \<Longrightarrow> c \<le> 57 \<Longrightarrow> is_dec c"
  by (simp add: is_dec_def)

lemma not_dec_low: "c < 48 \<Longrightarrow> \<not> is_dec c"
  by (simp add: is_dec_def digit_val_low)

lemma digits1_str_int:
  assumes "0 \<le> n" and "\<And>c t. r = c # t \<Longrightarrow> \<not> is_dec c"
  shows "digits1 (str_int n @ r) = Some (str_int n, r)"
proof -
  have all: "\<forall>c \<in> set (str_int n). is_dec c"
    using assms(1) by (auto simp: str_int_def dest: digits_of_range intro: is_dec_ascii)
  have "takeWhile is_dec (str_int n @ r) = str_int n" "dropWhile is_dec (str_int n @ r) = r"
    using all assms(2) by (cases r; simp add: takeWhile_append dropWhile_append)+
  moreover have "str_int n \<noteq> []" using assms(1) by (simp add: str_int_def)
  ultimately show ?thesis by (simp add: digits1_def)
qed

lemma opt_count_render:
  assumes "\<forall>n. c = Some n \<longrightarrow> 0 \<le> n" and "r = 32 # t"
  shows "opt_count (render_count c @ r) = r"
proof (cases c)
  case (Some n)
  then have "digits1 (str_int n @ r) = Some (str_int n, r)"
    using assms by (intro digits1_str_int) (auto simp: not_dec_low)
  with Some show ?thesis by (simp add: render_count_def opt_count_def)
qed (simp add: assms(2) render_count_def opt_count_def)

lemma starts_append [simp]: "starts p (p @ s)"
  by (simp add: starts_def)

lemma expect_append [simp]: "expect p (p @ s) = Some s"
  by (simp add: expect_def)

lemma hunk_start_header: "hunk_ok h \<Longrightarrow> hunk_start (render_header h) = Some (new_start h)"
proof -
  assume ok: "hunk_ok h"
  let ?tail = "lit '' @@'' @ hunk_section h"
  let ?new = "str_int (new_start h) @ render_count (new_count h) @ ?tail"
  have head: "\<not> is_dec c" if "render_count k @ 32 # s = c # t" for k s c t
    using that by (cases k) (auto simp: render_count_def not_dec_low)
  have blank: "lit '' +'' @ s = 32 # 43 # s" "lit '' @@'' @ s = 32 # 64 # 64 # s" for s
    by (simp_all add: lit_def)
  have d1: "digits1 (str_int (old_start h) @ render_count (old_count h) @ lit '' +'' @ ?new)
      = Some (str_int (old_start h), render_count (old_count h) @ lit '' +'' @ ?new)"
    using ok head unfolding blank by (intro digits1_str_int) (auto simp: hunk_ok_def)
  have d2: "digits1 ?new = Some (str_int (new_start h), render_count (new_count h) @ ?tail)"
    using ok head unfolding blank by (intro digits1_str_int) (auto simp: hunk_ok_def)
  have c1: "opt_count (render_count (old_count h) @ lit '' +'' @ ?new) = lit '' +'' @ ?new"
    using ok unfolding blank by (intro opt_count_render) (auto simp: hunk_ok_def)
  have c2: "opt_count (render_count (new_count h) @ ?tail) = ?tail"
    using ok unfolding blank by (intro opt_count_render) (auto simp: hunk_ok_def)
  show ?thesis
    by (simp add: hunk_start_def render_header_def d1 d2 c1 c2 py_int_str_int)
qed

lemma hunk_start_line: "hunk_start (render_line l) = None"
  by (cases l) (simp_all add: hunk_start_def expect_def starts_def lit_def)

lemma changed_step_render:
  "changed_step (C, n) (render_line l) =
     (if is_edit l then insert n C else C, n + (if in_new l then 1 else 0))"
  using hunk_start_line [of l] by (cases l) (simp_all add: changed_step_def)

lemma touched_Cons:
  "touched_lines (h\<lparr>hunk_lines := l # ls\<rparr>) = (if is_edit l then {new_start h} else {})
     \<union> touched_lines (h\<lparr>new_start := new_start h + (if in_new l then 1 else 0), hunk_lines := ls\<rparr>)"
  (is "?lhs = ?rhs")
proof -
  let ?h = "h\<lparr>hunk_lines := l # ls\<rparr>"
  let ?t = "h\<lparr>new_start := new_start h + (if in_new l then 1 else 0), hunk_lines := ls\<rparr>"
  have at: "line_at ?h 0 = new_start h" "line_at ?h (Suc i) = line_at ?t i" for i
    by (simp_all add: line_at_def)
  have "x \<in> ?lhs \<longleftrightarrow> x \<in> ?rhs" for x
  proof
    assume "x \<in> ?lhs"
    then obtain i where "x = line_at ?h i" "i < length (l # ls)" "is_edit ((l # ls) ! i)"
      by (auto simp: touched_lines_def)
    then show "x \<in> ?rhs" by (cases i) (auto simp: at touched_lines_def)
  next
    assume "x \<in> ?rhs"
    then consider "is_edit l" "x = line_at ?h 0"
      | i where "i < length ls" "is_edit (ls ! i)" "x = line_at ?h (Suc i)"
      by (auto simp: at touched_lines_def split: if_splits)
    then show "x \<in> ?lhs"
      by cases (force simp: touched_lines_def)+
  qed
  then show ?thesis by blast
qed

lemma changed_lines_hunk:
  "foldl changed_step (C, n) (map render_line ls) =
     (C \<union> touched_lines (h\<lparr>new_start := n, hunk_lines := ls\<rparr>),
      n + int (length (filter in_new ls)))"
proof (induction ls arbitrary: C n)
  case Nil
  show ?case by (simp add: touched_lines_def)
next
  case (Cons l ls)
  show ?case
    using touched_Cons [where h = "h\<lparr>new_start := n\<rparr>" and l = l and ls = ls]
    by (simp add: changed_step_render Cons.IH)
qed

lemma one_line_str_int: "one_line (str_int n)"
proof -
  have "\<not> is_line_break c" if "c \<in> set (str_int n)" for c
    using that digits_of_range [of n c] digits_of_range [of "- n" c]
    by (auto simp: str_int_def is_line_break_def split: if_splits)
  then show ?thesis by (simp add: one_line_def list_all_iff)
qed

lemma one_line_simps [simp]:
  "one_line []" "one_line (c # s) \<longleftrightarrow> \<not> is_line_break c \<and> one_line s"
  "one_line (s @ t) \<longleftrightarrow> one_line s \<and> one_line t"
  by (simp_all add: one_line_def)

lemma one_line_render:
  assumes "hunk_ok h" and "l \<in> set (render_hunk h)"
  shows "one_line l"
proof -
  have "one_line (render_line d)" if "d \<in> set (hunk_lines h)" for d
    using assms(1) that by (cases d) (auto simp: hunk_ok_def list_all_iff is_line_break_def lit_def)
  moreover have "one_line (render_header h)"
    using assms(1)
    by (auto simp: render_header_def hunk_ok_def one_line_str_int render_count_def lit_def
        is_line_break_def split: option.split)
  ultimately show ?thesis using assms(2) by (auto simp: render_hunk_def)
qed

lemma changed_lines_hunks:
  assumes "\<forall>h \<in> set hs. hunk_ok h"
  shows "fst (foldl changed_step (C, n) (concat (map render_hunk hs))) = C \<union> (\<Union>h \<in> set hs. touched_lines h)"
  using assms
proof (induction hs arbitrary: C n)
  case (Cons h hs)
  have "changed_step (C, n) (render_header h) = (C, new_start h)"
    using Cons.prems by (simp add: changed_step_def hunk_start_header)
  then show ?case
    using Cons changed_lines_hunk [of C "new_start h" "hunk_lines h" h]
    by (simp add: render_hunk_def Un_assoc)
qed simp

lemma parse_changed_lines_rendered:
  assumes "\<forall>h \<in> set hs. hunk_ok h"
  shows "parse_changed_lines (render_patch hs) = (\<Union>h \<in> set hs. touched_lines h)"
proof -
  have "splitlines (render_patch hs) = concat (map render_hunk hs)"
    unfolding render_patch_def
    by (rule splitlines_unlines) (use assms in \<open>auto intro: one_line_render\<close>)
  then show ?thesis
    using changed_lines_hunks [OF assms, of "{}" 0] by (simp add: parse_changed_lines_def)
qed


definition demo_hunk :: hunk where
  "demo_hunk = \<lparr>old_start = 3, old_count = Some 2, new_start = 3, new_count = Some 3, hunk_section = [],
     hunk_lines = [Ctx (lit ''a''), Del (lit ''b''), Add (lit ''+c''), Add (lit ''@@'')]\<rparr>"


text \<open>
  The restriction matters: \<open>splitlines\<close> also cuts at a form feed or a Unicode line separator inside a
  source line, and a remainder that starts with a blank is counted as one more line. Here only
  the second line of the new file is added.
\<close>

theorem form_feed_shifts_lines:
  "parse_changed_lines (lit ''@@ -1 +1,2 @@'' @ [NL, 32, 97, 12, 32, 98, NL, 43, 99, NL]) = {3}"
proof -
  have "splitlines (lit ''@@ -1 +1,2 @@'' @ [NL, 32, 97, 12, 32, 98, NL, 43, 99, NL])
      = [lit ''@@ -1 +1,2 @@'', [32, 97], [32, 98], [43, 99]]"
    by (simp add: splitlines_def lit_def is_line_break_def)
  moreover have "hunk_start (lit ''@@ -1 +1,2 @@'') = Some 1"
    using hunk_start_header [of "\<lparr>old_start = 1, old_count = None, new_start = 1, new_count = Some 2,
      hunk_section = [], hunk_lines = []\<rparr>"]
    by (simp add: render_header_def render_count_def hunk_ok_def one_line_def str_int_def lit_def digits_of.simps)
  moreover have "hunk_start (32 # s) = None" "hunk_start (43 # s) = None" for s
    using hunk_start_line [of "Ctx s"] hunk_start_line [of "Add s"] by simp_all
  ultimately show ?thesis by (simp add: parse_changed_lines_def changed_step_def)
qed

end
