(* ===== verification/Chunker.thy ===== *)
theory Chunker
  imports DiffLines SyntaxTree
begin

text \<open>
  \<open>_chunk_by_ast\<close> and \<open>_chunk_changed_nodes\<close> of \<open>app/services/ai.py\<close>: a file as chunks of
  text for the agents, scoped to the syntax nodes a patch touches when there is one.
\<close>

section \<open>Budget and texts\<close>

definition max_chunk_tokens :: int where
  "max_chunk_tokens = 28000"

definition estimate_tokens :: "pystr \<Rightarrow> int" where
  "estimate_tokens text = int (length text) div 4"

definition file_header :: "pystr \<Rightarrow> pystr" where
  "file_header path = lit ''FILE: '' @ path"

definition skip_note :: "pystr \<Rightarrow> pystr \<Rightarrow> int \<Rightarrow> pystr" where
  "skip_note path typ tokens = lit ''### [SKIP] '' @ path @ lit '' - unit '' @ typ
     @ lit '' too large for review ('' @ str_int tokens @ lit '' tokens)''"

definition touched :: "int set \<Rightarrow> node \<Rightarrow> bool" where
  "touched changed n \<longleftrightarrow>
     (\<exists>line \<in> changed. n_start_row (info n) + 1 \<le> line \<and> line \<le> n_end_row (info n) + 1)"

section \<open>Scoped chunking\<close>

record packing =
  pk_chunks :: "pystr list"
  pk_pending :: "pystr list"
  pk_tokens :: int

definition flush :: "pystr \<Rightarrow> packing \<Rightarrow> packing" where
  "flush path st = (if pk_pending st = [] then st
     else \<lparr>pk_chunks = pk_chunks st @ [file_header path @ [NL] @ join [NL, NL] (pk_pending st)],
           pk_pending = [], pk_tokens = 0\<rparr>)"

definition add_text :: "pystr \<Rightarrow> pystr \<Rightarrow> packing \<Rightarrow> packing" where
  "add_text path text st =
     (let tokens = estimate_tokens text;
          st = (if pk_pending st \<noteq> [] \<and> max_chunk_tokens < pk_tokens st + tokens then flush path st else st)
      in st\<lparr>pk_pending := pk_pending st @ [text], pk_tokens := pk_tokens st + tokens\<rparr>)"

definition add_note :: "pystr \<Rightarrow> pystr \<Rightarrow> packing \<Rightarrow> packing" where
  "add_note path note st = (let st = flush path st in st\<lparr>pk_chunks := pk_chunks st @ [note]\<rparr>)"

text \<open>The header of a class (up to its body) and the touched members of the body.\<close>

definition class_header :: "bytes \<Rightarrow> node \<Rightarrow> node \<Rightarrow> pystr" where
  "class_header src n body =
     rstrip (decode_replace (slice (n_start_byte (info n)) (n_start_byte (info body)) src))"

definition touched_members :: "pystr list \<Rightarrow> int set \<Rightarrow> node \<Rightarrow> node list" where
  "touched_members bts changed body =
     filter (\<lambda>m. n_type (info m) \<in> set bts \<and> touched changed m) (children body)"

definition oversized :: "bytes \<Rightarrow> node \<Rightarrow> bool" where
  "oversized src n \<longleftrightarrow> max_chunk_tokens < estimate_tokens (node_text src n)"

definition add_whole :: "pystr \<Rightarrow> bytes \<Rightarrow> node \<Rightarrow> packing \<Rightarrow> packing" where
  "add_whole path src n st =
     (if oversized src n
      then add_note path (skip_note path (n_type (info n)) (estimate_tokens (node_text src n))) st
      else add_text path (node_text src n) st)"

definition scoped_step ::
    "pystr \<Rightarrow> bytes \<Rightarrow> pystr list \<Rightarrow> int set \<Rightarrow> packing \<Rightarrow> node \<Rightarrow> packing" where
  "scoped_step path src bts changed st n =
     (if \<not> touched changed n then st
      else if n_type (info n) \<in> set class_types \<and> oversized src n then
        (case child_by_field_name (lit ''body'') n of
           None \<Rightarrow> add_whole path src n st
         | Some body \<Rightarrow>
             (case touched_members bts changed body of
                [] \<Rightarrow> add_whole path src n st
              | m # ms \<Rightarrow> foldl (\<lambda>st m. add_text path (class_header src n body @ [NL] @ node_text src m) st)
                           st (m # ms)))
      else add_whole path src n st)"

definition chunk_changed_nodes ::
    "pystr \<Rightarrow> node \<Rightarrow> bytes \<Rightarrow> pystr list \<Rightarrow> int set \<Rightarrow> pystr list" where
  "chunk_changed_nodes path root src bts changed =
     (if n_has_error (info root) then []
      else pk_chunks (flush path (foldl (scoped_step path src bts changed)
             \<lparr>pk_chunks = [], pk_pending = [], pk_tokens = 0\<rparr> (children root))))"

section \<open>Whole-file chunking\<close>

record filling =
  fl_chunks :: "pystr list"
  fl_current :: "pystr list"
  fl_tokens :: int

definition class_member_chunks :: "pystr \<Rightarrow> bytes \<Rightarrow> pystr list \<Rightarrow> node \<Rightarrow> pystr list" where
  "class_member_chunks path src bts n =
     (if n_type (info n) \<in> set class_types
      then (case child_by_field_name (lit ''body'') n of
              None \<Rightarrow> []
            | Some body \<Rightarrow> map (\<lambda>m. file_header path @ [NL] @ node_text src m)
                (filter (\<lambda>m. n_type (info m) \<in> set bts) (children body)))
      else [])"

definition whole_step :: "pystr \<Rightarrow> bytes \<Rightarrow> pystr list \<Rightarrow> filling \<Rightarrow> node \<Rightarrow> filling" where
  "whole_step path src bts st n =
     (let text = node_text src n; tokens = estimate_tokens text in
      if n_type (info n) \<in> set bts then
        if max_chunk_tokens < tokens then
          (let members = class_member_chunks path src bts n in
           st\<lparr>fl_chunks := fl_chunks st @
               (if members \<noteq> [] then members else [skip_note path (n_type (info n)) tokens])\<rparr>)
        else if max_chunk_tokens < fl_tokens st + tokens
        then \<lparr>fl_chunks = fl_chunks st @ [join [NL] (fl_current st)],
              fl_current = [file_header path, text], fl_tokens = tokens\<rparr>
        else st\<lparr>fl_current := fl_current st @ [text], fl_tokens := fl_tokens st + tokens\<rparr>
      else st\<lparr>fl_current := fl_current st @ [text], fl_tokens := fl_tokens st + tokens\<rparr>)"

definition chunk_whole :: "pystr \<Rightarrow> node \<Rightarrow> bytes \<Rightarrow> pystr list \<Rightarrow> pystr list" where
  "chunk_whole path root src bts =
     (let st = foldl (whole_step path src bts)
                 \<lparr>fl_chunks = [], fl_current = [file_header path], fl_tokens = 0\<rparr> (children root)
      in if 1 < length (fl_current st) then fl_chunks st @ [join [NL] (fl_current st)]
         else fl_chunks st)"

definition chunk_by_ast ::
    "(grammar \<Rightarrow> parser) \<Rightarrow> pystr \<Rightarrow> pystr \<Rightarrow> pystr \<Rightarrow> pystr list outcome" where
  "chunk_by_ast parse path source patch =
     (let ext = file_ext path in
      case get_parser parse ext of
        None \<Rightarrow> Inr [file_header path @ [NL] @ source]
      | Some p \<Rightarrow> bind (utf8_encode source) (\<lambda>src.
          let root = p src; bts = boundary_types ext;
              changed = (if patch \<noteq> [] then parse_changed_lines patch else {});
              scoped = (if changed \<noteq> {} then chunk_changed_nodes path root src bts changed else [])
          in Inr (if scoped \<noteq> [] then scoped else chunk_whole path root src bts)))"

section \<open>What scoped chunking packs\<close>

text \<open>
  The items a node contributes, and the packing of a list of items: an abstract
  description of the loop, which the loop refines.
\<close>

datatype item = Text pystr | Note pystr

definition whole_item :: "pystr \<Rightarrow> bytes \<Rightarrow> node \<Rightarrow> item" where
  "whole_item path src n = (if oversized src n
     then Note (skip_note path (n_type (info n)) (estimate_tokens (node_text src n)))
     else Text (node_text src n))"

definition member_items :: "bytes \<Rightarrow> pystr list \<Rightarrow> int set \<Rightarrow> node \<Rightarrow> item list" where
  "member_items src bts changed n =
     (if n_type (info n) \<in> set class_types \<and> oversized src n
      then (case child_by_field_name (lit ''body'') n of None \<Rightarrow> []
            | Some body \<Rightarrow> map (\<lambda>m. Text (class_header src n body @ [NL] @ node_text src m))
                (touched_members bts changed body))
      else [])"

definition node_items :: "pystr \<Rightarrow> bytes \<Rightarrow> pystr list \<Rightarrow> int set \<Rightarrow> node \<Rightarrow> item list" where
  "node_items path src bts changed n =
     (if \<not> touched changed n then []
      else if member_items src bts changed n \<noteq> [] then member_items src bts changed n
      else [whole_item path src n])"

fun pack_item :: "pystr \<Rightarrow> packing \<Rightarrow> item \<Rightarrow> packing" where
  "pack_item path st (Text t) = add_text path t st"
| "pack_item path st (Note n) = add_note path n st"

lemma add_whole_item: "add_whole path src n st = pack_item path st (whole_item path src n)"
  by (simp add: add_whole_def whole_item_def)

lemma scoped_step_items:
  "scoped_step path src bts changed st n = foldl (pack_item path) st (node_items path src bts changed n)"
proof (cases "touched changed n \<and> n_type (info n) \<in> set class_types \<and> oversized src n")
  case False
  then show ?thesis
    by (auto simp: scoped_step_def node_items_def member_items_def add_whole_item)
next
  case True
  show ?thesis
  proof (cases "child_by_field_name (lit ''body'') n")
    case None
    with True show ?thesis
      by (simp add: scoped_step_def node_items_def member_items_def add_whole_item)
  next
    case (Some body)
    with True show ?thesis
      by (cases "touched_members bts changed body")
        (simp_all add: scoped_step_def node_items_def member_items_def add_whole_item foldl_map)
  qed
qed

lemma chunk_changed_nodes_items:
  "\<not> n_has_error (info root) \<Longrightarrow> chunk_changed_nodes path root src bts changed =
     pk_chunks (flush path (foldl (pack_item path) \<lparr>pk_chunks = [], pk_pending = [], pk_tokens = 0\<rparr>
       (concat (map (node_items path src bts changed) (children root)))))"
proof -
  have "foldl (scoped_step path src bts changed) st ns
      = foldl (pack_item path) st (concat (map (node_items path src bts changed) ns))" for st ns
    by (induction ns arbitrary: st) (simp_all add: scoped_step_items)
  then show "\<not> n_has_error (info root) \<Longrightarrow> ?thesis" by (simp add: chunk_changed_nodes_def)
qed

section \<open>The packing is an ordered partition within the budget\<close>

text \<open>
  Every chunk is a group of consecutive items: a note on its own, or texts joined under the
  file header. A group of several texts stays within the budget.
\<close>

definition text_tokens :: "pystr list \<Rightarrow> int" where
  "text_tokens ts = sum_list (map estimate_tokens ts)"

definition render_texts :: "pystr \<Rightarrow> pystr list \<Rightarrow> pystr" where
  "render_texts path ts = file_header path @ [NL] @ join [NL, NL] ts"

definition group_ok :: "pystr list \<Rightarrow> bool" where
  "group_ok ts \<longleftrightarrow> ts \<noteq> [] \<and> (text_tokens ts \<le> max_chunk_tokens \<or> length ts = 1)"

inductive chunks_of :: "pystr \<Rightarrow> pystr list \<Rightarrow> item list \<Rightarrow> bool" for path where
  no_chunks: "chunks_of path [] []"
| note_chunk: "chunks_of path cs its \<Longrightarrow> chunks_of path (cs @ [n]) (its @ [Note n])"
| text_chunk: "chunks_of path cs its \<Longrightarrow> group_ok ts \<Longrightarrow>
     chunks_of path (cs @ [render_texts path ts]) (its @ map Text ts)"

definition pack_inv :: "pystr \<Rightarrow> packing \<Rightarrow> item list \<Rightarrow> bool" where
  "pack_inv path st its \<longleftrightarrow> (\<exists>past. chunks_of path (pk_chunks st) past
     \<and> its = past @ map Text (pk_pending st)) \<and> pk_tokens st = text_tokens (pk_pending st)
     \<and> (pk_pending st = [] \<or> group_ok (pk_pending st))"

lemma pack_inv_flush:
  assumes "pack_inv path st its"
  shows "pack_inv path (flush path st) its" and "pk_pending (flush path st) = []"
    and "chunks_of path (pk_chunks (flush path st)) its"
proof -
  from assms obtain past where d: "chunks_of path (pk_chunks st) past" "its = past @ map Text (pk_pending st)"
    and ok: "pk_pending st = [] \<or> group_ok (pk_pending st)" by (auto simp: pack_inv_def)
  show pending: "pk_pending (flush path st) = []" by (simp add: flush_def)
  show chunks: "chunks_of path (pk_chunks (flush path st)) its"
  proof (cases "pk_pending st = []")
    case True
    with d show ?thesis by (simp add: flush_def)
  next
    case False
    with d ok show ?thesis
      using text_chunk [OF d(1)] by (simp add: flush_def render_texts_def)
  qed
  have "pk_tokens (flush path st) = 0"
    using assms by (simp add: flush_def pack_inv_def text_tokens_def)
  with pending chunks show "pack_inv path (flush path st) its"
    by (simp add: pack_inv_def text_tokens_def)
qed

lemma pack_inv_append:
  assumes "pack_inv path st its"
    and "pk_pending st = [] \<or> text_tokens (pk_pending st) + estimate_tokens t \<le> max_chunk_tokens"
  shows "pack_inv path (st\<lparr>pk_pending := pk_pending st @ [t], pk_tokens := pk_tokens st + estimate_tokens t\<rparr>)
    (its @ [Text t])"
  using assms by (auto simp: pack_inv_def group_ok_def text_tokens_def)

lemma pack_inv_item:
  assumes "pack_inv path st its"
  shows "pack_inv path (pack_item path st it) (its @ [it])"
proof (cases it)
  case (Text t)
  let ?over = "pk_pending st \<noteq> [] \<and> max_chunk_tokens < pk_tokens st + estimate_tokens t"
  have tokens: "pk_tokens st = text_tokens (pk_pending st)" using assms by (simp add: pack_inv_def)
  show ?thesis
  proof (cases ?over)
    case True
    with Text show ?thesis
      using pack_inv_append [OF pack_inv_flush(1) [OF assms]] pack_inv_flush(2) [OF assms]
      by (simp add: add_text_def Let_def)
  next
    case False
    with Text tokens show ?thesis
      using pack_inv_append [OF assms, of t] by (auto simp: add_text_def Let_def)
  qed
next
  case (Note n)
  let ?st = "flush path st"
  have "chunks_of path (pk_chunks ?st @ [n]) (its @ [Note n])"
    by (rule note_chunk) (rule pack_inv_flush(3) [OF assms])
  moreover have "pk_tokens ?st = 0"
    using pack_inv_flush(1,2) [OF assms] by (simp add: pack_inv_def text_tokens_def)
  ultimately show ?thesis
    using Note pack_inv_flush(2) [OF assms]
    by (simp add: add_note_def Let_def pack_inv_def text_tokens_def)
qed

lemma pack_inv_items:
  "pack_inv path st its \<Longrightarrow> pack_inv path (foldl (pack_item path) st rest) (its @ rest)"
proof (induction rest arbitrary: st its)
  case (Cons it rest)
  from Cons.IH [OF pack_inv_item [OF Cons.prems]] show ?case by simp
qed simp

lemma pack_inv_start: "pack_inv path \<lparr>pk_chunks = [], pk_pending = [], pk_tokens = 0\<rparr> []"
  by (simp add: pack_inv_def text_tokens_def no_chunks)

lemma chunks_of_covers:
  "chunks_of path cs its \<Longrightarrow> Text t \<in> set its \<Longrightarrow> \<exists>c \<in> set cs. contains t c"
proof (induction rule: chunks_of.induct)
  case (text_chunk cs its ts)
  show ?case
  proof (cases "t \<in> set ts")
    case True
    then have "contains t (join [NL, NL] ts)" by (rule contains_join)
    then have "contains t (render_texts path ts)"
      unfolding render_texts_def by (intro contains_append2)
    then show ?thesis by auto
  next
    case False
    with text_chunk show ?thesis by auto
  qed
qed auto

lemma chunks_of_note: "chunks_of path cs its \<Longrightarrow> Note n \<in> set its \<Longrightarrow> n \<in> set cs"
  by (induction rule: chunks_of.induct) auto

lemma chunks_of_origin:
  "chunks_of path cs its \<Longrightarrow> c \<in> set cs \<Longrightarrow>
     Note c \<in> set its \<or> (\<exists>ts. c = render_texts path ts \<and> group_ok ts \<and> (\<forall>t \<in> set ts. Text t \<in> set its))"
proof (induction rule: chunks_of.induct)
  case no_chunks
  then show ?case by simp
next
  case (note_chunk cs its n)
  show ?case
  proof (cases "c = n")
    case False
    with note_chunk have "c \<in> set cs" by simp
    from note_chunk.IH [OF this] show ?thesis
      by (elim disjE exE conjE; simp)
  qed simp
next
  case (text_chunk cs its ts)
  show ?case
  proof (cases "c \<in> set cs")
    case True
    from text_chunk.IH [OF this] show ?thesis
      by (elim disjE exE conjE; simp) blast
  next
    case False
    with text_chunk.prems text_chunk.hyps(2) show ?thesis by auto
  qed
qed

lemma chunk_changed_nodes_partition:
  assumes "\<not> n_has_error (info root)"
  shows "chunks_of path (chunk_changed_nodes path root src bts changed)
    (concat (map (node_items path src bts changed) (children root)))"
  unfolding chunk_changed_nodes_items [OF assms]
  by (rule pack_inv_flush(3)) (use pack_inv_items [OF pack_inv_start] in simp)


definition demo_root :: node where
  "demo_root = Node \<lparr>n_type = lit ''module'', n_start_byte = 0, n_end_byte = 3, n_start_row = 0,
     n_end_row = 0, n_field = None, n_has_error = False\<rparr>
   [Node \<lparr>n_type = lit ''function_definition'', n_start_byte = 0, n_end_byte = 3, n_start_row = 0,
     n_end_row = 0, n_field = None, n_has_error = False\<rparr> []]"


section \<open>Every change is reviewed\<close>

definition represented :: "pystr \<Rightarrow> bytes \<Rightarrow> pystr list \<Rightarrow> node \<Rightarrow> bool" where
  "represented path src cs n \<longleftrightarrow> (\<exists>c \<in> set cs. contains (node_text src n) c)
     \<or> oversized src n \<and> skip_note path (n_type (info n)) (estimate_tokens (node_text src n)) \<in> set cs"

lemma member_items_represented:
  assumes "it \<in> set (member_items src bts changed n)"
  obtains body m where "child_by_field_name (lit ''body'') n = Some body" "m \<in> set (children body)"
    "touched changed m" "oversized src n" "it = Text (class_header src n body @ [NL] @ node_text src m)"
proof -
  have big: "n_type (info n) \<in> set class_types \<and> oversized src n"
  proof (rule ccontr)
    assume "\<not> (n_type (info n) \<in> set class_types \<and> oversized src n)"
    then have "member_items src bts changed n = []" unfolding member_items_def by (rule if_not_P)
    with assms show False by simp
  qed
  show thesis
  proof (cases "child_by_field_name (lit ''body'') n")
    case None
    with big have "member_items src bts changed n = []" by (simp add: member_items_def)
    with assms show ?thesis by simp
  next
    case (Some body)
    with big have "member_items src bts changed n
        = map (\<lambda>m. Text (class_header src n body @ [NL] @ node_text src m)) (touched_members bts changed body)"
      by (simp add: member_items_def)
    with assms obtain m where "m \<in> set (touched_members bts changed body)"
      "it = Text (class_header src n body @ [NL] @ node_text src m)"
      by auto
    with Some big that show ?thesis by (auto simp: touched_members_def)
  qed
qed

lemma scoped_represents:
  assumes "\<not> n_has_error (info root)" and "n \<in> set (children root)" and "touched changed n"
  shows "represented path src (chunk_changed_nodes path root src bts changed) n
    \<or> (\<exists>body m. child_by_field_name (lit ''body'') n = Some body \<and> m \<in> set (children body)
         \<and> touched changed m \<and> (\<exists>c \<in> set (chunk_changed_nodes path root src bts changed). contains (node_text src m) c))"
proof -
  let ?its = "concat (map (node_items path src bts changed) (children root))"
  note part = chunk_changed_nodes_partition [OF assms(1), of path src bts changed]
  have items: "set (node_items path src bts changed n) \<subseteq> set ?its" using assms(2) by auto
  show ?thesis
  proof (cases "member_items src bts changed n")
    case Nil
    then have item: "whole_item path src n \<in> set ?its"
      using items assms(3) by (simp add: node_items_def)
    show ?thesis
      using chunks_of_covers [OF part] chunks_of_note [OF part] item
      by (auto simp: represented_def whole_item_def split: if_splits)
  next
    case (Cons it its)
    then have it: "it \<in> set (member_items src bts changed n)" by simp
    from it obtain body m where m: "child_by_field_name (lit ''body'') n = Some body"
      "m \<in> set (children body)" "touched changed m"
      and it_text: "it = Text (class_header src n body @ [NL] @ node_text src m)"
      by (rule member_items_represented)
    have "it \<in> set ?its" using items it Cons assms(3) by (auto simp: node_items_def)
    with it_text obtain c where c: "c \<in> set (chunk_changed_nodes path root src bts changed)"
      "contains (class_header src n body @ [NL] @ node_text src m) c"
      using chunks_of_covers [OF part] by blast
    have "contains (node_text src m) c"
      using c(2) by (rule contains_trans [rotated]) (intro contains_append2 contains_refl)
    with m c(1) show ?thesis by blast
  qed
qed

lemma scoped_nonempty:
  assumes "\<not> n_has_error (info root)" and "n \<in> set (children root)" and "touched changed n"
  shows "chunk_changed_nodes path root src bts changed \<noteq> []"
  using scoped_represents [OF assms, of path src bts] by (auto simp: represented_def)



section \<open>Whole files\<close>

definition whole_represented :: "pystr \<Rightarrow> bytes \<Rightarrow> pystr list \<Rightarrow> pystr list \<Rightarrow> node \<Rightarrow> bool" where
  "whole_represented path src bts cs n \<longleftrightarrow>
     (if n_type (info n) \<in> set bts \<and> oversized src n
      then (if class_member_chunks path src bts n \<noteq> [] then set (class_member_chunks path src bts n) \<subseteq> set cs
            else skip_note path (n_type (info n)) (estimate_tokens (node_text src n)) \<in> set cs)
      else (\<exists>c \<in> set cs. contains (node_text src n) c))"

text \<open>While the loop runs, a node is in a finished chunk or among the texts of the current one.\<close>

definition filled :: "pystr \<Rightarrow> bytes \<Rightarrow> pystr list \<Rightarrow> filling \<Rightarrow> node \<Rightarrow> bool" where
  "filled path src bts st n \<longleftrightarrow>
     whole_represented path src bts (fl_chunks st) n
     \<or> \<not> (n_type (info n) \<in> set bts \<and> oversized src n) \<and> node_text src n \<in> set (tl (fl_current st))"

lemma whole_represented_mono:
  assumes rep: "whole_represented path src bts cs n" and sub: "set cs \<subseteq> set cs'"
  shows "whole_represented path src bts cs' n"
proof (cases "n_type (info n) \<in> set bts \<and> oversized src n")
  case False
  then have "\<exists>c \<in> set cs. contains (node_text src n) c"
    using rep unfolding whole_represented_def if_not_P [OF False] by blast
  with sub show ?thesis unfolding whole_represented_def if_not_P [OF False] by blast
next
  case True
  show ?thesis
    using rep subset_trans [OF _ sub] subsetD [OF sub]
    unfolding whole_represented_def if_P [OF True]
    by (cases "class_member_chunks path src bts n = []") simp_all
qed

lemma contains_join_tl: "p \<in> set (tl ps) \<Longrightarrow> contains p (join sep ps)"
  by (rule contains_join) (cases ps; simp)

lemma filled_mono:
  assumes "filled path src bts st n" and "set (fl_chunks st) \<subseteq> set (fl_chunks st')"
    and "set (tl (fl_current st)) \<subseteq> set (tl (fl_current st'))
       \<or> join [NL] (fl_current st) \<in> set (fl_chunks st')"
  shows "filled path src bts st' n"
proof (cases "whole_represented path src bts (fl_chunks st) n")
  case True
  then show ?thesis using assms(2) whole_represented_mono by (auto simp: filled_def)
next
  case False
  with assms(1) have n: "\<not> (n_type (info n) \<in> set bts \<and> oversized src n)" "node_text src n \<in> set (tl (fl_current st))"
    by (simp_all add: filled_def)
  from assms(3) show ?thesis
  proof
    assume "set (tl (fl_current st)) \<subseteq> set (tl (fl_current st'))"
    with n show ?thesis by (auto simp: filled_def)
  next
    assume j: "join [NL] (fl_current st) \<in> set (fl_chunks st')"
    have "contains (node_text src n) (join [NL] (fl_current st))"
      using n(2) by (rule contains_join_tl)
    with j n(1) show ?thesis by (auto simp: filled_def whole_represented_def)
  qed
qed

definition headed :: "pystr \<Rightarrow> filling \<Rightarrow> bool" where
  "headed path st \<longleftrightarrow> (\<exists>ts. fl_current st = file_header path # ts)"

lemma whole_step_grows:
  assumes "headed path st"
  shows "set (fl_chunks st) \<subseteq> set (fl_chunks (whole_step path src bts st n))"
    and "set (tl (fl_current st)) \<subseteq> set (tl (fl_current (whole_step path src bts st n)))
       \<or> join [NL] (fl_current st) \<in> set (fl_chunks (whole_step path src bts st n))"
    and "headed path (whole_step path src bts st n)"
  using assms by (auto simp: whole_step_def Let_def headed_def)

lemma whole_step_fills:
  assumes "headed path st"
  shows "filled path src bts (whole_step path src bts st n) n"
proof (cases "n_type (info n) \<in> set bts \<and> oversized src n")
  case True
  then show ?thesis
    by (auto simp: filled_def whole_represented_def whole_step_def Let_def oversized_def)
next
  case False
  then have "node_text src n \<in> set (tl (fl_current (whole_step path src bts st n)))"
    using assms by (auto simp: whole_step_def Let_def oversized_def headed_def)
  with False show ?thesis by (simp add: filled_def)
qed

lemma whole_loop_headed: "headed path st \<Longrightarrow> headed path (foldl (whole_step path src bts) st ns)"
  by (induction ns rule: rev_induct) (simp_all add: whole_step_grows(3))

lemma whole_loop_fills:
  "headed path st \<Longrightarrow> n \<in> set ns \<Longrightarrow> filled path src bts (foldl (whole_step path src bts) st ns) n"
proof (induction ns rule: rev_induct)
  case (snoc m ns)
  have h: "headed path (foldl (whole_step path src bts) st ns)"
    by (rule whole_loop_headed [OF snoc.prems(1)])
  show ?case
  proof (cases "n = m")
    case True
    then show ?thesis using whole_step_fills [OF h] by simp
  next
    case False
    with snoc have "filled path src bts (foldl (whole_step path src bts) st ns) n" by simp
    from filled_mono [OF this whole_step_grows(1) [OF h] whole_step_grows(2) [OF h]] show ?thesis by simp
  qed
qed simp

text \<open>
  The budget: chunks closed by the loop or at its end hold at most \<open>MAX_CHUNK_TOKENS\<close>
  plus what their nodes without a boundary type add, which the loop never checks.
\<close>

definition loose_tokens :: "bytes \<Rightarrow> pystr list \<Rightarrow> node list \<Rightarrow> int" where
  "loose_tokens src bts ns =
     sum_list (map (\<lambda>n. if n_type (info n) \<in> set bts then 0 else estimate_tokens (node_text src n)) ns)"

lemma estimate_nonneg [simp]: "0 \<le> estimate_tokens t"
  by (simp add: estimate_tokens_def)

lemma loose_nonneg: "0 \<le> loose_tokens src bts ns"
  by (auto simp: loose_tokens_def intro!: sum_list_nonneg)

definition within :: "pystr \<Rightarrow> int \<Rightarrow> pystr list \<Rightarrow> bool" where
  "within path b ts \<longleftrightarrow> (\<exists>us. ts = file_header path # us \<and> text_tokens us \<le> b)"

definition fill_inv :: "pystr \<Rightarrow> bytes \<Rightarrow> pystr list \<Rightarrow> filling \<Rightarrow> int \<Rightarrow> bool" where
  "fill_inv path src bts st b \<longleftrightarrow>
     (\<exists>us. fl_current st = file_header path # us \<and> fl_tokens st = text_tokens us \<and> text_tokens us \<le> b)
     \<and> (\<forall>c \<in> set (fl_chunks st). (\<exists>ts. c = join [NL] ts \<and> within path b ts)
          \<or> (\<exists>n. n_type (info n) \<in> set bts \<and> oversized src n
               \<and> (c \<in> set (class_member_chunks path src bts n)
                  \<or> c = skip_note path (n_type (info n)) (estimate_tokens (node_text src n)))))"

lemma fill_inv_mono: "fill_inv path src bts st b \<Longrightarrow> b \<le> b' \<Longrightarrow> fill_inv path src bts st b'"
  unfolding fill_inv_def within_def by (meson order_trans)

lemma fill_inv_step:
  assumes "fill_inv path src bts st (max_chunk_tokens + k)" and "0 \<le> k"
  shows "fill_inv path src bts (whole_step path src bts st n)
    (max_chunk_tokens + (k + (if n_type (info n) \<in> set bts then 0 else estimate_tokens (node_text src n))))"
proof -
  let ?t = "node_text src n" and ?b = "max_chunk_tokens + k"
  from assms(1) obtain us where us: "fl_current st = file_header path # us" "fl_tokens st = text_tokens us"
    "text_tokens us \<le> ?b" by (auto simp: fill_inv_def)
  show ?thesis
  proof (cases "n_type (info n) \<in> set bts")
    case False
    have "fill_inv path src bts st (max_chunk_tokens + (k + estimate_tokens ?t))"
      by (rule fill_inv_mono [OF assms(1)]) simp
    moreover have "text_tokens (us @ [?t]) \<le> max_chunk_tokens + (k + estimate_tokens ?t)"
      using us(3) by (simp add: text_tokens_def)
    ultimately show ?thesis
      using False us by (simp add: whole_step_def Let_def fill_inv_def text_tokens_def)
  next
    case True
    consider (big) "oversized src n"
      | (next_chunk) "\<not> oversized src n" "max_chunk_tokens < fl_tokens st + estimate_tokens ?t"
      | (fits) "\<not> oversized src n" "fl_tokens st + estimate_tokens ?t \<le> max_chunk_tokens" by linarith
    then show ?thesis
    proof cases
      case big
      with True assms(1) show ?thesis
        by (auto simp: whole_step_def Let_def oversized_def fill_inv_def)
    next
      case next_chunk
      have "within path ?b (fl_current st)" using us by (simp add: within_def)
      with next_chunk True assms show ?thesis
        by (auto simp: whole_step_def Let_def oversized_def fill_inv_def text_tokens_def)
    next
      case fits
      with True us assms show ?thesis
        by (auto simp: whole_step_def Let_def oversized_def fill_inv_def text_tokens_def)
    qed
  qed
qed

lemma fill_inv_loop:
  "fill_inv path src bts st max_chunk_tokens \<Longrightarrow>
     fill_inv path src bts (foldl (whole_step path src bts) st ns) (max_chunk_tokens + loose_tokens src bts ns)"
proof (induction ns rule: rev_induct)
  case (snoc n ns)
  from fill_inv_step [OF snoc.IH [OF snoc.prems] loose_nonneg, of n] show ?case
    by (simp add: loose_tokens_def)
qed (simp add: loose_tokens_def)

text \<open>
  Chunking a whole file loses nothing: every top-level node's text is in a chunk, or
  the node is an oversized boundary node, of which the members of its class body (or else a skip note) are emitted.
  Every other chunk is the header with texts of at most \<open>MAX_CHUNK_TOKENS\<close> plus the tokens
  of the nodes without a boundary type, which the budget does not see.
\<close>

theorem whole_file_chunks:
  fixes path :: pystr and root :: node and src :: bytes and bts :: "pystr list"
  defines "cs \<equiv> chunk_whole path root src bts"
  shows "(\<forall>n \<in> set (children root). whole_represented path src bts cs n)
    \<and> (\<forall>c \<in> set cs.
         (\<exists>ts. c = join [NL] (file_header path # ts)
            \<and> text_tokens ts \<le> max_chunk_tokens + loose_tokens src bts (children root))
       \<or> (\<exists>n. n_type (info n) \<in> set bts \<and> oversized src n
            \<and> (c \<in> set (class_member_chunks path src bts n)
               \<or> c = skip_note path (n_type (info n)) (estimate_tokens (node_text src n)))))"
proof (intro conjI ballI)
  let ?start = "\<lparr>fl_chunks = [], fl_current = [file_header path], fl_tokens = 0\<rparr>"
  let ?st = "foldl (whole_step path src bts) ?start (children root)"
  let ?b = "max_chunk_tokens + loose_tokens src bts (children root)"
  have cs: "cs = (if 1 < length (fl_current ?st) then fl_chunks ?st @ [join [NL] (fl_current ?st)]
      else fl_chunks ?st)"
    by (simp add: cs_def chunk_whole_def Let_def)
  have h0: "headed path ?start" by (simp add: headed_def)
  show "whole_represented path src bts cs n" if "n \<in> set (children root)" for n
  proof (cases "whole_represented path src bts (fl_chunks ?st) n")
    case True
    then show ?thesis by (rule whole_represented_mono) (auto simp: cs)
  next
    case False
    with whole_loop_fills [OF h0 that, of src bts]
    have n: "\<not> (n_type (info n) \<in> set bts \<and> oversized src n)" "node_text src n \<in> set (tl (fl_current ?st))"
      by (simp_all add: filled_def)
    then have "1 < length (fl_current ?st)" by (cases "fl_current ?st"; cases "tl (fl_current ?st)") auto
    then have "join [NL] (fl_current ?st) \<in> set cs" by (simp add: cs)
    moreover have "contains (node_text src n) (join [NL] (fl_current ?st))"
      using n(2) by (rule contains_join_tl)
    ultimately show ?thesis using n(1) by (auto simp: whole_represented_def)
  qed
  have "fill_inv path src bts ?start max_chunk_tokens"
    by (simp add: fill_inv_def text_tokens_def max_chunk_tokens_def)
  then have inv: "fill_inv path src bts ?st ?b" by (rule fill_inv_loop)
  show "(\<exists>ts. c = join [NL] (file_header path # ts) \<and> text_tokens ts \<le> ?b)
       \<or> (\<exists>n. n_type (info n) \<in> set bts \<and> oversized src n
            \<and> (c \<in> set (class_member_chunks path src bts n)
               \<or> c = skip_note path (n_type (info n)) (estimate_tokens (node_text src n))))"
    if "c \<in> set cs" for c
  proof (cases "c \<in> set (fl_chunks ?st)")
    case True
    with inv show ?thesis unfolding fill_inv_def within_def by blast
  next
    case False
    with that have c: "c = join [NL] (fl_current ?st)" by (auto simp: cs split: if_splits)
    from inv obtain us where us: "fl_current ?st = file_header path # us" "text_tokens us \<le> ?b"
      unfolding fill_inv_def by blast
    from us(2) show ?thesis unfolding c us(1) by blast
  qed
qed

theorem whole_file_chunks_witness:
  "whole_represented (lit ''a.py'') [97, 98, 99] [] (chunk_whole (lit ''a.py'') demo_root [97, 98, 99] [])
     (hd (children demo_root))"
  using whole_file_chunks [of "demo_root" "lit ''a.py''" "[97, 98, 99]" "[]"] by (simp add: demo_root_def)

end
