(* ===== verification/ReviewBudget.thy ===== *)
theory ReviewBudget
  imports Chunker Settings Findings
begin

text \<open>
  The choice of what a review looks at (\<open>_is_reviewable_file\<close>, \<open>_file_review_priority\<close>,
  \<open>_build_review_chunks\<close> of \<open>app/services/ai.py\<close>): files are filtered, ranked by risk and
  chunked until the budget of chunks is used up.
\<close>

section \<open>Which files\<close>

definition ignored_suffixes :: "pystr list" where
  "ignored_suffixes = [lit ''.png'', lit ''.jpg'', lit ''.jpeg'', lit ''.gif'', lit ''.svg'',
     lit ''.lock'', lit ''.md'', lit ''.txt'', lit ''.map'']"

definition ignored_parts :: "pystr list" where
  "ignored_parts = [lit ''/node_modules/'', lit ''/dist/'', lit ''/build/'', lit ''/coverage/'']"

definition is_reviewable_file :: "pystr \<Rightarrow> bool" where
  "is_reviewable_file path \<longleftrightarrow> \<not> list_ex (\<lambda>x. ends x path) ignored_suffixes
     \<and> \<not> list_ex (\<lambda>p. contains p (lit ''/'' @ path)) ignored_parts"

section \<open>In which order\<close>

definition high_risk_terms :: "pystr list" where
  "high_risk_terms = [lit ''auth'', lit ''token'', lit ''secret'', lit ''password'', lit ''permission'',
     lit ''admin'', lit ''payment'', lit ''webhook'', lit ''localstorage'', lit ''firebase'', lit ''sql'',
     lit ''database'', lit ''api/'', lit ''route'']"

definition code_suffixes :: "pystr list" where
  "code_suffixes = [lit ''.py'', lit ''.ts'', lit ''.tsx'', lit ''.js'', lit ''.jsx'', lit ''.go'',
     lit ''.cpp'', lit ''.c'', lit ''.h'', lit ''.rs'']"

definition file_name :: "pr_file \<Rightarrow> pystr" where
  "file_name f = (case pf_filename f of None \<Rightarrow> [] | Some p \<Rightarrow> p)"

definition or_else :: "pystr option \<Rightarrow> pystr \<Rightarrow> pystr" where
  "or_else s t = (case non_empty s of None \<Rightarrow> t | Some x \<Rightarrow> x)"

definition file_review_priority :: "pr_file \<Rightarrow> int" where
  "file_review_priority f =
     (let patch = or_else (pf_patch f) (or_else (pf_content f) []);
          text = lower (file_name f @ [NL] @ patch)
      in min (int (length patch) div 500) 8
         + sum_list (map (\<lambda>t. if contains t text then 4 else 0) high_risk_terms)
         + (if list_ex (\<lambda>x. ends x (file_name f)) code_suffixes then 3 else 0))"

definition ranked_files :: "pr_file list \<Rightarrow> pr_file list" where
  "ranked_files files = py_sorted_rev file_review_priority
     (filter (\<lambda>f. is_reviewable_file (file_name f)) files)"

section \<open>How much\<close>

text \<open>What one file produces; \<open>None\<close> is the \<open>continue\<close> for a file with neither content nor patch.\<close>

definition file_chunks ::
    "(grammar \<Rightarrow> parser) \<Rightarrow> pr_file \<Rightarrow> pystr list option outcome" where
  "file_chunks parse f = (case pf_filename f of
     None \<Rightarrow> raise_exn KeyError (lit ''filename'')
   | Some name \<Rightarrow>
       (let patch = or_else (pf_patch f) [] in
        case non_empty (pf_content f) of
          Some source \<Rightarrow> bind (chunk_by_ast parse name source patch) (\<lambda>cs. Inr (Some cs))
        | None \<Rightarrow> Inr (if patch \<noteq> [] then Some [file_header name @ [NL] @ patch] else None)))"

fun collect_chunks ::
    "(grammar \<Rightarrow> parser) \<Rightarrow> int \<Rightarrow> pystr list \<Rightarrow> pr_file list \<Rightarrow> pystr list outcome" where
  "collect_chunks parse max_chunks chunks [] = Inr chunks"
| "collect_chunks parse max_chunks chunks (f # fs) =
     bind (file_chunks parse f) (\<lambda>produced. case produced of
         None \<Rightarrow> collect_chunks parse max_chunks chunks fs
       | Some cs \<Rightarrow> (let chunks = chunks @ cs in
           if max_chunks \<le> int (length chunks) then Inr chunks
           else collect_chunks parse max_chunks chunks fs))"

definition build_review_chunks ::
    "(grammar \<Rightarrow> parser) \<Rightarrow> settings \<Rightarrow> pr_file list \<Rightarrow> pystr list outcome" where
  "build_review_chunks parse cfg files =
     (let max_chunks = max (REVIEW_MAX_CHUNKS cfg) 1
      in bind (collect_chunks parse max_chunks [] (ranked_files files))
           (\<lambda>chunks. Inr (slice_to max_chunks chunks)))"

section \<open>The budget\<close>

definition chunks_or_none :: "pystr list option \<Rightarrow> pystr list" where
  "chunks_or_none p = (case p of None \<Rightarrow> [] | Some cs \<Rightarrow> cs)"

lemma collect_chunks_take:
  assumes "\<And>f. f \<in> set fs \<Longrightarrow> file_chunks parse f = Inr (produced f)" and "int (length chunks) < m"
  shows "\<exists>r. collect_chunks parse m chunks fs = Inr r
    \<and> slice_to m r = take (nat m) (chunks @ concat (map (\<lambda>f. chunks_or_none (produced f)) fs))"
  using assms
proof (induction fs arbitrary: chunks)
  case Nil
  then show ?case by (simp add: slice_to_def)
next
  case (Cons f fs)
  show ?case
  proof (cases "produced f")
    case None
    with Cons show ?thesis by (simp add: chunks_or_none_def)
  next
    case (Some cs)
    show ?thesis
    proof (cases "m \<le> int (length (chunks @ cs))")
      case True
      have "0 \<le> m" using Cons.prems(2) by linarith
      with True have "nat m \<le> length (chunks @ cs)" by linarith
      with \<open>0 \<le> m\<close> True Some Cons.prems(1) [of f] show ?thesis
        by (simp add: slice_to_def chunks_or_none_def Let_def)
    next
      case False
      with Cons.IH [of "chunks @ cs"] Cons.prems Some show ?thesis
        by (simp add: chunks_or_none_def Let_def)
    qed
  qed
qed

lemma collect_chunks_total:
  assumes "\<And>f. f \<in> set fs \<Longrightarrow> \<exists>p. file_chunks parse f = Inr p"
  shows "\<exists>r. collect_chunks parse m chunks fs = Inr r"
  using assms
proof (induction fs arbitrary: chunks)
  case (Cons f fs)
  then obtain p where "file_chunks parse f = Inr p" by (metis list.set_intros(1))
  with Cons show ?case by (cases p) (auto simp: Let_def)
qed simp

text \<open>
  The early exit only saves work: the review looks at the first
  \<open>max(REVIEW_MAX_CHUNKS, 1)\<close> chunks of all reviewable files taken in order of priority, whatever the
  loop skipped; the order is by non-increasing priority, and files of equal priority keep GitHub's order.
\<close>

theorem review_budget:
  assumes "\<And>f. f \<in> set files \<Longrightarrow> is_reviewable_file (file_name f) \<Longrightarrow> file_chunks parse f = Inr (produced f)"
  shows "build_review_chunks parse cfg files = Inr (take (nat (max (REVIEW_MAX_CHUNKS cfg) 1))
      (concat (map (\<lambda>f. chunks_or_none (produced f)) (ranked_files files))))
    \<and> sorted_wrt (\<lambda>f g. file_review_priority g \<le> file_review_priority f) (ranked_files files)
    \<and> filter (\<lambda>f. file_review_priority f = p) (ranked_files files)
        = filter (\<lambda>f. is_reviewable_file (file_name f) \<and> file_review_priority f = p) files"
proof -
  let ?m = "max (REVIEW_MAX_CHUNKS cfg) 1"
  have "file_chunks parse f = Inr (produced f)" if "f \<in> set (ranked_files files)" for f
    using that assms by (simp add: ranked_files_def)
  moreover have "int (length ([] :: pystr list)) < ?m" by (simp add: less_max_iff_disj)
  ultimately obtain r where "collect_chunks parse ?m [] (ranked_files files) = Inr r"
    "slice_to ?m r = take (nat ?m) ([] @ concat (map (\<lambda>f. chunks_or_none (produced f)) (ranked_files files)))"
    using collect_chunks_take [of "ranked_files files" parse produced "[]" ?m] by blast
  then have "build_review_chunks parse cfg files = Inr (take (nat ?m)
      (concat (map (\<lambda>f. chunks_or_none (produced f)) (ranked_files files))))"
    by (simp add: build_review_chunks_def Let_def)
  moreover have "sorted_wrt (\<lambda>f g. file_review_priority g \<le> file_review_priority f) (ranked_files files)"
    unfolding ranked_files_def by (rule sorted_py_sorted_rev)
  moreover have "filter (\<lambda>f. file_review_priority f = p) (ranked_files files)
      = filter (\<lambda>f. is_reviewable_file (file_name f) \<and> file_review_priority f = p) files"
    by (simp add: ranked_files_def py_sorted_rev_stable conj_commute)
  ultimately show ?thesis by blast
qed

definition demo_file :: pr_file where
  "demo_file = \<lparr>pf_filename = Some (lit ''a.rs''), pf_status = None, pf_changes = Some 1,
     pf_patch = Some (lit ''+x''), pf_content = None\<rparr>"

theorem review_budget_witness:
  "build_review_chunks (\<lambda>_ _. demo_root) default_settings [demo_file] =
     Inr (take 12 (concat (map (\<lambda>f. [file_header (lit ''a.rs'') @ [NL] @ lit ''+x'']) (ranked_files [demo_file]))))"
proof -
  have "file_chunks (\<lambda>_ _. demo_root) f = Inr (Some [file_header (lit ''a.rs'') @ [NL] @ lit ''+x''])"
    if "f \<in> set [demo_file]" for f
    using that by (simp add: file_chunks_def demo_file_def or_else_def non_empty_def lit_def)
  from review_budget [where files = "[demo_file]" and parse = "\<lambda>_ _. demo_root"
      and cfg = default_settings, OF this]
  show ?thesis by (simp add: default_settings_def chunks_or_none_def)
qed

end
