(* ===== verification/AgentOutput.thy ===== *)
theory AgentOutput
  imports Json Settings Findings
begin

text \<open>
  What \<open>app/services/ai.py\<close> makes of a model's answer: the JSON document in a text, the arguments
  of a tool call, and the agents a routing answer selects.
\<close>

section \<open>The document in an answer\<close>

definition backticks :: pystr where
  "backticks = [96, 96, 96]"

definition json_tag :: pystr where
  "json_tag = backticks @ lit ''json''"

text \<open>
  The lazy group of the pattern: the shortest prefix that blanks and three backticks follow.
\<close>

fun lazy_group :: "pystr \<Rightarrow> pystr option" where
  "lazy_group s = (if starts backticks (lstrip s) then Some []
     else (case s of [] \<Rightarrow> None | c # t \<Rightarrow> map_option ((#) c) (lazy_group t)))"

declare lazy_group.simps [simp del]

text \<open>
  The first position at which the whole pattern matches. The blanks after the tag are taken
  greedily; as no backtick is a blank, giving some back never makes a failing match succeed.
\<close>

fun fenced_payload :: "pystr \<Rightarrow> pystr option" where
  "fenced_payload s =
     (case (if starts json_tag s then lazy_group (lstrip (drop (length json_tag) s)) else None) of
        Some g \<Rightarrow> Some g
      | None \<Rightarrow> (case s of [] \<Rightarrow> None | c # t \<Rightarrow> fenced_payload t))"

declare fenced_payload.simps [simp del]

definition up_to_last :: "int \<Rightarrow> pystr \<Rightarrow> pystr" where
  "up_to_last c s = rev (dropWhile (\<lambda>x. x \<noteq> c) (rev s))"

text \<open>The leftmost bracket that has a partner, with everything up to the last such partner.\<close>

fun bracketed :: "pystr \<Rightarrow> pystr option" where
  "bracketed [] = None"
| "bracketed (c # s) =
     (if c = 91 \<and> 93 \<in> set s then Some (c # up_to_last 93 s)
      else if c = 123 \<and> 125 \<in> set s then Some (c # up_to_last 125 s)
      else bracketed s)"

definition payload_text :: "pystr \<Rightarrow> pystr" where
  "payload_text content =
     (let cleaned = strip content in
      case fenced_payload cleaned of
        Some g \<Rightarrow> g
      | None \<Rightarrow> (let bare = replace backticks [] cleaned in
          case bracketed bare of Some g \<Rightarrow> g | None \<Rightarrow> bare))"

definition extract_json_payload :: "(pystr \<Rightarrow> pyfloat) \<Rightarrow> pystr \<Rightarrow> pyval outcome" where
  "extract_json_payload read_float content = json_loads read_float (payload_text content)"

definition parse_tool_arguments :: "(pystr \<Rightarrow> pyfloat) \<Rightarrow> pyval \<Rightarrow> pydict outcome" where
  "parse_tool_arguments read_float arguments =
     (let err = raise_exn ValueError (lit ''Tool arguments must be a JSON object'') in
      case arguments of
        PDict d \<Rightarrow> Inr d
      | PStr s \<Rightarrow> bind (json_loads read_float s)
          (\<lambda>parsed. case as_dict parsed of Some d \<Rightarrow> Inr d | None \<Rightarrow> err)
      | _ \<Rightarrow> err)"

section \<open>The agents of a chunk\<close>

definition ReviewAgent :: pystr where "ReviewAgent = lit ''ReviewAgent''"
definition SecurityAgent :: pystr where "SecurityAgent = lit ''SecurityAgent''"
definition PerformanceAgent :: pystr where "PerformanceAgent = lit ''PerformanceAgent''"
definition PlanningAgent :: pystr where "PlanningAgent = lit ''PlanningAgent''"
definition VerificationAgent :: pystr where "VerificationAgent = lit ''VerificationAgent''"

lemmas agent_defs = ReviewAgent_def SecurityAgent_def PerformanceAgent_def PlanningAgent_def
  VerificationAgent_def

definition valid_agent_ids :: "pystr list" where
  "valid_agent_ids = [ReviewAgent, SecurityAgent, PerformanceAgent, PlanningAgent, VerificationAgent]"

text \<open>The list the answer proposes, and the valid ids in it.\<close>

definition proposed_agents :: "pyval \<Rightarrow> pyval list" where
  "proposed_agents agents =
     (let agents = (case as_dict agents of None \<Rightarrow> agents
          | Some d \<Rightarrow> dict_get_or d (lit ''agents'') (PList [PStr ReviewAgent]))
      in case as_list agents of Some vs \<Rightarrow> vs | None \<Rightarrow> [PStr ReviewAgent])"

definition valid_proposals :: "pyval list \<Rightarrow> pystr list" where
  "valid_proposals vs = filter (\<lambda>a. a \<in> set valid_agent_ids) (List.map_filter as_str vs)"

definition wants_verification :: "settings \<Rightarrow> pystr \<Rightarrow> pystr list \<Rightarrow> bool" where
  "wants_verification cfg chunk normalized \<longleftrightarrow> REVIEW_PROFILE cfg \<noteq> lit ''chill''
     \<and> (contains (lit ''import '') chunk \<or> contains (lit ''def '') chunk)
     \<and> VerificationAgent \<notin> set normalized"

definition normalize_agent_ids :: "settings \<Rightarrow> pyval \<Rightarrow> pystr \<Rightarrow> pystr list" where
  "normalize_agent_ids cfg agents chunk =
     (let found = valid_proposals (proposed_agents agents);
          normalized = (if found = [] then [ReviewAgent] else found)
      in from_keys (normalized @ (if wants_verification cfg chunk normalized then [VerificationAgent] else [])))"

definition agent_priority :: "pystr \<Rightarrow> int" where
  "agent_priority a = (if a = SecurityAgent then 0 else if a = ReviewAgent then 1
     else if a = PlanningAgent then 2 else if a = PerformanceAgent then 3
     else if a = VerificationAgent then 4 else 99)"

definition cap_agent_ids :: "settings \<Rightarrow> pystr list \<Rightarrow> pystr list" where
  "cap_agent_ids cfg agents =
     (if int (length agents) \<le> REVIEW_MAX_AGENTS_PER_CHUNK cfg then agents
      else slice_to (REVIEW_MAX_AGENTS_PER_CHUNK cfg) (py_sorted agent_priority agents))"

section \<open>Finding the document\<close>

lemma dropWhile_stop: "\<not> P d \<Longrightarrow> dropWhile P (xs @ d # ys) = dropWhile P xs @ d # ys"
  by (induction xs) simp_all

lemma strip_around:
  assumes "x \<noteq> []" "\<not> is_space (hd x)" "\<not> is_space (last x)"
  shows "strip (pre @ x @ post) = lstrip pre @ x @ rstrip post"
proof -
  obtain c t where x: "x = c # t" using assms(1) by (cases x) auto
  with assms(2) have l: "lstrip (pre @ x @ post) = lstrip pre @ x @ post"
    by (simp add: lstrip_def dropWhile_stop)
  have "rev x = last x # rev (butlast x)"
    using assms(1) by (metis append_butlast_last_id rev.simps(2) rev_rev_ident)
  then obtain y where y: "rev x = last x # y" by blast
  have "dropWhile is_space (rev post @ rev x @ z) = dropWhile is_space (rev post) @ rev x @ z" for z
    using assms(3) unfolding y by (simp add: dropWhile_stop)
  then show ?thesis
    using l by (simp add: strip_def rstrip_def)
qed

lemma starts_tag_straddle:
  assumes "starts json_tag (s @ json_tag @ r)"
  shows "s = [] \<or> contains json_tag s"
proof (cases "7 \<le> length s")
  case True
  have "length json_tag = 7" by (simp add: json_tag_def backticks_def lit_def)
  with assms True have "s = json_tag @ drop 7 s"
    unfolding starts_def by (metis append_take_drop_id diff_is_0_eq append_Nil2 take_0 take_append)
  then have "contains json_tag s" unfolding contains_iff by (metis append_Nil)
  then show ?thesis ..
next
  case False
  have tag: "json_tag = [96, 96, 96, 106, 115, 111, 110]" by (simp add: json_tag_def backticks_def lit_def)
  obtain t where "s @ json_tag @ r = json_tag @ t" using assms by (auto simp: starts_iff)
  then have "(s @ json_tag @ r) ! 6 = 110" by (simp add: tag)
  moreover have len: "length json_tag = 7" by (simp add: tag)
  moreover have "6 - length s < 7" by simp
  ultimately have "json_tag ! (6 - length s) = 110" using False by (simp add: nth_append)
  moreover have "6 - length s \<in> {0, 1, 2, 3, 4, 5} \<or> s = []"
    using False by (cases s) (auto simp: less_Suc_eq)
  ultimately show ?thesis by (auto simp: tag)
qed

lemma fenced_payload_at:
  assumes "\<not> contains json_tag pre" "lazy_group (lstrip r) = Some g"
  shows "fenced_payload (pre @ json_tag @ r) = Some g"
  using assms(1)
proof (induction pre)
  case Nil
  have "starts json_tag (json_tag @ r)" by (simp add: starts_def)
  with assms(2) show ?case by (subst fenced_payload.simps) simp
next
  case (Cons c pre)
  then have "\<not> starts json_tag ((c # pre) @ json_tag @ r)" using starts_tag_straddle by blast
  with Cons show ?case by (subst fenced_payload.simps) simp
qed

lemma fenced_payload_None: "\<not> contains backticks s \<Longrightarrow> fenced_payload s = None"
proof (induction s)
  case Nil
  show ?case by (subst fenced_payload.simps) (simp add: json_tag_def backticks_def starts_def)
next
  case (Cons c s)
  then have "\<not> starts backticks (c # s)" by simp
  then have "\<not> starts json_tag (c # s)" by (auto simp: json_tag_def starts_iff)
  with Cons show ?case by (subst fenced_payload.simps) simp
qed

lemma lazy_group_at:
  assumes "\<not> contains backticks d" "d \<noteq> [] \<longrightarrow> \<not> is_space (last d) \<and> last d \<noteq> 96" "list_all is_space b"
  shows "lazy_group (d @ b @ backticks @ post) = Some d"
  using assms(1,2)
proof (induction d)
  case Nil
  have "lstrip (b @ backticks @ post) = backticks @ post"
    using assms(3) by (induction b) (simp_all add: lstrip_def backticks_def is_space_def)
  then show ?case by (subst lazy_group.simps) (simp add: starts_def)
next
  case (Cons c d)
  let ?cd = "c # d" and ?r = "b @ backticks @ post"
  have last: "\<not> is_space (last ?cd)" "last ?cd \<noteq> 96" using Cons.prems(2) by auto
  then have "\<exists>x \<in> set ?cd. \<not> is_space x" using last_in_set by blast
  then have ls: "lstrip (?cd @ ?r) = lstrip ?cd @ ?r" "lstrip ?cd \<noteq> []"
    by (auto simp: lstrip_def dropWhile_append dropWhile_eq_Nil_conv)
  obtain u where u: "?cd = u @ lstrip ?cd" unfolding lstrip_def by (metis takeWhile_dropWhile_id)
  have "\<not> starts backticks (lstrip ?cd @ ?r)"
  proof
    assume st: "starts backticks (lstrip ?cd @ ?r)"
    have "\<not> starts backticks (lstrip ?cd)"
      using Cons.prems(1) u by (metis append_Nil contains_append2 contains_append1 contains_refl starts_iff)
    have short: "length (lstrip ?cd) < 3"
    proof (rule ccontr)
      assume "\<not> length (lstrip ?cd) < 3"
      then have "take 3 (lstrip ?cd @ ?r) = take 3 (lstrip ?cd)" by simp
      moreover have len: "length backticks = 3" by (simp add: backticks_def)
      ultimately have "take 3 (lstrip ?cd) = backticks" using st unfolding starts_def len by metis
      with \<open>\<not> starts backticks (lstrip ?cd)\<close> show False unfolding starts_def len by blast
    qed
    obtain l where l: "lstrip ?cd = l" by simp
    obtain t where "l @ ?r = 96 # 96 # 96 # t"
      using st unfolding l by (auto simp: starts_iff backticks_def)
    moreover have "length l < 3" "l \<noteq> []" using short ls(2) l by simp_all
    ultimately have "last l = 96"
      by (cases l; cases "tl l"; cases "tl (tl l)") auto
    with l have "last (lstrip ?cd) = 96" by simp
    with last(2) u ls(2) show False by (metis last_appendR)
  qed
  with ls(1) have "lazy_group (?cd @ ?r) = map_option ((#) c) (lazy_group (d @ ?r))"
    by (subst lazy_group.simps) simp
  moreover have "lazy_group (d @ ?r) = Some d"
    by (rule Cons.IH) (use Cons.prems in auto)
  ultimately show ?case by simp
qed

definition is_container :: "pyval \<Rightarrow> bool" where
  "is_container v \<longleftrightarrow> as_list v \<noteq> None \<or> as_dict v \<noteq> None"

lemma container_ends:
  assumes "is_container v"
  obtains b where "json_dumps rf v = 91 # b @ [93]" | b where "json_dumps rf v = 123 # b @ [125]"
  using assms by (cases v) (auto simp: is_container_def as_list_def as_dict_def lit_def)

lemma up_to_last_end: "c \<notin> set post \<Longrightarrow> up_to_last c (s @ c # post) = s @ [c]"
  using dropWhile_stop [of "\<lambda>x. x \<noteq> c" c "rev post" "rev s"]
  by (auto simp: up_to_last_def dropWhile_eq_Nil_conv)

lemma bracketed_at:
  assumes "91 \<notin> set pre" "123 \<notin> set pre" and "l = 91 \<and> c = 93 \<or> l = 123 \<and> c = 125" "c \<notin> set post"
  shows "bracketed (pre @ l # b @ c # post) = Some (l # b @ [c])"
  using assms by (induction pre) (auto simp: up_to_last_end)

lemma payload_fenced:
  assumes "\<not> contains json_tag pre" "list_all is_space b1" "list_all is_space b2"
    and "\<not> contains backticks d" "d \<noteq> []" "\<not> is_space (hd d)" "\<not> is_space (last d)" "last d \<noteq> 96"
  shows "payload_text (pre @ json_tag @ b1 @ d @ b2 @ backticks @ post) = d"
proof -
  let ?x = "json_tag @ b1 @ d @ b2 @ backticks"
  have ends: "?x \<noteq> []" "\<not> is_space (hd ?x)" "\<not> is_space (last ?x)"
    by (simp_all add: json_tag_def backticks_def lit_def is_space_def)
  have pre: "\<not> contains json_tag (lstrip pre)"
    using assms(1) unfolding lstrip_def by (metis contains_append2 takeWhile_dropWhile_id)
  have "lstrip (b1 @ d @ b2 @ backticks @ rstrip post) = d @ b2 @ backticks @ rstrip post"
    using assms(2,5,6) by (cases d; induction b1) (simp_all add: lstrip_def)
  moreover have "lazy_group (d @ b2 @ backticks @ rstrip post) = Some d"
    by (rule lazy_group_at) (use assms in auto)
  ultimately have "fenced_payload (lstrip pre @ json_tag @ b1 @ d @ b2 @ backticks @ rstrip post) = Some d"
    by (intro fenced_payload_at [OF pre]) simp
  then show ?thesis
    using strip_around [OF ends, of pre post] by (simp add: payload_text_def)
qed

lemma payload_bare:
  assumes "set pre \<inter> {91, 96, 123} = {}" "set post \<inter> {93, 96, 125} = {}"
    and "\<not> contains backticks (l # b @ [c])" "l = 91 \<and> c = 93 \<or> l = 123 \<and> c = 125"
  shows "payload_text (pre @ (l # b @ [c]) @ post) = l # b @ [c]"
proof -
  let ?d = "l # b @ [c]"
  have st: "strip (pre @ ?d @ post) = lstrip pre @ ?d @ rstrip post"
    by (rule strip_around) (use assms(4) in \<open>auto simp: is_space_def\<close>)
  have sub: "set (lstrip pre) \<subseteq> set pre" "set (rstrip post) \<subseteq> set post"
    using set_dropWhileD by (fastforce simp: lstrip_def rstrip_def)+
  have none: "\<not> contains backticks (lstrip pre @ ?d @ rstrip post)"
    using assms sub by (subst contains_apart) (auto simp: backticks_def)
  have "bracketed (lstrip pre @ l # b @ c # rstrip post) = Some ?d"
    by (rule bracketed_at) (use assms sub in auto)
  then show ?thesis
    using none st by (simp add: payload_text_def fenced_payload_None replace_absent)
qed

text \<open>
  A document in a model's answer is found: whatever prose surrounds it, a list or
  dictionary written by \<open>json.dumps\<close> inside a \<open>json\<close> fence is read back as itself, and so is one without
  any fence in prose without brackets; the hypothesis on the document is that it holds no three
  backticks.
\<close>

theorem answer_document_found:
  assumes "json_ok v" "is_container v" "\<not> contains backticks (json_dumps rf v)"
  shows "(\<not> contains json_tag pre \<and> list_all is_space b1 \<and> list_all is_space b2 \<longrightarrow>
       extract_json_payload fl (pre @ json_tag @ b1 @ json_dumps rf v @ b2 @ backticks @ post) = Inr v)
    \<and> (set pre \<inter> {91, 96, 123} = {} \<and> set post \<inter> {93, 96, 125} = {} \<longrightarrow>
       extract_json_payload fl (pre @ json_dumps rf v @ post) = Inr v)"
proof -
  obtain l b c where d: "json_dumps rf v = l # b @ [c]" "l = 91 \<and> c = 93 \<or> l = 123 \<and> c = 125"
    using container_ends [OF assms(2), of rf] by metis
  have read: "json_loads fl (l # b @ [c]) = Inr v" using loads_dumps [OF assms(1), of fl rf] d(1) by simp
  have "payload_text (pre @ json_tag @ b1 @ (l # b @ [c]) @ b2 @ backticks @ post) = l # b @ [c]"
    if "\<not> contains json_tag pre" "list_all is_space b1" "list_all is_space b2"
    by (rule payload_fenced) (use that assms(3) d in \<open>auto simp: is_space_def\<close>)
  moreover have "payload_text (pre @ (l # b @ [c]) @ post) = l # b @ [c]"
    if "set pre \<inter> {91, 96, 123} = {}" "set post \<inter> {93, 96, 125} = {}"
    by (rule payload_bare) (use that assms(3) d in auto)
  ultimately show ?thesis unfolding extract_json_payload_def d(1) by (auto simp: read)
qed

theorem answer_document_found_witness:
  "extract_json_payload (\<lambda>_. NaN) (lit ''Sure: '' @ json_tag @ [NL]
     @ json_dumps (\<lambda>_. []) (PList [PStr ReviewAgent]) @ [NL] @ backticks @ lit '' done'')
   = Inr (PList [PStr ReviewAgent])"
  using answer_document_found [of "PList [PStr ReviewAgent]" "\<lambda>_. []" "lit ''Sure: ''" "[NL]" "[NL]" "\<lambda>_. NaN"
      "lit '' done''", THEN conjunct1, THEN mp]
  by (simp add: ReviewAgent_def text_ok_def is_container_def lit_def backticks_def json_tag_def starts_def
      dump_string_def escape_cp_def is_space_def)

text \<open>
  Without that hypothesis the answer is lost: a suggested fix that itself holds a code fence ends
  the payload early, although the answer is valid JSON.
\<close>

lemma inner_fence_cuts_answer:
  "payload_text (json_tag @ [NL] @ lit ''{\"a\": \"'' @ backticks @ lit ''x'' @ backticks @ lit ''\"}'' @ [NL] @ backticks)
   = lit ''{\"a\": \"''"
  by (simp add: payload_text_def fenced_payload.simps lazy_group.simps json_tag_def backticks_def lit_def
      strip_def lstrip_def rstrip_def starts_def is_space_def)

section \<open>Routing\<close>

lemma valid_proposals_valid: "set (valid_proposals vs) \<subseteq> set valid_agent_ids"
  by (auto simp: valid_proposals_def)

lemma normalize_agent_ids_props:
  "normalize_agent_ids cfg v chunk \<noteq> []" "distinct (normalize_agent_ids cfg v chunk)"
  "set (normalize_agent_ids cfg v chunk) \<subseteq> set valid_agent_ids"
  using valid_proposals_valid [of "proposed_agents v"]
  by (auto simp: normalize_agent_ids_def Let_def valid_agent_ids_def split: if_splits)

lemma in_normalize:
  "a \<in> set (normalize_agent_ids cfg v chunk) \<longleftrightarrow> a \<in> set (valid_proposals (proposed_agents v))
     \<or> valid_proposals (proposed_agents v) = [] \<and> a = ReviewAgent
     \<or> a = VerificationAgent \<and> REVIEW_PROFILE cfg \<noteq> lit ''chill''
        \<and> (contains (lit ''import '') chunk \<or> contains (lit ''def '') chunk)"
proof -
  have "VerificationAgent \<noteq> ReviewAgent" by (simp add: agent_defs lit_def)
  then show ?thesis by (auto simp: normalize_agent_ids_def Let_def wants_verification_def)
qed

lemma slice_to_best:
  assumes "sorted (map f xs)" "x \<in> set xs" "x \<notin> set (slice_to k xs)" "y \<in> set (slice_to k xs)"
  shows "f y \<le> f x"
proof -
  have "\<exists>n. slice_to k xs = take n xs" unfolding slice_to_def by metis
  then obtain n where n: "slice_to k xs = take n xs" by blast
  have "xs = take n xs @ drop n xs" by simp
  with assms n have "x \<in> set (drop n xs)" by (metis Un_iff set_append)
  moreover have "sorted (map f (take n xs @ drop n xs))" using assms(1) by simp
  ultimately show ?thesis using assms(4) n unfolding map_append sorted_append by auto
qed

lemma cap_agent_ids_props:
  assumes "agents \<noteq> []" "distinct agents" "1 \<le> REVIEW_MAX_AGENTS_PER_CHUNK cfg"
  shows "cap_agent_ids cfg agents \<noteq> []" "distinct (cap_agent_ids cfg agents)"
    "set (cap_agent_ids cfg agents) \<subseteq> set agents"
    "int (length (cap_agent_ids cfg agents)) = min (int (length agents)) (REVIEW_MAX_AGENTS_PER_CHUNK cfg)"
  using assms set_slice_to [of "REVIEW_MAX_AGENTS_PER_CHUNK cfg" "py_sorted agent_priority agents"]
  by (auto simp: cap_agent_ids_def distinct_slice_to slice_to_def)

lemma cap_agent_ids_best:
  "a \<in> set agents \<Longrightarrow> a \<notin> set (cap_agent_ids cfg agents) \<Longrightarrow> b \<in> set (cap_agent_ids cfg agents) \<Longrightarrow>
     agent_priority b \<le> agent_priority a"
  using slice_to_best [OF sorted_py_sorted, of a agent_priority agents "REVIEW_MAX_AGENTS_PER_CHUNK cfg" b]
  by (auto simp: cap_agent_ids_def split: if_splits)

lemma cap_agent_ids_idem: "cap_agent_ids cfg (cap_agent_ids cfg agents) = cap_agent_ids cfg agents"
  if "0 \<le> REVIEW_MAX_AGENTS_PER_CHUNK cfg"
  using length_slice_to_le [OF that, of "py_sorted agent_priority agents"] by (simp add: cap_agent_ids_def)

end
