(* ===== verification/Sandbox.thy ===== *)
theory Sandbox
  imports Utf8
begin

text \<open>
  \<open>_run_in_sandbox\<close> of \<open>app/services/ai.py\<close>: a script a model wrote is put into a temporary file and run
  by Docker. What the operating system does is an argument: writing the file answers its
  name, running a command answers exit code, standard output and standard error, and both may
  fail. The result is the commands that were run, in order, and what the method returns or raises.
\<close>

record sandbox =
  sb_temp :: "bytes \<Rightarrow> pystr outcome"
  sb_exec :: "pystr list \<Rightarrow> (int \<times> bytes \<times> bytes) outcome"

definition runsc :: pystr where
  "runsc = lit ''--runtime=runsc''"

definition docker_command :: "pystr \<Rightarrow> pystr list" where
  "docker_command name = [lit ''docker'', lit ''run'', lit ''--rm'', runsc, lit ''--network=none'', lit ''-v'',
     name @ lit '':/app/test.py:ro'', lit ''python:3.11-slim'', lit ''python'', lit ''/app/test.py'']"

definition gvisor_missing :: "int \<Rightarrow> bytes \<Rightarrow> bool outcome" where
  "gvisor_missing code err = (if code = 125 then Inr True
     else bind (decode_strict err) (\<lambda>s. Inr (contains (lit ''Unknown runtime'') s)))"

definition sandbox_error :: "exn \<Rightarrow> pydict" where
  "sandbox_error e = [(lit ''error'', PStr (exn_msg e))]"

definition sandbox_report :: "int \<times> bytes \<times> bytes \<Rightarrow> pydict outcome" where
  "sandbox_report r = (case r of (code, out, err) \<Rightarrow>
     bind (decode_strict out) (\<lambda>o_text. bind (decode_strict err) (\<lambda>e_text.
       Inr [(lit ''exit_code'', PInt code), (lit ''stdout'', PStr o_text), (lit ''stderr'', PStr e_text)])))"

text \<open>The \<open>try\<close> block: every exception in it becomes the returned dictionary.\<close>

definition or_error :: "pydict outcome \<Rightarrow> pydict" where
  "or_error r = (case r of Inl e \<Rightarrow> sandbox_error e | Inr d \<Rightarrow> d)"

definition run_container :: "sandbox \<Rightarrow> pystr \<Rightarrow> pystr list list \<times> pydict" where
  "run_container box name =
     (let cmd = docker_command name; plain = remove1 runsc cmd in
      case sb_exec box cmd of
        Inl e \<Rightarrow> ([cmd], sandbox_error e)
      | Inr (code, out, err) \<Rightarrow>
          (case gvisor_missing code err of
             Inl e \<Rightarrow> ([cmd], sandbox_error e)
           | Inr missing \<Rightarrow>
               if missing then ([cmd, plain], or_error (bind (sb_exec box plain) sandbox_report))
               else ([cmd], or_error (sandbox_report (code, out, err)))))"

text \<open>The file is written before the \<open>try\<close>: a script that is not a string or cannot be encoded raises.\<close>

definition run_in_sandbox :: "sandbox \<Rightarrow> pyval \<Rightarrow> pystr list list \<times> pydict outcome" where
  "run_in_sandbox box script_content =
     (case as_str script_content of
        None \<Rightarrow> ([], raise_exn TypeError (lit ''write() argument must be str''))
      | Some s \<Rightarrow> (case bind (utf8_encode s) (sb_temp box) of
          Inl e \<Rightarrow> ([], Inl e)
        | Inr name \<Rightarrow> (case run_container box name of (cmds, d) \<Rightarrow> (cmds, Inr d))))"

section \<open>Isolation\<close>

definition isolated :: "pystr list \<Rightarrow> bool" where
  "isolated cmd \<longleftrightarrow> lit ''--network=none'' \<in> set cmd \<and> lit ''--rm'' \<in> set cmd
     \<and> list_ex (ends (lit '':/app/test.py:ro'')) cmd"

text \<open>The first container ended with 125, or decodably said that it did not know the runtime.\<close>

definition claims_no_gvisor :: "sandbox \<Rightarrow> pystr \<Rightarrow> bool" where
  "claims_no_gvisor box name \<longleftrightarrow> (case sb_exec box (docker_command name) of
     Inl e \<Rightarrow> False | Inr (code, out, err) \<Rightarrow> gvisor_missing code err = Inr True)"

lemma plain_command: "remove1 runsc (docker_command name) = [lit ''docker'', lit ''run'', lit ''--rm'',
    lit ''--network=none'', lit ''-v'', name @ lit '':/app/test.py:ro'', lit ''python:3.11-slim'',
    lit ''python'', lit ''/app/test.py'']"
  by (simp add: docker_command_def runsc_def lit_def)

lemma ends_append [simp]: "ends p (s @ p)"
  by (auto simp: ends_iff)

lemma isolated_commands: "isolated (docker_command name)" "isolated (remove1 runsc (docker_command name))"
  by (simp_all add: isolated_def plain_command) (simp_all add: docker_command_def)

lemma run_container_commands:
  "fst (run_container box name) = docker_command name
     # (if claims_no_gvisor box name then [remove1 runsc (docker_command name)] else [])"
  by (auto simp: run_container_def claims_no_gvisor_def Let_def split: sum.splits prod.splits)


definition exit_box :: "int \<Rightarrow> sandbox" where
  "exit_box code = \<lparr>sb_temp = \<lambda>_. Inr (lit ''/tmp/a.py''), sb_exec = \<lambda>_. Inr (code, [], [])\<rparr>"


end
