(* ===== verification/Swarm.thy ===== *)
theory Swarm
  imports AgentOutput ReviewBudget Sandbox
begin

text \<open>
  The calls of \<open>AIService\<close> in \<open>app/services/ai.py\<close>: routing, the agents with their tool calls, the
  synthesis and \<open>analyze_diff\<close>. The model is an argument: it answers a request or raises, and is
  told which call it is (the calls of one review run concurrently but share nothing
  besides a semaphore that bounds how many are in flight, so the answers do not depend on their
  interleaving). Log lines and spans are left out; cancellation is not an exception here.
\<close>

section \<open>Requests\<close>

record tool_call =
  tc_id :: pystr
  tc_name :: pystr
  tc_arguments :: pyval

record reply =
  rp_content :: "pystr option"
  rp_tool_calls :: "tool_call list"

datatype message = Say pystr pystr | Assistant reply | ToolResult pystr pystr pystr

record request =
  rq_model :: pystr
  rq_temperature :: pyfloat
  rq_max_tokens :: int
  rq_num_retries :: int
  rq_api_base :: "pystr option"
  rq_extra_headers :: "(pystr \<times> pystr) list"
  rq_api_key :: "pystr option"
  rq_fallbacks :: "pystr list"
  rq_messages :: "message list"
  rq_tools :: "pyval list"
  rq_tool_choice :: "pystr option"

definition get_completion_kwargs :: "settings \<Rightarrow> pystr \<Rightarrow> request" where
  "get_completion_kwargs cfg model =
     (let routed = starts (lit ''openrouter/'') model in
      \<lparr>rq_model = model, rq_temperature = AI_TEMPERATURE cfg, rq_max_tokens = AI_MAX_TOKENS cfg,
       rq_num_retries = 3,
       rq_api_base = (if routed then Some (lit ''https://openrouter.ai/api/v1'')
         else non_empty (AI_API_BASE cfg)),
       rq_extra_headers = (if routed then [(lit ''HTTP-Referer'', lit ''https://revix.dev''),
         (lit ''X-Title'', PROJECT_NAME cfg)] else []),
       rq_api_key = non_empty (AI_API_KEY cfg), rq_fallbacks = AI_FALLBACK_MODELS cfg,
       rq_messages = [], rq_tools = [], rq_tool_choice = None\<rparr>)"

text \<open>Which completion of a review: the routing of a chunk, a round of an agent, a synthesis attempt.\<close>

datatype call = RouteCall nat | AgentCall nat nat nat | ReduceCall nat

record ai_env =
  ai_cfg :: settings
  ai_parse :: "grammar \<Rightarrow> parser"
  ai_read_float :: "pystr \<Rightarrow> pyfloat"
  ai_repr_float :: "pyfloat \<Rightarrow> pystr"
  ai_coerce_int :: "pyval \<Rightarrow> int option"
  ai_ask :: "call \<Rightarrow> request \<Rightarrow> reply outcome"
  ai_box :: "call \<Rightarrow> sandbox"

section \<open>Prompts and tools\<close>

definition language_directive :: pystr where
  "language_directive = lit ''Write every user-facing string in English, regardless of the language used in the code or its comments. ''"

definition coordinator_prompt :: pystr where
  "coordinator_prompt = lit ''You are the Swarm Coordinator. Analyze the PR intent and diff. ''
     @ lit ''Route specific code chunks to the appropriate sub-agents: ''
     @ lit ''ReviewAgent (logic), SecurityAgent (vulns), PerformanceAgent (speed), ''
     @ lit ''VerificationAgent (execution), PlanningAgent (alignment). ''
     @ lit ''Return a JSON list of routing decisions.''"

definition review_agent_prompt :: pystr where
  "review_agent_prompt = language_directive
     @ lit ''You are the Review Agent. Focus on logic, flow control, and edge-cases. ''
     @ lit ''Identify bugs and suggest fixes in JSON format. ''
     @ lit ''Review profile is chill: report only actionable defects likely to affect correctness, ''
     @ lit ''security, data integrity, or production behavior. Do not report style nitpicks, vague ''
     @ lit ''refactors, or duplicate concerns. Keep each finding concise.''"

definition security_agent_prompt :: pystr where
  "security_agent_prompt = language_directive
     @ lit ''You are the Security Agent. Focus on vulnerabilities, injection risks, and anomalous network calls. ''
     @ lit ''Identify risks and suggest fixes in JSON format. Report only exploitable or realistic risks.''"

definition performance_agent_prompt :: pystr where
  "performance_agent_prompt = language_directive
     @ lit ''You are the Performance Agent. Analyze asymptotic complexity and memory allocation. ''
     @ lit ''Identify bottlenecks and suggest optimizations in JSON format. Only comment when the issue ''
     @ lit ''is measurable or likely to affect production scale.''"

definition planning_agent_prompt :: pystr where
  "planning_agent_prompt = language_directive
     @ lit ''You are the Planning Agent. Compare the implementation with the PR intent/ticket. ''
     @ lit ''Ensure the changes align with the original requirements. Report only meaningful mismatches.''"

definition verification_agent_prompt :: pystr where
  "verification_agent_prompt = language_directive
     @ lit ''You are the Verification Agent. Generate a standalone Python script to test the logic of the provided code. ''
     @ lit ''The script will be executed in a gVisor sandbox. Use the '' @ [39] @ lit ''run_in_sandbox'' @ [39]
     @ lit '' tool only when execution can validate a concrete high-risk behavior.''"

definition agent_prompt :: "pystr \<Rightarrow> pystr" where
  "agent_prompt agent_id =
     (if agent_id = SecurityAgent then security_agent_prompt
      else if agent_id = PerformanceAgent then performance_agent_prompt
      else if agent_id = PlanningAgent then planning_agent_prompt
      else if agent_id = VerificationAgent then verification_agent_prompt
      else review_agent_prompt)"

text \<open>JSON objects with literal keys, and the schemas of the three tools.\<close>

definition obj :: "(string \<times> pyval) list \<Rightarrow> pyval" where
  "obj kvs = PDict (map (\<lambda>(k, v). (lit k, v)) kvs)"

definition txt_val :: "string \<Rightarrow> pyval" where
  "txt_val s = PStr (lit s)"

definition typed :: "string \<Rightarrow> pyval" where
  "typed t = obj [(''type'', txt_val t)]"

definition enum_type :: "string list \<Rightarrow> pyval" where
  "enum_type vs = obj [(''type'', txt_val ''string''), (''enum'', PList (map txt_val vs))]"

definition score_type :: pyval where
  "score_type = obj [(''type'', txt_val ''integer''), (''minimum'', PInt 0), (''maximum'', PInt 100)]"

definition function_tool :: "string \<Rightarrow> string \<Rightarrow> (string \<times> pyval) list \<Rightarrow> string list \<Rightarrow> pyval" where
  "function_tool name description properties needed =
     obj [(''type'', txt_val ''function''),
          (''function'', obj [(''name'', txt_val name), (''description'', txt_val description),
             (''parameters'', obj [(''type'', txt_val ''object''), (''properties'', obj properties),
                (''required'', PList (map txt_val needed))])])]"

definition submit_review_tool :: pyval where
  "submit_review_tool = function_tool ''submit_review'' ''Submit code review feedback''
     [(''summary'', typed ''string''), (''score'', score_type),
      (''comments'', obj [(''type'', txt_val ''array''),
         (''items'', obj [(''type'', txt_val ''object''),
            (''properties'', obj [(''path'', typed ''string''), (''line'', typed ''integer''),
               (''side'', enum_type [''LEFT'', ''RIGHT'']), (''body'', typed ''string''),
               (''severity'', enum_type [''INFO'', ''WARNING'', ''CRITICAL'']),
               (''suggested_fix'', typed ''string'')]),
            (''required'', PList (map txt_val [''path'', ''line'', ''body'', ''side'', ''severity'']))])])]
     [''summary'', ''score'', ''comments'']"

definition run_in_sandbox_tool :: pyval where
  "run_in_sandbox_tool = function_tool ''run_in_sandbox'' ''Run Python code in a gVisor sandbox''
     [(''script'', typed ''string'')] [''script'']"

definition synthesize_review_tool :: pyval where
  "synthesize_review_tool = function_tool ''synthesize_review'' ''Synthesize multiple review chunks''
     [(''global_summary'', typed ''string''), (''global_score'', score_type)]
     [''global_summary'', ''global_score'']"

definition agent_tools :: "pystr \<Rightarrow> pyval list" where
  "agent_tools agent_id = submit_review_tool
     # (if agent_id = VerificationAgent then [run_in_sandbox_tool] else [])"

section \<open>Routing\<close>

definition routing_prompt :: "pystr \<Rightarrow> pystr \<Rightarrow> pystr" where
  "routing_prompt chunk intent =
     lit ''Decide which agents should analyze this code chunk based on the PR intent.'' @ [NL]
     @ lit ''Use a chill review profile: choose the fewest agents needed, prefer ReviewAgent ''
     @ lit ''or SecurityAgent, and avoid VerificationAgent unless execution is clearly valuable.'' @ [NL]
     @ lit ''PR INTENT:'' @ [NL] @ intent @ [NL, NL]
     @ lit ''CODE CHUNK:'' @ [NL] @ chunk @ [NL, NL]
     @ lit ''AVAILABLE AGENTS: ReviewAgent, SecurityAgent, PerformanceAgent, VerificationAgent, PlanningAgent.'' @ [NL]
     @ lit ''Return only a JSON list of agent IDs.''"

text \<open>The \<open>try\<close> block up to the normalization: what the coordinator answered.\<close>

definition coordinator_answer :: "ai_env \<Rightarrow> nat \<Rightarrow> pystr \<Rightarrow> pystr \<Rightarrow> pyval outcome" where
  "coordinator_answer env i chunk intent =
     bind (ai_ask env (RouteCall i) ((get_completion_kwargs (ai_cfg env) (AI_MODEL_MAP (ai_cfg env)))
        \<lparr>rq_messages := [Say (lit ''system'') coordinator_prompt, Say (lit ''user'') (routing_prompt chunk intent)]\<rparr>))
     (\<lambda>response. case non_empty (rp_content response) of
        None \<Rightarrow> raise_exn ValueError (lit ''Empty response from Coordinator'')
      | Some content \<Rightarrow> extract_json_payload (ai_read_float env) content)"

definition coordinate_routing :: "ai_env \<Rightarrow> nat \<Rightarrow> pystr \<Rightarrow> pystr \<Rightarrow> pystr list" where
  "coordinate_routing env i chunk intent =
     (case coordinator_answer env i chunk intent of
        Inl e \<Rightarrow> [ReviewAgent, SecurityAgent]
      | Inr data \<Rightarrow> cap_agent_ids (ai_cfg env) (normalize_agent_ids (ai_cfg env) data chunk))"

section \<open>One agent on one chunk\<close>

text \<open>
  The effects of an agent in order: the completions it asked for and the containers it started.
\<close>

datatype effect = Asked request | Ran "pystr list"

record agent_state =
  ag_reply :: reply
  ag_messages :: "message list"
  ag_rounds :: nat
  ag_effects :: "effect list"

definition tool_name_sandbox :: pystr where
  "tool_name_sandbox = lit ''run_in_sandbox''"

text \<open>The script of a sandbox call, run, with what \<open>json.dumps\<close> makes of the result.\<close>

definition sandbox_round :: "ai_env \<Rightarrow> call \<Rightarrow> tool_call \<Rightarrow> pystr list list \<times> pystr outcome" where
  "sandbox_round env c tc =
     (case bind (parse_tool_arguments (ai_read_float env) (tc_arguments tc))
             (\<lambda>args. dict_item args (lit ''script'')) of
        Inl e \<Rightarrow> ([], Inl e)
      | Inr script \<Rightarrow> (case run_in_sandbox (ai_box env c) script of (cmds, res) \<Rightarrow>
          (cmds, bind res (\<lambda>d. Inr (json_dumps (ai_repr_float env) (PDict d))))))"

text \<open>
  The body of the loop over the tool calls of the first answer: a sandbox call runs its script,
  appends the current message and the result to the conversation and asks again.
\<close>

definition tool_step :: "ai_env \<Rightarrow> nat \<Rightarrow> nat \<Rightarrow> request \<Rightarrow> tool_call \<Rightarrow> agent_state \<Rightarrow> agent_state \<times> unit outcome" where
  "tool_step env i j base tc st =
     (if tc_name tc \<noteq> tool_name_sandbox then (st, Inr ())
      else (case sandbox_round env (AgentCall i j (ag_rounds st)) tc of
          (cmds, Inl e) \<Rightarrow> (st\<lparr>ag_effects := ag_effects st @ map Ran cmds\<rparr>, Inl e)
        | (cmds, Inr content) \<Rightarrow>
            (let msgs = ag_messages st @ [Assistant (ag_reply st),
                   ToolResult (tc_id tc) tool_name_sandbox content];
                 rq = base\<lparr>rq_messages := msgs\<rparr>;
                 asked = st\<lparr>ag_messages := msgs, ag_effects := ag_effects st @ map Ran cmds @ [Asked rq]\<rparr>
             in case ai_ask env (AgentCall i j (Suc (ag_rounds st))) rq of
                  Inl e \<Rightarrow> (asked, Inl e)
                | Inr response \<Rightarrow> (asked\<lparr>ag_reply := response, ag_rounds := Suc (ag_rounds st)\<rparr>, Inr ()))))"

fun tool_loop :: "ai_env \<Rightarrow> nat \<Rightarrow> nat \<Rightarrow> request \<Rightarrow> tool_call list \<Rightarrow> agent_state \<Rightarrow> agent_state \<times> unit outcome" where
  "tool_loop env i j base [] st = (st, Inr ())"
| "tool_loop env i j base (tc # tcs) st = (case tool_step env i j base tc st of
     (st', Inl e) \<Rightarrow> (st', Inl e) | (st', Inr u) \<Rightarrow> tool_loop env i j base tcs st')"

definition tag_comments :: "pystr \<Rightarrow> review_result \<Rightarrow> review_result" where
  "tag_comments agent_id res =
     res\<lparr>res_comments := map (\<lambda>c. c\<lparr>rc_agent_id := Some agent_id\<rparr>) (res_comments res)\<rparr>"

text \<open>The answer in the text of a message; a text that is not a review is only logged.\<close>

definition text_review :: "ai_env \<Rightarrow> pystr \<Rightarrow> reply \<Rightarrow> review_result option" where
  "text_review env agent_id m = (case non_empty (rp_content m) of None \<Rightarrow> None
     | Some content \<Rightarrow>
         (case bind (extract_json_payload (ai_read_float env) content) (validate_result (ai_coerce_int env)) of
            Inl e \<Rightarrow> None | Inr res \<Rightarrow> Some (tag_comments agent_id res)))"

text \<open>The first \<open>submit_review\<close> call decides, whether it validates or raises.\<close>

definition final_review :: "ai_env \<Rightarrow> pystr \<Rightarrow> reply \<Rightarrow> review_result option outcome" where
  "final_review env agent_id m =
     (case find (\<lambda>tc. tc_name tc = lit ''submit_review'') (rp_tool_calls m) of
        Some tc \<Rightarrow> bind (parse_tool_arguments (ai_read_float env) (tc_arguments tc)) (\<lambda>d.
          bind (validate_result (ai_coerce_int env) (PDict d)) (\<lambda>res. Inr (Some (tag_comments agent_id res))))
      | None \<Rightarrow> Inr (text_review env agent_id m))"

definition or_none :: "'a option outcome \<Rightarrow> 'a option" where
  "or_none r = (case r of Inl e \<Rightarrow> None | Inr x \<Rightarrow> x)"

definition agent_request :: "ai_env \<Rightarrow> pystr \<Rightarrow> pystr \<Rightarrow> pystr \<Rightarrow> pystr \<Rightarrow> request" where
  "agent_request env agent_id system_prompt chunk intent =
     (let prompt = lit ''PR INTENT:'' @ [NL] @ intent @ [NL, NL] @ lit ''CODE:'' @ [NL] @ chunk
      in (get_completion_kwargs (ai_cfg env) (AI_MODEL_MAP (ai_cfg env)))
           \<lparr>rq_messages := [Say (lit ''system'') system_prompt, Say (lit ''user'') prompt],
            rq_tools := agent_tools agent_id, rq_tool_choice := Some (lit ''auto'')\<rparr>)"

definition analyze_chunk_with_agent ::
    "ai_env \<Rightarrow> nat \<Rightarrow> nat \<Rightarrow> pystr \<Rightarrow> pystr \<Rightarrow> pystr \<Rightarrow> pystr \<Rightarrow> review_result option \<times> effect list" where
  "analyze_chunk_with_agent env i j agent_id system_prompt chunk intent =
     (let rq = agent_request env agent_id system_prompt chunk intent in
      case ai_ask env (AgentCall i j 0) rq of
        Inl e \<Rightarrow> (None, [Asked rq])
      | Inr m \<Rightarrow>
          (case tool_loop env i j rq (rp_tool_calls m)
              \<lparr>ag_reply = m, ag_messages = rq_messages rq, ag_rounds = 0, ag_effects = [Asked rq]\<rparr> of
             (st, Inl e) \<Rightarrow> (None, ag_effects st)
           | (st, Inr u) \<Rightarrow> (or_none (final_review env agent_id (ag_reply st)), ag_effects st)))"

definition execute_agent ::
    "ai_env \<Rightarrow> nat \<Rightarrow> nat \<Rightarrow> pystr \<Rightarrow> pystr \<Rightarrow> pystr \<Rightarrow> review_result option \<times> effect list" where
  "execute_agent env i j agent_id chunk intent =
     analyze_chunk_with_agent env i j agent_id (agent_prompt agent_id) chunk intent"

section \<open>Synthesis\<close>

definition summaries_text :: "pystr list \<Rightarrow> pystr" where
  "summaries_text summaries = lit ''Summaries:'' @ [NL] @ join [NL] summaries"

definition reduce_request :: "ai_env \<Rightarrow> pystr list \<Rightarrow> request" where
  "reduce_request env summaries =
     (get_completion_kwargs (ai_cfg env) (AI_MODEL_REDUCE (ai_cfg env)))
       \<lparr>rq_messages := [Say (lit ''system'')
            (language_directive @ lit ''Synthesize these summaries into one global review.''),
          Say (lit ''user'') (summaries_text summaries)],
        rq_tools := [synthesize_review_tool], rq_tool_choice := Some (lit ''required'')\<rparr>"

text \<open>\<open>tool_calls[0]\<close>: \<open>None\<close> and the empty list both raise.\<close>

definition first_tool_call :: "reply \<Rightarrow> tool_call outcome" where
  "first_tool_call m = (case rp_tool_calls m of
     [] \<Rightarrow> raise_exn IndexError (lit ''list index out of range'') | tc # _ \<Rightarrow> Inr tc)"

definition structured_reduce :: "ai_env \<Rightarrow> pystr list \<Rightarrow> review_comment list \<Rightarrow> review_result outcome" where
  "structured_reduce env summaries comments =
     bind (ai_ask env (ReduceCall 0) (reduce_request env summaries)) (\<lambda>response.
     bind (first_tool_call response) (\<lambda>tc.
     bind (parse_tool_arguments (ai_read_float env) (tc_arguments tc)) (\<lambda>output.
     bind (dict_item output (lit ''global_summary'')) (\<lambda>summary.
     bind (dict_item output (lit ''global_score'')) (\<lambda>score.
     make_result (ai_coerce_int env) summary score comments)))))"

definition reduce_fallback_request :: "ai_env \<Rightarrow> pystr list \<Rightarrow> request" where
  "reduce_fallback_request env summaries =
     (let q = [39];
          prompt = lit ''Synthesize these summaries into one global review.'' @ [NL]
            @ lit ''You must respond with a JSON object containing:'' @ [NL]
            @ lit ''- '' @ q @ lit ''global_summary'' @ q @ lit '': a string summary of the changes'' @ [NL]
            @ lit ''- '' @ q @ lit ''global_score'' @ q @ lit '': an integer score from 0 to 100'' @ [NL, NL]
            @ summaries_text summaries
      in (get_completion_kwargs (ai_cfg env) (AI_MODEL_REDUCE (ai_cfg env)))
           \<lparr>rq_messages := [Say (lit ''system'')
                (language_directive @ lit ''You are a review synthesis helper. Output JSON only.''),
              Say (lit ''user'') prompt]\<rparr>)"

definition text_reduce :: "ai_env \<Rightarrow> pystr list \<Rightarrow> review_comment list \<Rightarrow> review_result option outcome" where
  "text_reduce env summaries comments =
     bind (ai_ask env (ReduceCall 1) (reduce_fallback_request env summaries)) (\<lambda>response.
     case non_empty (rp_content response) of None \<Rightarrow> Inr None
     | Some content \<Rightarrow>
         bind (extract_json_payload (ai_read_float env) content) (\<lambda>data.
         bind (subscript data (lit ''global_summary'')) (\<lambda>summary.
         bind (subscript data (lit ''global_score'')) (\<lambda>score.
         bind (to_int score) (\<lambda>n.
         bind (make_result (ai_coerce_int env) summary (PInt n) comments) (\<lambda>res. Inr (Some res)))))))"

definition synthesis_failed :: "review_comment list \<Rightarrow> review_result" where
  "synthesis_failed comments = \<lparr>res_summary = lit ''Synthesis failed.'', res_score = 0,
     res_comments = comments, res_agent_reports = []\<rparr>"

definition reduce_summaries :: "ai_env \<Rightarrow> pystr list \<Rightarrow> review_comment list \<Rightarrow> review_result" where
  "reduce_summaries env summaries comments =
     (case structured_reduce env summaries comments of
        Inr res \<Rightarrow> res
      | Inl e \<Rightarrow> (case or_none (text_reduce env summaries comments) of
          Some res \<Rightarrow> res | None \<Rightarrow> synthesis_failed comments))"

section \<open>The review of a pull request\<close>

definition review_intent :: "(pyval \<Rightarrow> pystr) \<Rightarrow> pydict \<Rightarrow> pystr" where
  "review_intent str_of pr_details =
     lit ''TITLE: '' @ show_field str_of (dict_get pr_details (lit ''title'')) @ [NL]
     @ lit ''BODY: '' @ show_field str_of (dict_get pr_details (lit ''body''))"

text \<open>The agents of every chunk, by the number of the chunk and the position of the agent.\<close>

definition agent_tasks :: "ai_env \<Rightarrow> pystr list \<Rightarrow> pystr \<Rightarrow> (nat \<times> nat \<times> pystr \<times> pystr) list" where
  "agent_tasks env chunks intent = concat (map (\<lambda>(i, chunk).
     map (\<lambda>(j, agent_id). (i, j, agent_id, chunk))
       (enumerate 0 (cap_agent_ids (ai_cfg env) (coordinate_routing env i chunk intent))))
     (enumerate 0 chunks))"

definition agent_results :: "ai_env \<Rightarrow> pystr list \<Rightarrow> pystr \<Rightarrow> review_result list" where
  "agent_results env chunks intent = List.map_filter
     (\<lambda>(i, j, agent_id, chunk). fst (execute_agent env i j agent_id chunk intent))
     (agent_tasks env chunks intent)"

definition no_issues :: review_result where
  "no_issues = \<lparr>res_summary = lit ''No issues found by swarm.'', res_score = 100,
     res_comments = [], res_agent_reports = []\<rparr>"

definition review_chunks :: "ai_env \<Rightarrow> pystr list \<Rightarrow> pystr \<Rightarrow> review_result" where
  "review_chunks env chunks intent =
     (if agent_tasks env chunks intent = [] then no_issues
      else (let results = agent_results env chunks intent
        in reduce_summaries env (map res_summary results) (concat (map res_comments results))))"

definition analyze_diff :: "ai_env \<Rightarrow> (pyval \<Rightarrow> pystr) \<Rightarrow> pr_file list \<Rightarrow> pydict \<Rightarrow> review_result outcome" where
  "analyze_diff env str_of pr_files pr_details =
     bind (build_review_chunks (ai_parse env) (ai_cfg env) pr_files) (\<lambda>chunks.
       Inr (review_chunks env chunks (review_intent str_of pr_details)))"

section \<open>Routing always decides\<close>

lemma agents_differ [simp]: "SecurityAgent \<noteq> ReviewAgent" "SecurityAgent \<noteq> VerificationAgent"
  "ReviewAgent \<noteq> SecurityAgent"
  by (simp_all add: agent_defs lit_def)

lemma lowest_priority: "agent_priority b \<le> agent_priority SecurityAgent \<Longrightarrow> b = SecurityAgent"
  by (simp add: agent_priority_def split: if_splits)

lemma cap_keeps_security:
  assumes "distinct agents" "1 \<le> REVIEW_MAX_AGENTS_PER_CHUNK cfg"
  shows "SecurityAgent \<in> set (cap_agent_ids cfg agents) \<longleftrightarrow> SecurityAgent \<in> set agents"
proof
  assume sec: "SecurityAgent \<in> set agents"
  then have "agents \<noteq> []" by auto
  note cap = cap_agent_ids_props [OF this assms]
  show "SecurityAgent \<in> set (cap_agent_ids cfg agents)"
  proof (rule ccontr)
    assume out: "SecurityAgent \<notin> set (cap_agent_ids cfg agents)"
    obtain b where b: "b \<in> set (cap_agent_ids cfg agents)" using cap(1) by (meson list.set_sel(1))
    with cap_agent_ids_best [OF sec out] out show False using lowest_priority by blast
  qed
next
  assume "SecurityAgent \<in> set (cap_agent_ids cfg agents)"
  then show "SecurityAgent \<in> set agents"
    using set_slice_to [of _ "py_sorted agent_priority agents"]
    by (auto simp: cap_agent_ids_def split: if_splits)
qed

text \<open>What the coordinator is taken to have proposed: on any failure the two standard agents.\<close>

definition wanted_agents :: "ai_env \<Rightarrow> nat \<Rightarrow> pystr \<Rightarrow> pystr \<Rightarrow> pystr list" where
  "wanted_agents env i chunk intent = (case coordinator_answer env i chunk intent of
     Inl e \<Rightarrow> [ReviewAgent, SecurityAgent] | Inr v \<Rightarrow> normalize_agent_ids (ai_cfg env) v chunk)"

lemma wanted_agents_props:
  "wanted_agents env i chunk intent \<noteq> []" "distinct (wanted_agents env i chunk intent)"
  "set (wanted_agents env i chunk intent) \<subseteq> set valid_agent_ids"
  using normalize_agent_ids_props
  by (auto simp: wanted_agents_def valid_agent_ids_def split: sum.splits)

lemma routed_agents:
  "0 \<le> REVIEW_MAX_AGENTS_PER_CHUNK (ai_cfg env) \<Longrightarrow>
     cap_agent_ids (ai_cfg env) (coordinate_routing env i chunk intent)
     = cap_agent_ids (ai_cfg env) (wanted_agents env i chunk intent)"
  by (simp add: coordinate_routing_def wanted_agents_def cap_agent_ids_idem split: sum.split)

text \<open>
  Every chunk is reviewed: whatever the coordinator answers, and also when it
  fails or answers no JSON, the agents that run on a chunk are a non-empty list of distinct valid
  agents within the cap, namely the most important ones of those proposed; the security agent
  runs exactly when the coordinator failed or proposed it, never losing its place to another.
\<close>

theorem routing_decides:
  assumes "1 \<le> REVIEW_MAX_AGENTS_PER_CHUNK (ai_cfg env)"
    and "ids = cap_agent_ids (ai_cfg env) (coordinate_routing env i chunk intent)"
  shows "ids \<noteq> [] \<and> distinct ids \<and> set ids \<subseteq> set valid_agent_ids
    \<and> int (length ids) \<le> REVIEW_MAX_AGENTS_PER_CHUNK (ai_cfg env)
    \<and> (\<forall>a b. a \<in> set (wanted_agents env i chunk intent) \<longrightarrow> a \<notin> set ids \<longrightarrow> b \<in> set ids \<longrightarrow>
         agent_priority b \<le> agent_priority a)
    \<and> (SecurityAgent \<in> set ids \<longleftrightarrow> (case coordinator_answer env i chunk intent of
         Inl e \<Rightarrow> True | Inr v \<Rightarrow> SecurityAgent \<in> set (valid_proposals (proposed_agents v))))"
proof -
  note wanted = wanted_agents_props [of env i chunk intent]
  have ids: "ids = cap_agent_ids (ai_cfg env) (wanted_agents env i chunk intent)"
    using assms routed_agents by simp
  note cap = cap_agent_ids_props [OF wanted(1,2) assms(1), folded ids]
  have "SecurityAgent \<in> set (wanted_agents env i chunk intent) \<longleftrightarrow>
    (case coordinator_answer env i chunk intent of
       Inl e \<Rightarrow> True | Inr v \<Rightarrow> SecurityAgent \<in> set (valid_proposals (proposed_agents v)))"
    by (auto simp: wanted_agents_def in_normalize split: sum.split)
  then have "SecurityAgent \<in> set ids \<longleftrightarrow> (case coordinator_answer env i chunk intent of
       Inl e \<Rightarrow> True | Inr v \<Rightarrow> SecurityAgent \<in> set (valid_proposals (proposed_agents v)))"
    using cap_keeps_security [OF wanted(2) assms(1)] ids by simp
  moreover have "int (length ids) \<le> REVIEW_MAX_AGENTS_PER_CHUNK (ai_cfg env)" using cap(4) by simp
  ultimately show ?thesis
    using cap(1,2,3) wanted(3) cap_agent_ids_best ids by blast
qed

definition down_env :: ai_env where
  "down_env = \<lparr>ai_cfg = default_settings,
     ai_parse = \<lambda>g src. Node \<lparr>n_type = lit ''module'', n_start_byte = 0, n_end_byte = 0, n_start_row = 0,
       n_end_row = 0, n_field = None, n_has_error = False\<rparr> [],
     ai_read_float = \<lambda>_. NaN, ai_repr_float = \<lambda>_. [], ai_coerce_int = as_int,
     ai_ask = \<lambda>c rq. raise_exn LLMError (lit ''429 rate_limit''),
     ai_box = \<lambda>c. \<lparr>sb_temp = \<lambda>_. raise_exn OSError [], sb_exec = \<lambda>_. raise_exn OSError []\<rparr>\<rparr>"

theorem routing_decides_witness:
  "SecurityAgent \<in> set (cap_agent_ids default_settings (coordinate_routing down_env 0 [] []))"
  using routing_decides [of down_env "cap_agent_ids (ai_cfg down_env) (coordinate_routing down_env 0 [] [])" 0 "[]" "[]"]
  by (simp add: down_env_def default_settings_def coordinator_answer_def raise_exn_def)

section \<open>What an agent does and returns\<close>

lemma tag_comments_ok: "result_ok res \<Longrightarrow> result_ok (tag_comments a res)"
  by (auto simp: result_ok_def tag_comments_def comment_ok_def list_all_iff)

definition tagged :: "pystr \<Rightarrow> review_result \<Rightarrow> bool" where
  "tagged a r \<longleftrightarrow> list_all (\<lambda>c. rc_agent_id c = Some a) (res_comments r)"

lemma tag_comments_tagged [simp]: "tagged a (tag_comments a res)"
  by (simp add: tagged_def tag_comments_def list_all_iff)

lemma text_review_ok: "text_review env a m = Some r \<Longrightarrow> result_ok r \<and> tagged a r"
  by (auto simp: text_review_def bind_Inr_iff split: option.splits sum.splits
      intro: tag_comments_ok validate_result_ok)

lemma final_review_ok: "final_review env a m = Inr (Some r) \<Longrightarrow> result_ok r \<and> tagged a r"
  by (auto simp: final_review_def bind_Inr_iff text_review_ok split: option.splits
      intro: tag_comments_ok validate_result_ok)

lemma execute_agent_ok:
  "fst (execute_agent env i j a chunk intent) = Some r \<Longrightarrow> result_ok r \<and> tagged a r"
  by (auto simp: execute_agent_def analyze_chunk_with_agent_def Let_def or_none_def final_review_ok
      split: sum.splits prod.splits)

text \<open>What an effect of an agent may be.\<close>

fun effect_ok :: "ai_env \<Rightarrow> pystr \<Rightarrow> effect \<Rightarrow> bool" where
  "effect_ok env a (Ran cmd) \<longleftrightarrow> isolated cmd"
| "effect_ok env a (Asked rq) \<longleftrightarrow> rq_model rq = AI_MODEL_MAP (ai_cfg env) \<and> rq_tools rq = agent_tools a
     \<and> take 1 (rq_messages rq) = [Say (lit ''system'') (agent_prompt a)]"

lemma run_in_sandbox_isolated:
  "list_all isolated (fst (run_in_sandbox box v)) \<and> length (fst (run_in_sandbox box v)) \<le> 2"
proof -
  have "list_all isolated (fst (run_container box name)) \<and> length (fst (run_container box name)) \<le> 2" for name
    using isolated_commands by (simp add: run_container_commands)
  then show ?thesis
    by (auto simp: run_in_sandbox_def split: option.splits sum.splits prod.splits) (metis fst_conv)+
qed

lemma sandbox_round_isolated:
  assumes "sandbox_round env c tc = (cmds, r)"
  shows "list_all isolated cmds \<and> length cmds \<le> 2"
proof (cases "bind (parse_tool_arguments (ai_read_float env) (tc_arguments tc))
    (\<lambda>args. dict_item args (lit ''script''))")
  case (Inr v)
  with assms have "cmds = fst (run_in_sandbox (ai_box env c) v)"
    by (auto simp: sandbox_round_def split: prod.splits)
  then show ?thesis using run_in_sandbox_isolated by simp
qed (use assms in \<open>simp add: sandbox_round_def\<close>)

text \<open>The invariant of the loop: the conversation starts with the system prompt, every effect is fine.\<close>

definition agent_inv :: "ai_env \<Rightarrow> pystr \<Rightarrow> agent_state \<Rightarrow> bool" where
  "agent_inv env a st \<longleftrightarrow> list_all (effect_ok env a) (ag_effects st)
     \<and> take 1 (ag_messages st) = [Say (lit ''system'') (agent_prompt a)]"

lemma tool_step_inv:
  assumes "tool_step env i j base tc st = (st', r)" "agent_inv env a st"
    and "rq_model base = AI_MODEL_MAP (ai_cfg env)" "rq_tools base = agent_tools a"
  shows "agent_inv env a st' \<and> length (ag_effects st') \<le> length (ag_effects st)
      + (if tc_name tc = tool_name_sandbox then 3 else 0)"
proof (cases "tc_name tc = tool_name_sandbox")
  case True
  obtain cmds res where round: "sandbox_round env (AgentCall i j (ag_rounds st)) tc = (cmds, res)"
    by fastforce
  have cmds: "list_all isolated cmds" "length cmds \<le> 2" using sandbox_round_isolated [OF round] by auto
  then have ran: "list_all (effect_ok env a) (map Ran cmds)" by (simp add: list_all_iff)
  obtain m ms where ms: "ag_messages st = m # ms" "m = Say (lit ''system'') (agent_prompt a)"
    using assms(2) by (cases "ag_messages st") (auto simp: agent_inv_def)
  show ?thesis
  proof (cases res)
    case (Inl e)
    with assms(1,2) True round ran cmds show ?thesis
      by (auto simp: tool_step_def agent_inv_def)
  next
    case (Inr content)
    with assms True round ran cmds ms show ?thesis
      by (auto simp: tool_step_def agent_inv_def Let_def split: sum.splits)
  qed
qed (use assms in \<open>auto simp: tool_step_def\<close>)

lemma tool_loop_inv:
  assumes "tool_loop env i j base tcs st = (st', r)" "agent_inv env a st"
    and "rq_model base = AI_MODEL_MAP (ai_cfg env)" "rq_tools base = agent_tools a"
  shows "agent_inv env a st' \<and> length (ag_effects st') \<le> length (ag_effects st)
      + 3 * length (filter (\<lambda>tc. tc_name tc = tool_name_sandbox) tcs)"
  using assms(1,2)
proof (induction tcs arbitrary: st)
  case (Cons tc tcs)
  obtain st1 r1 where step: "tool_step env i j base tc st = (st1, r1)" by fastforce
  note inv = tool_step_inv [OF step Cons.prems(2) assms(3,4)]
  show ?case
  proof (cases r1)
    case (Inl e)
    with Cons.prems step inv show ?thesis by auto
  next
    case (Inr u)
    with Cons.prems step have "tool_loop env i j base tcs st1 = (st', r)" by simp
    with Cons.IH inv show ?thesis by fastforce
  qed
qed simp

text \<open>The sandbox calls of the agent's first answer, the only ones it acts on.\<close>

definition sandbox_calls :: "ai_env \<Rightarrow> nat \<Rightarrow> nat \<Rightarrow> pystr \<Rightarrow> pystr \<Rightarrow> pystr \<Rightarrow> nat" where
  "sandbox_calls env i j a chunk intent =
     (case ai_ask env (AgentCall i j 0) (agent_request env a (agent_prompt a) chunk intent) of
        Inl e \<Rightarrow> 0
      | Inr m \<Rightarrow> length (filter (\<lambda>tc. tc_name tc = tool_name_sandbox) (rp_tool_calls m)))"

text \<open>
  An agent's run is bounded and contained: it asks once and then makes at most three effects
  (two containers and a question) for each sandbox call of the first answer, whatever later answers
  demand; every container is isolated, and every request goes to the configured model with
  the tools of the agent and its system prompt first.
\<close>

theorem agent_effort_bounded:
  shows "length (snd (execute_agent env i j a chunk intent)) \<le> 1 + 3 * sandbox_calls env i j a chunk intent
    \<and> list_all (effect_ok env a) (snd (execute_agent env i j a chunk intent))"
proof -
  let ?rq = "agent_request env a (agent_prompt a) chunk intent"
  have rq: "rq_model ?rq = AI_MODEL_MAP (ai_cfg env)" "rq_tools ?rq = agent_tools a"
    "take 1 (rq_messages ?rq) = [Say (lit ''system'') (agent_prompt a)]"
    by (simp_all add: agent_request_def get_completion_kwargs_def Let_def)
  show ?thesis
  proof (cases "ai_ask env (AgentCall i j 0) ?rq")
    case (Inl e)
    with rq show ?thesis
      by (simp add: execute_agent_def analyze_chunk_with_agent_def sandbox_calls_def Let_def)
  next
    case (Inr m)
    let ?st = "\<lparr>ag_reply = m, ag_messages = rq_messages ?rq, ag_rounds = 0, ag_effects = [Asked ?rq]\<rparr>"
    obtain st r where loop: "tool_loop env i j ?rq (rp_tool_calls m) ?st = (st, r)" by fastforce
    have "snd (execute_agent env i j a chunk intent) = ag_effects st"
      using Inr loop by (simp add: execute_agent_def analyze_chunk_with_agent_def Let_def split: sum.split)
    moreover have "agent_inv env a ?st" using rq by (simp add: agent_inv_def)
    ultimately show ?thesis
      using tool_loop_inv [OF loop _ rq(1,2)] Inr by (simp add: agent_inv_def sandbox_calls_def)
  qed
qed

section \<open>No finding is lost\<close>

lemma reduce_summaries_ok:
  assumes "list_all comment_ok comments"
  shows "result_ok (reduce_summaries env summaries comments)
    \<and> res_comments (reduce_summaries env summaries comments) = comments"
proof -
  have "result_ok res \<and> res_comments res = comments"
    if "structured_reduce env summaries comments = Inr res" for res
    using that make_result_ok [OF _ assms] by (auto simp: structured_reduce_def bind_Inr_iff)
  moreover have "result_ok res \<and> res_comments res = comments"
    if "text_reduce env summaries comments = Inr (Some res)" for res
    using that make_result_ok [OF _ assms]
    by (auto simp: text_reduce_def bind_Inr_iff split: option.splits)
  moreover have "result_ok (synthesis_failed comments) \<and> res_comments (synthesis_failed comments) = comments"
    using assms by (simp add: synthesis_failed_def result_ok_def)
  ultimately show ?thesis
    by (auto simp: reduce_summaries_def or_none_def split: sum.splits option.splits)
qed

lemma agent_results_ok: "r \<in> set (agent_results env chunks intent) \<Longrightarrow> result_ok r"
  by (auto simp: agent_results_def List.map_filter_def intro: execute_agent_ok [THEN conjunct1])

lemma agent_tasks_Nil:
  assumes "1 \<le> REVIEW_MAX_AGENTS_PER_CHUNK (ai_cfg env)"
  shows "agent_tasks env chunks intent = [] \<longleftrightarrow> chunks = []"
proof -
  have "cap_agent_ids (ai_cfg env) (coordinate_routing env i chunk intent) \<noteq> []" for i chunk
    using routed_agents [of env i chunk intent] wanted_agents_props(1,2) [of env i chunk intent]
      cap_agent_ids_props(1) assms by simp
  then have "enumerate 0 (cap_agent_ids (ai_cfg env) (coordinate_routing env i chunk intent)) \<noteq> []" for i chunk
    by (metis length_enumerate length_0_conv)
  moreover have "enumerate 0 chunks = [] \<longleftrightarrow> chunks = []" by (metis length_enumerate length_0_conv)
  ultimately show ?thesis by (cases "enumerate 0 chunks") (auto simp: agent_tasks_def)
qed

text \<open>
  C17. A review always comes out of the swarm once its chunks are built, its score is
  between 0 and 100, and its comments are exactly the comments of all agents that answered, in the
  order of chunks and agents: the synthesis can neither drop nor change nor add one, nor can its
  failure. Without any chunk the result is the perfect score.
\<close>

theorem review_keeps_findings:
  assumes "1 \<le> REVIEW_MAX_AGENTS_PER_CHUNK (ai_cfg env)"
    and "build_review_chunks (ai_parse env) (ai_cfg env) pr_files = Inr chunks"
    and "intent = review_intent str_of pr_details"
  shows "\<exists>r. analyze_diff env str_of pr_files pr_details = Inr r \<and> result_ok r
    \<and> res_comments r = concat (map res_comments (agent_results env chunks intent))
    \<and> (chunks = [] \<longleftrightarrow> agent_tasks env chunks intent = []) \<and> (chunks = [] \<longrightarrow> r = no_issues)"
proof -
  have "list_all comment_ok (concat (map res_comments (agent_results env chunks intent)))"
    using agent_results_ok by (fastforce simp: list_all_iff result_ok_def)
  moreover have "agent_results env chunks intent = []" if "agent_tasks env chunks intent = []"
    using that by (simp add: agent_results_def map_filter_def)
  moreover have "result_ok no_issues" by (simp add: no_issues_def result_ok_def)
  ultimately have "result_ok (review_chunks env chunks intent)
    \<and> res_comments (review_chunks env chunks intent) = concat (map res_comments (agent_results env chunks intent))
    \<and> (chunks = [] \<longrightarrow> review_chunks env chunks intent = no_issues)"
    using reduce_summaries_ok agent_tasks_Nil [OF assms(1), of chunks intent]
    by (auto simp: review_chunks_def Let_def) (simp_all add: no_issues_def)
  then show ?thesis
    using assms agent_tasks_Nil [OF assms(1), of chunks intent] by (simp add: analyze_diff_def)
qed

section \<open>The type of what the swarm returns\<close>

lemma routed_valid:
  "set (cap_agent_ids (ai_cfg env) (coordinate_routing env i chunk intent)) \<subseteq> set valid_agent_ids"
proof -
  have cap: "set (cap_agent_ids cfg agents) \<subseteq> set agents" for cfg agents
    using set_slice_to [of "REVIEW_MAX_AGENTS_PER_CHUNK cfg" "py_sorted agent_priority agents"]
    by (auto simp: cap_agent_ids_def)
  have "set (coordinate_routing env i chunk intent) \<subseteq> set valid_agent_ids"
  proof (cases "coordinator_answer env i chunk intent")
    case (Inr data)
    then show ?thesis
      using subset_trans [OF cap normalize_agent_ids_props(3)] by (simp add: coordinate_routing_def)
  qed (simp add: coordinate_routing_def valid_agent_ids_def)
  with cap show ?thesis by blast
qed

lemma agent_results_tagged:
  assumes "r \<in> set (agent_results env chunks intent)"
  shows "\<exists>a \<in> set valid_agent_ids. tagged a r"
proof -
  obtain i j a chunk where task: "(i, j, a, chunk) \<in> set (agent_tasks env chunks intent)"
    "fst (execute_agent env i j a chunk intent) = Some r"
    using assms by (auto simp: agent_results_def List.map_filter_def)
  have "a \<in> set (cap_agent_ids (ai_cfg env) (coordinate_routing env i chunk intent))"
    using task(1) by (auto simp: agent_tasks_def in_set_enumerate_eq)
  with routed_valid task(2) execute_agent_ok show ?thesis by blast
qed

text \<open>
  C22. Whatever text and tool calls the models answer with, a review that comes out of the swarm is
  well typed: a score between 0 and 100, comments with a path and a positive line, each signed
  with the id of one of the five agents; and its stored form validates back to the very same review.
\<close>

theorem swarm_output_typed:
  assumes "analyze_diff env str_of pr_files pr_details = Inr r"
    and "\<And>n. coerce_int (PInt n) = Some n"
  shows "result_ok r
    \<and> list_all (\<lambda>c. list_ex (\<lambda>a. rc_agent_id c = Some a) valid_agent_ids) (res_comments r)
    \<and> validate_result coerce_int (PDict (dump_result r)) = Inr r"
proof -
  obtain chunks intent where r: "r = review_chunks env chunks intent"
    using assms(1) by (auto simp: analyze_diff_def bind_Inr_iff)
  let ?cs = "concat (map res_comments (agent_results env chunks intent))"
  have ok: "list_all comment_ok ?cs"
    using agent_results_ok by (fastforce simp: list_all_iff result_ok_def)
  have cases: "r = no_issues \<or> result_ok r \<and> res_comments r = ?cs"
    using reduce_summaries_ok [OF ok] by (simp add: r review_chunks_def Let_def)
  have "result_ok no_issues" by (simp add: no_issues_def result_ok_def)
  with cases have typed: "result_ok r" by auto
  have "list_ex (\<lambda>a. rc_agent_id c = Some a) valid_agent_ids" if "c \<in> set ?cs" for c
    using that agent_results_tagged by (fastforce simp: tagged_def list_all_iff list_ex_iff)
  with cases have "list_all (\<lambda>c. list_ex (\<lambda>a. rc_agent_id c = Some a) valid_agent_ids) (res_comments r)"
    by (auto simp: list_all_iff no_issues_def)
  with typed dumped_result_validates [OF assms(2) typed] show ?thesis by blast
qed

text \<open>
  The model being down looks like a bad pull request: when every completion raises (a rate limit
  included), the review of a pull request with something to review does not raise but is a result
  with score 0 and no comments.
\<close>

theorem model_outage_scores_zero:
  assumes "\<And>c rq. \<exists>e. ai_ask env c rq = Inl e" and "1 \<le> REVIEW_MAX_AGENTS_PER_CHUNK (ai_cfg env)"
    and "build_review_chunks (ai_parse env) (ai_cfg env) pr_files = Inr chunks" "chunks \<noteq> []"
  shows "analyze_diff env str_of pr_files pr_details = Inr (synthesis_failed [])"
proof -
  let ?intent = "review_intent str_of pr_details"
  have "fst (execute_agent env i j a chunk ?intent) = None" for i j a chunk
    using assms(1) [of "AgentCall i j 0" "agent_request env a (agent_prompt a) chunk ?intent"]
    by (auto simp: execute_agent_def analyze_chunk_with_agent_def Let_def)
  then have none: "agent_results env chunks ?intent = []"
    by (auto simp: agent_results_def map_filter_def filter_empty_conv)
  obtain e1 e2 where "ai_ask env (ReduceCall 0) (reduce_request env []) = Inl e1"
    "ai_ask env (ReduceCall 1) (reduce_fallback_request env []) = Inl e2"
    using assms(1) by meson
  then have "reduce_summaries env [] [] = synthesis_failed []"
    by (simp add: reduce_summaries_def structured_reduce_def text_reduce_def or_none_def)
  then show ?thesis
    using assms(3,4) none agent_tasks_Nil [OF assms(2), of chunks ?intent]
    by (simp add: analyze_diff_def review_chunks_def Let_def)
qed

lemma demo_chunks:
  "build_review_chunks (ai_parse down_env) (ai_cfg down_env) [demo_file]
   = Inr [file_header (lit ''a.rs'') @ [NL] @ lit ''+x'']"
proof -
  have "is_reviewable_file (file_name demo_file)"
    by (simp add: is_reviewable_file_def file_name_def demo_file_def ignored_suffixes_def ignored_parts_def
        lit_def ends_def starts_def)
  then have "ranked_files [demo_file] = [demo_file]" by (simp add: ranked_files_def py_sorted_rev_def)
  moreover have "file_chunks (ai_parse down_env) demo_file = Inr (Some [file_header (lit ''a.rs'') @ [NL] @ lit ''+x''])"
    by (simp add: file_chunks_def demo_file_def or_else_def non_empty_def lit_def)
  ultimately show ?thesis
    by (simp add: build_review_chunks_def down_env_def default_settings_def slice_to_def Let_def)
qed

theorem review_keeps_findings_witness:
  "\<exists>r. analyze_diff down_env (\<lambda>_. []) [demo_file] [] = Inr r \<and> result_ok r"
  using review_keeps_findings [OF _ demo_chunks refl, where str_of = "\<lambda>_. []" and pr_details = "[]"]
  by (fastforce simp: down_env_def default_settings_def)

theorem model_outage_scores_zero_witness:
  "analyze_diff down_env (\<lambda>_. []) [demo_file] [] = Inr (synthesis_failed [])"
  by (rule model_outage_scores_zero [OF _ _ demo_chunks])
    (simp_all add: down_env_def default_settings_def raise_exn_def)

theorem swarm_output_typed_witness:
  "validate_result as_int (PDict (dump_result (review_chunks down_env [file_header (lit ''a.rs'') @ [NL] @ lit ''+x'']
     (review_intent (\<lambda>_. []) [])))) = Inr (review_chunks down_env [file_header (lit ''a.rs'') @ [NL] @ lit ''+x'']
     (review_intent (\<lambda>_. []) []))"
  by (rule swarm_output_typed [where env = down_env and str_of = "\<lambda>_. []" and pr_files = "[demo_file]"
        and pr_details = "[]", THEN conjunct2, THEN conjunct2])
    (simp_all add: analyze_diff_def demo_chunks as_int_def)

end
