(* ===== verification/ReviewJob.thy ===== *)
theory ReviewJob
  imports GitHub Comments Graph Swarm
begin

text \<open>
  \<open>process_job\<close> of \<open>app/worker.py\<close>: one claimed job from its payload to its last transaction, as a method
  on a world. The heartbeat task that runs beside it only refreshes the job's row in
  \<open>worker_heartbeats\<close> and belongs to the other transactions; spans, trace propagation and log lines are
  left out, and cancellation is not an exception here.
\<close>

section \<open>Payload and errors\<close>

definition parse_job_payload :: "(pystr \<Rightarrow> pyfloat) \<Rightarrow> pyval \<Rightarrow> pydict outcome" where
  "parse_job_payload read_float payload =
     bind (case as_str payload of Some s \<Rightarrow> json_loads read_float s | None \<Rightarrow> Inr payload) (\<lambda>v.
     case as_dict v of
       None \<Rightarrow> raise_exn ValueError (lit ''Job payload must be a JSON object'')
     | Some d \<Rightarrow> if map_of d (lit ''installation_id'') = None
         then raise_exn ValueError (lit ''Job payload is missing installation_id'') else Inr d)"

definition parse_trace_context :: "(pystr \<Rightarrow> pyfloat) \<Rightarrow> pyval \<Rightarrow> pydict outcome" where
  "parse_trace_context read_float trace_context =
     bind (case as_str trace_context of Some s \<Rightarrow> json_loads read_float s | None \<Rightarrow> Inr trace_context)
       (\<lambda>v. Inr (case as_dict v of Some d \<Rightarrow> d | None \<Rightarrow> []))"

text \<open>Header names are compared without case, as the client library does.\<close>

definition header_int :: "pystr \<Rightarrow> (pystr \<times> pystr) list \<Rightarrow> int option" where
  "header_int name headers =
     Option.bind (non_empty (map_option snd (find (\<lambda>(k, v). lower k = name) headers))) py_int"

definition retry_delay_for :: "int \<Rightarrow> exn \<Rightarrow> int \<Rightarrow> int" where
  "retry_delay_for now error attempt_count =
     (let delay = max 60 (60 * max attempt_count 1);
          headers = (case exn_response error of None \<Rightarrow> [] | Some r \<Rightarrow> meta_headers r)
      in case header_int (lit ''retry-after'') headers of
           Some n \<Rightarrow> max 0 n
         | None \<Rightarrow> (case header_int (lit ''x-ratelimit-reset'') headers of
             Some n \<Rightarrow> max 0 (n - now)
           | None \<Rightarrow> delay))"

definition is_rate_limit :: "exn \<Rightarrow> bool" where
  "is_rate_limit error \<longleftrightarrow>
     (case exn_response error of None \<Rightarrow> False | Some r \<Rightarrow> meta_status r = 429)
     \<or> contains (lit ''429'') (exn_msg error) \<or> contains (lit ''rate_limit'') (lower (exn_msg error))"

section \<open>The transactions of a job\<close>

definition finalize :: "host \<Rightarrow> uuid \<Rightarrow> int \<Rightarrow> job_status \<Rightarrow> pydict \<Rightarrow> unit io" where
  "finalize h job_id fence_token status feedback = transact h (\<lambda>now d.
     bind (finalize_job (h_uuid_str h) (h_cfg h) now job_id fence_token status (Some feedback) d)
       (\<lambda>d'. Inr ((), d', [FinalizedJob job_id fence_token status])))"

definition release :: "host \<Rightarrow> uuid \<Rightarrow> int \<Rightarrow> int \<Rightarrow> unit io" where
  "release h job_id fence_token delay_seconds = transact h (\<lambda>now d.
     Inr ((), release_job now job_id fence_token delay_seconds d, [ReleasedJob job_id fence_token delay_seconds]))"

definition store_check_run :: "host \<Rightarrow> uuid \<Rightarrow> int \<Rightarrow> unit io" where
  "store_check_run h job_id check_run_id = transact h (\<lambda>now d.
     Inr ((), set_check_run_id job_id check_run_id d, [StoredCheckRun job_id check_run_id]))"

definition store_graph :: "host \<Rightarrow> pystr \<Rightarrow> symbol list \<Rightarrow> reference list \<Rightarrow> unit io" where
  "store_graph h repo syms refs = transact h (\<lambda>now d.
     Inr ((), persist_repo_graph repo syms refs d, [StoredGraph repo]))"

section \<open>Processing\<close>

text \<open>The check run is remembered once GitHub created it, even if storing its id fails.\<close>

definition start_check_run :: "host \<Rightarrow> job \<Rightarrow> pystr \<Rightarrow> int option io" where
  "start_check_run h job token =
     io_bind (io_try (create_check_run h (j_repo_full_name job) (j_commit_sha job) token)) (\<lambda>r. case r of
       Inl e \<Rightarrow> io_return None
     | Inr n \<Rightarrow> io_bind (ignoring (store_check_run h (j_id job) n)) (\<lambda>_. io_return (Some n)))"

definition truthy_id :: "int option \<Rightarrow> bool" where
  "truthy_id n \<longleftrightarrow> n \<noteq> None \<and> n \<noteq> Some 0"

text \<open>The loop that indexes every fetched file.\<close>

fun index_files :: "(grammar \<Rightarrow> parser) \<Rightarrow> pr_file list \<Rightarrow> (symbol list \<times> reference list) outcome" where
  "index_files parse [] = Inr ([], [])"
| "index_files parse (f # fs) =
     bind (case non_empty (pf_content f) of None \<Rightarrow> Inr ([], [])
           | Some source \<Rightarrow> (case pf_filename f of None \<Rightarrow> raise_exn KeyError (lit ''filename'')
               | Some name \<Rightarrow> index_file parse name source)) (\<lambda>(s, r).
     bind (index_files parse fs) (\<lambda>(ss, rs). Inr (s @ ss, r @ rs)))"

definition inline_payload :: "review_comment \<Rightarrow> pydict" where
  "inline_payload c = [(lit ''path'', PStr (rc_path c)), (lit ''line'', PInt (rc_line c)),
     (lit ''side'', PStr (side_text (rc_side c))), (lit ''body'', PStr (format_inline_comment c))]"

definition conclusion_of :: "review_result \<Rightarrow> pystr" where
  "conclusion_of res = (if 80 \<le> res_score res then lit ''success'' else lit ''failure'')"

definition success_output :: "review_result \<Rightarrow> pydict" where
  "success_output res =
     [(lit ''title'', PStr (lit ''Revix Review: '' @ str_int (res_score res) @ lit ''/100'')),
      (lit ''summary'', PStr (res_summary res)),
      (lit ''text'', PStr (lit ''Found '' @ str_int (int (length (res_comments res))) @ lit '' violations.''))]"

definition failure_output :: "exn \<Rightarrow> pydict" where
  "failure_output e = [(lit ''title'', PStr (lit ''Review Failed'')),
     (lit ''summary'', PStr (lit ''System Error: '' @ exn_msg e))]"

text \<open>The analysis of the fetched files; the model's configuration is the host's.\<close>

definition analyze :: "host \<Rightarrow> ai_env \<Rightarrow> pr_file list \<Rightarrow> pyval \<Rightarrow> review_result outcome" where
  "analyze h env files details = (case as_dict details of
     None \<Rightarrow> raise_exn AttributeError (lit ''get'')
   | Some d \<Rightarrow> analyze_diff (env\<lparr>ai_cfg := h_cfg h\<rparr>) (h_str_of h) files d)"

text \<open>Posting, check run and finalization once the review is there.\<close>

definition publish :: "host \<Rightarrow> job \<Rightarrow> pystr \<Rightarrow> int option \<Rightarrow> pr_file list \<Rightarrow> review_result \<Rightarrow> unit io" where
  "publish h job token check_run files res =
     (let inline_comments = select_inline_comments (h_cfg h) (res_comments res);
          body = format_review_body res inline_comments files in
      io_bind (post_review h (j_repo_full_name job) (j_pr_number job) (j_commit_sha job)
         (map inline_payload inline_comments) token body) (\<lambda>_.
      io_bind (if truthy_id check_run
         then update_check_run h (j_repo_full_name job) (the check_run) token (conclusion_of res) (success_output res)
         else io_return ()) (\<lambda>_.
      finalize h (j_id job) (j_fence_token job) Success (dump_result res))))"

definition review_job :: "host \<Rightarrow> ai_env \<Rightarrow> job \<Rightarrow> pystr \<Rightarrow> int option \<Rightarrow> unit io" where
  "review_job h env job token check_run =
     (let repo = j_repo_full_name job; num = j_pr_number job; sha = j_commit_sha job in
      io_bind (fetch_diff h repo num token) (\<lambda>diff.
      io_bind (fetch_pull_files h repo num token (Some sha)) (\<lambda>files.
      io_bind (fetch_pull_request h repo num token) (\<lambda>details.
      io_bind (io_of (index_files (ai_parse env) files)) (\<lambda>(syms, refs).
      io_bind (if syms \<noteq> [] \<or> refs \<noteq> [] then store_graph h repo syms refs else io_return ()) (\<lambda>_.
      io_bind (io_of (analyze h env files details)) (\<lambda>res.
      publish h job token check_run files res)))))))"

text \<open>\<open>except Exception as e\<close>: what is known of token and check run when it was raised.\<close>

definition on_error :: "host \<Rightarrow> job \<Rightarrow> pystr option \<Rightarrow> int option \<Rightarrow> exn \<Rightarrow> unit io" where
  "on_error h job token check_run e =
     io_bind (clock h) (\<lambda>time.
     let delay = retry_delay_for (time div 1000000) e (j_attempt_count job) in
     if is_rate_limit e then release h (j_id job) (j_fence_token job) delay
     else io_bind (if truthy_id check_run \<and> opt_truthy token
            then ignoring (update_check_run h (j_repo_full_name job) (the check_run) (the token)
                   (lit ''failure'') (failure_output e))
            else io_return ()) (\<lambda>_.
          ignoring (finalize h (j_id job) (j_fence_token job) Failure [(lit ''error'', PStr (exn_msg e))])))"

text \<open>The installation id of the payload, when payload and trace context can be read.\<close>

definition job_input :: "ai_env \<Rightarrow> job \<Rightarrow> int outcome" where
  "job_input env job =
     bind (parse_job_payload (ai_read_float env) (j_payload job)) (\<lambda>payload.
     bind (bind (dict_item payload (lit ''installation_id'')) to_int) (\<lambda>inst_id.
     bind (parse_trace_context (ai_read_float env) (case j_otel_context job of None \<Rightarrow> PNone | Some v \<Rightarrow> v))
       (\<lambda>_. Inr inst_id)))"

definition process_job :: "host \<Rightarrow> ai_env \<Rightarrow> job \<Rightarrow> unit io" where
  "process_job h env job = (case job_input env job of
     Inl e \<Rightarrow> ignoring (finalize h (j_id job) (j_fence_token job) Failure
         [(lit ''error'', PStr (lit ''Invalid job payload: '' @ exn_msg e))])
   | Inr inst_id \<Rightarrow>
       io_bind (io_try (get_token h inst_id)) (\<lambda>r. case r of
         Inl e \<Rightarrow> on_error h job None None e
       | Inr token \<Rightarrow>
           io_bind (start_check_run h job token) (\<lambda>check_run.
           io_bind (io_try (review_job h env job token check_run)) (\<lambda>r. case r of
             Inl e \<Rightarrow> on_error h job (Some token) check_run e
           | Inr _ \<Rightarrow> io_return ()))))"

end
