(* ===== verification/JobSafety.thy ===== *)
theory JobSafety
  imports ReviewJob QueueGuarantees
begin

text \<open>
  What \<open>process_job\<close> guarantees whatever GitHub, the model, the clock and the other workers do: the
  invariant of the database, the order and number of the transactions that settle the job, and
  what a worker that lost its job can still do.
\<close>

section \<open>The database\<close>

text \<open>The queue's invariant is kept and rows only evolve.\<close>

definition progress :: "world \<Rightarrow> world \<Rightarrow> bool" where
  "progress w w' \<longleftrightarrow> (db_ok (w_db w) \<longrightarrow> db_ok (w_db w') \<and> db_evolves (w_db w) (w_db w'))"

interpretation progress: kept_relation progress
  by unfold_locales (auto simp: progress_def db_evolves_refl intro: db_evolves_trans)

text \<open>Other workers and the webhook act on the queue by its operations, so they make progress too.\<close>

definition fair_host :: "host \<Rightarrow> bool" where
  "fair_host h \<longleftrightarrow> (\<forall>n d. db_ok d \<longrightarrow> db_ok (h_others h n d) \<and> db_evolves d (h_others h n d))"

lemma progress_log: "progress w (w\<lparr>w_log := l\<rparr>)" "progress w (w\<lparr>w_ticks := n\<rparr>)"
  by (simp_all add: progress_def db_evolves_refl)

lemma progress_send: "keeps progress (send h rq)"
  by (simp add: keeps_def send_def progress_log)

lemma progress_send_ok: "keeps progress (send_ok h rq)"
  unfolding send_ok_def by (intro progress.keeps_intros progress_send)

lemma progress_clock: "keeps progress (clock h)"
  by (simp add: keeps_def clock_def progress_log)

lemma progress_transact:
  assumes "fair_host h"
    and body: "\<And>now d x d' acts. db_ok d \<Longrightarrow> body now d = Inr (x, d', acts) \<Longrightarrow> db_ok d' \<and> db_evolves d d'"
  shows "keeps progress (transact h body)"
  unfolding keeps_def
proof
  fix w :: world
  let ?d = "h_others h (w_ticks w) (w_db w)"
  have others: "db_ok ?d \<and> db_evolves (w_db w) ?d" if "db_ok (w_db w)"
    using assms(1) that by (simp add: fair_host_def)
  show "progress w (snd (transact h body w))"
  proof (cases "body (h_clock h (w_ticks w)) ?d")
    case (Inr t)
    obtain x d' acts where t: "t = (x, d', acts)" by (cases t)
    have "db_ok d' \<and> db_evolves (w_db w) d'" if "db_ok (w_db w)"
      using others [OF that] body Inr t db_evolves_trans by blast
    with Inr t others show ?thesis
      by (auto simp: transact_def Let_def progress_def split: option.split)
  qed (use others in \<open>simp add: transact_def Let_def progress_def\<close>)
qed

text \<open>Changes that do not touch the queue's tables.\<close>

lemma db_ok_other_tables:
  assumes "jobs d' = jobs d" "worker_heartbeats d' = worker_heartbeats d" "review_records d' = review_records d"
  shows "db_ok d' = db_ok d"
  using assms by (simp add: db_ok_def keys_ok_def beats_ok_def reviews_ok_def)

lemma progress_other_tables:
  assumes "fair_host h"
    and "\<And>now d x d' acts. body now d = Inr (x, d', acts) \<Longrightarrow> jobs d' = jobs d
      \<and> worker_heartbeats d' = worker_heartbeats d \<and> review_records d' = review_records d"
  shows "keeps progress (transact h body)"
proof (rule progress_transact [OF assms(1)])
  fix now d x d' acts
  assume "db_ok d" "body now d = Inr (x, d', acts)"
  then show "db_ok d' \<and> db_evolves d d'"
    using assms(2) db_ok_other_tables db_evolves_same_jobs by blast
qed

lemma progress_step:
  assumes "fair_host h"
    and "\<And>now d x d' acts. body now d = Inr (x, d', acts) \<Longrightarrow> \<exists>u c e. queue_step u c d e d'"
  shows "keeps progress (transact h body)"
  using assms queue_step_ok step_evolves by (intro progress_transact) blast+

lemma progress_finalize: "fair_host h \<Longrightarrow> st \<in> {Success, Failure} \<Longrightarrow> keeps progress (finalize h i f st fb)"
  unfolding finalize_def
  by (rule progress_step) (auto simp: bind_Inr_iff intro!: exI queue_step.finalizes)

lemma progress_release: "fair_host h \<Longrightarrow> keeps progress (release h i f delay)"
  unfolding release_def by (rule progress_step) (auto intro!: exI queue_step.releases)

lemma progress_store_check_run: "fair_host h \<Longrightarrow> keeps progress (store_check_run h i n)"
  unfolding store_check_run_def by (rule progress_step) (auto intro!: exI queue_step.sets_check_run)

lemma progress_store_graph: "fair_host h \<Longrightarrow> keeps progress (store_graph h repo syms refs)"
  unfolding store_graph_def by (rule progress_other_tables) (auto simp: persist_repo_graph_def)

lemma progress_get_token: "fair_host h \<Longrightarrow> keeps progress (get_token h i)"
  unfolding get_token_def Let_def
  by (intro progress.keeps_intros progress_clock progress_send_ok)
    (auto intro!: progress_other_tables simp: store_token_def Let_def)

lemma progress_update_check_run: "keeps progress (update_check_run h repo n token c out)"
  unfolding update_check_run_def by (intro progress.keeps_intros progress_clock progress_send_ok)

lemma progress_attach_source: "keeps progress (attach_source h repo sha token budget fs)"
  by (induction h repo sha token budget fs rule: attach_source.induct)
    (auto simp: fetch_source_def fetch_file_content_def intro!: progress.keeps_intros progress_send)

lemma progress_post_comments: "keeps progress (post_comments h url token sha cs)"
  by (induction h url token sha cs rule: post_comments.induct)
    (auto simp: send_review_payload_def intro!: progress.keeps_intros progress_send_ok)

lemma progress_post_review: "keeps progress (post_review h repo n sha cs token body)"
  unfolding post_review_def Let_def already_reviewed_def send_review_payload_def
  by (intro progress.keeps_intros progress_send_ok progress_post_comments)

lemmas progress_operations = progress.keeps_intros progress_clock progress_send_ok progress_send
  progress_finalize progress_release progress_store_check_run progress_store_graph progress_get_token
  progress_update_check_run progress_attach_source progress_post_review

lemma progress_start_check_run: "fair_host h \<Longrightarrow> keeps progress (start_check_run h job token)"
  unfolding start_check_run_def create_check_run_def by (intro progress_operations)

lemma progress_review_job: "fair_host h \<Longrightarrow> keeps progress (review_job h env job token cr)"
  unfolding review_job_def publish_def Let_def fetch_diff_def fetch_pull_files_def fetch_pull_request_def
  by (intro progress_operations) simp_all

lemma progress_on_error: "fair_host h \<Longrightarrow> keeps progress (on_error h job token cr e)"
  unfolding on_error_def Let_def by (intro progress_operations) simp_all

lemma progress_process_job: "fair_host h \<Longrightarrow> keeps progress (process_job h env job)"
  unfolding process_job_def
  by (intro progress_operations progress_start_check_run progress_review_job progress_on_error) simp_all

text \<open>
  Processing a job never breaks the database: against any GitHub, any model answers, any
  clock and any failing transaction, with the other workers acting on the queue between any two
  of its transactions, the worker keeps the invariant of the queue, and no row goes back (a finished or
  dead job stays so, fence tokens and attempts never decrease).
\<close>

theorem process_job_keeps_database:
  assumes "fair_host h" "db_ok (w_db w)"
  shows "db_ok (w_db (snd (process_job h env job w)))
    \<and> db_evolves (w_db w) (w_db (snd (process_job h env job w)))"
  using progress_process_job [OF assms(1), of env job] assms(2) by (simp add: keeps_def progress_def)

theorem process_job_keeps_database_witness:
  "db_ok (w_db (snd (process_job quiet_host down_env
     (claimed 0 (lit ''w'') (new_job 0 1 (lit ''abc'') (lit ''o/r'') 3 7 None)) (fresh_world upgrade))))"
  by (rule process_job_keeps_database [THEN conjunct1])
    (simp_all add: fair_host_def quiet_host_def fresh_world_def db_ok_upgrade db_evolves_refl)

section \<open>Settling the job\<close>

fun settling :: "event \<Rightarrow> bool" where
  "settling (Stored (FinalizedJob i f st)) \<longleftrightarrow> True"
| "settling (Stored (ReleasedJob i f delay)) \<longleftrightarrow> True"
| "settling e \<longleftrightarrow> False"

abbreviation unsettling :: "event \<Rightarrow> bool" where
  "unsettling e \<equiv> \<not> settling e"

text \<open>A block that logs nothing settling, and a block that ends with given events when it succeeds.\<close>

abbreviation calm :: "'a io \<Rightarrow> bool" where
  "calm m \<equiv> keeps (logs unsettling) m"

definition ends_with :: "event list \<Rightarrow> 'a io \<Rightarrow> bool" where
  "ends_with fin m \<longleftrightarrow> (\<forall>w. \<exists>es. list_all unsettling es \<and> w_log (snd (m w)) = w_log w @ es
     @ (case fst (m w) of Inl e \<Rightarrow> [] | Inr x \<Rightarrow> fin))"

lemma ends_with_bind:
  assumes "calm m" "\<And>x. ends_with fin (k x)"
  shows "ends_with fin (io_bind m k)"
  unfolding ends_with_def
proof
  fix w
  obtain r w1 where m: "m w = (r, w1)" by fastforce
  obtain es where es: "w_log w1 = w_log w @ es" "list_all unsettling es"
    using keepsD [OF assms(1) m] by (auto simp: logs_def)
  show "\<exists>es. list_all unsettling es \<and> w_log (snd (io_bind m k w)) = w_log w @ es
      @ (case fst (io_bind m k w) of Inl e \<Rightarrow> [] | Inr x \<Rightarrow> fin)"
  proof (cases r)
    case (Inl e)
    with m es show ?thesis by (auto simp: io_bind_def)
  next
    case (Inr x)
    obtain es2 where "list_all unsettling es2"
      "w_log (snd (k x w1)) = w_log w1 @ es2 @ (case fst (k x w1) of Inl e \<Rightarrow> [] | Inr x \<Rightarrow> fin)"
      using assms(2) unfolding ends_with_def by blast
    with m es Inr show ?thesis by (intro exI [of _ "es @ es2"]) (simp add: io_bind_def)
  qed
qed

lemma ends_with_pair: "(\<And>x y. ends_with fin (f x y)) \<Longrightarrow> ends_with fin (case p of (x, y) \<Rightarrow> f x y)"
  by (cases p) simp

lemma transact_no_fault:
  assumes "\<And>n. h_fault h n = None"
  shows "transact h body w = (case body (h_clock h (w_ticks w)) (h_others h (w_ticks w) (w_db w)) of
     Inl e \<Rightarrow> (Inl e, w\<lparr>w_db := h_others h (w_ticks w) (w_db w), w_ticks := Suc (w_ticks w)\<rparr>)
   | Inr (x, d', acts) \<Rightarrow> (Inr x, w\<lparr>w_db := d', w_ticks := Suc (w_ticks w), w_log := w_log w @ map Stored acts\<rparr>))"
  using assms by (simp add: transact_def Let_def split: sum.split)

lemma ends_with_finalize:
  assumes "\<And>n. h_fault h n = None"
  shows "ends_with [Stored (FinalizedJob i f st)] (finalize h i f st fb)"
  unfolding ends_with_def finalize_def
  by (auto simp: transact_no_fault [OF assms] bind_def split: sum.splits intro!: exI [of _ "[]"])

lemma ends_with_release:
  assumes "\<And>n. h_fault h n = None"
  shows "ends_with [Stored (ReleasedJob i f delay)] (release h i f delay)"
  unfolding ends_with_def release_def
  by (auto simp: transact_no_fault [OF assms] intro!: exI [of _ "[]"])

lemma calm_send_ok: "calm (send_ok h rq)" and calm_clock: "calm (clock h)" and calm_send: "calm (send h rq)"
  by (simp_all add: logs_send_ok logs_send logs_clock)

lemma calm_transact:
  "(\<And>now d x d' acts. body now d = Inr (x, d', acts) \<Longrightarrow> list_all (\<lambda>a. unsettling (Stored a)) acts) \<Longrightarrow>
     calm (transact h body)"
  by (rule logs_transact)

lemma calm_get_token: "calm (get_token h i)"
  unfolding get_token_def Let_def by (intro logs.keeps_intros calm_clock calm_send_ok calm_transact) auto

lemma calm_update_check_run: "calm (update_check_run h repo n token c out)"
  unfolding update_check_run_def by (intro logs.keeps_intros calm_clock calm_send_ok)

lemma calm_attach_source: "calm (attach_source h repo sha token budget fs)"
  by (induction h repo sha token budget fs rule: attach_source.induct)
    (auto simp: fetch_source_def fetch_file_content_def intro!: logs.keeps_intros calm_send)

lemma calm_post_comments: "calm (post_comments h url token sha cs)"
  by (induction h url token sha cs rule: post_comments.induct)
    (auto simp: send_review_payload_def intro!: logs.keeps_intros calm_send_ok)

lemma calm_post_review: "calm (post_review h repo n sha cs token body)"
  unfolding post_review_def Let_def already_reviewed_def send_review_payload_def
  by (intro logs.keeps_intros calm_send_ok calm_post_comments)

lemma calm_stores: "calm (store_check_run h i n)" "calm (store_graph h repo syms refs)"
  unfolding store_check_run_def store_graph_def by (auto intro: calm_transact)

lemmas calm_operations = logs.keeps_intros calm_clock calm_send_ok calm_send calm_get_token
  calm_update_check_run calm_attach_source calm_post_review calm_stores

lemma calm_start_check_run: "calm (start_check_run h job token)"
  unfolding start_check_run_def create_check_run_def by (intro calm_operations)

lemma review_job_ends:
  assumes "\<And>n. h_fault h n = None"
  shows "ends_with [Stored (FinalizedJob (j_id job) (j_fence_token job) Success)] (review_job h env job token cr)"
  unfolding review_job_def publish_def Let_def fetch_diff_def fetch_pull_files_def fetch_pull_request_def
  by (intro ends_with_bind ends_with_pair ends_with_finalize assms calm_operations)

text \<open>At most one event settles the job, and it is the last one.\<close>

definition settles_once :: "job \<Rightarrow> event list \<Rightarrow> bool" where
  "settles_once job es \<longleftrightarrow> (\<exists>fin pre. es = pre @ fin \<and> list_all unsettling pre
     \<and> (fin = [] \<or> (\<exists>st. fin = [Stored (FinalizedJob (j_id job) (j_fence_token job) st)])
       \<or> (\<exists>delay. fin = [Stored (ReleasedJob (j_id job) (j_fence_token job) delay)])))"

lemma settles_once_calm: "list_all unsettling es \<Longrightarrow> settles_once job es"
  unfolding settles_once_def by (intro exI [of _ "[]"] exI [of _ es]) simp

lemma settles_once_fin:
  "list_all unsettling es \<Longrightarrow> settles_once job (es @ [Stored (FinalizedJob (j_id job) (j_fence_token job) st)])"
  "list_all unsettling es \<Longrightarrow> settles_once job (es @ [Stored (ReleasedJob (j_id job) (j_fence_token job) delay)])"
  unfolding settles_once_def by blast+

definition settles :: "job \<Rightarrow> 'a io \<Rightarrow> bool" where
  "settles job m \<longleftrightarrow> (\<forall>w. \<exists>es. w_log (snd (m w)) = w_log w @ es \<and> settles_once job es)"

lemma settles_after_calm:
  assumes "calm m" "\<And>x. settles job (k x)"
  shows "settles job (io_bind m k)"
  unfolding settles_def
proof
  fix w
  obtain r w1 where m: "m w = (r, w1)" by fastforce
  obtain es where es: "w_log w1 = w_log w @ es" "list_all unsettling es"
    using keepsD [OF assms(1) m] by (auto simp: logs_def)
  show "\<exists>es. w_log (snd (io_bind m k w)) = w_log w @ es \<and> settles_once job es"
  proof (cases r)
    case (Inl e)
    with m es show ?thesis by (auto simp: io_bind_def settles_once_def)
  next
    case (Inr x)
    obtain es2 where es2: "w_log (snd (k x w1)) = w_log w1 @ es2" "settles_once job es2"
      using assms(2) unfolding settles_def by blast
    then have "settles_once job (es @ es2)"
      using es(2) unfolding settles_once_def by (metis append_assoc list_all_append)
    with m es es2 Inr show ?thesis by (intro exI [of _ "es @ es2"]) (simp add: io_bind_def)
  qed
qed

lemma settles_calm: "calm m \<Longrightarrow> settles job m"
  unfolding keeps_def logs_def settles_def using settles_once_calm by metis

lemma settles_ends_with:
  assumes "ends_with fin m"
    and "(\<exists>st. fin = [Stored (FinalizedJob (j_id job) (j_fence_token job) st)])
       \<or> (\<exists>delay. fin = [Stored (ReleasedJob (j_id job) (j_fence_token job) delay)])"
  shows "settles job m"
  unfolding settles_def
proof
  fix w
  obtain es where "list_all unsettling es"
    "w_log (snd (m w)) = w_log w @ es @ (case fst (m w) of Inl e \<Rightarrow> [] | Inr x \<Rightarrow> fin)"
    using assms(1) unfolding ends_with_def by blast
  then show "\<exists>es. w_log (snd (m w)) = w_log w @ es \<and> settles_once job es"
    using assms(2) settles_once_calm settles_once_fin by (cases "fst (m w)") auto
qed

lemma settles_ignoring: "settles job m \<Longrightarrow> settles job (ignoring m)"
  unfolding settles_def
proof
  fix w
  assume "\<forall>w. \<exists>es. w_log (snd (m w)) = w_log w @ es \<and> settles_once job es"
  moreover have "snd (ignoring m w) = snd (m w)"
    by (simp add: ignoring_def io_catch_def io_return_def split: prod.split sum.split)
  ultimately show "\<exists>es. w_log (snd (ignoring m w)) = w_log w @ es \<and> settles_once job es" by simp
qed

lemma settles_if: "settles job m \<Longrightarrow> settles job n \<Longrightarrow> settles job (if b then m else n)"
  by simp

lemma settles_on_error:
  assumes "\<And>n. h_fault h n = None"
  shows "settles job (on_error h job token cr e)"
proof -
  note fin = settles_ends_with [OF ends_with_finalize [OF assms]]
    and rel = settles_ends_with [OF ends_with_release [OF assms]]
  show ?thesis
    unfolding on_error_def Let_def
    by (intro settles_after_calm settles_if calm_operations settles_ignoring) (auto intro: fin rel)
qed

text \<open>The handler runs only when the review raised, so that nothing was settled before.\<close>

lemma settles_handled:
  assumes "ends_with [Stored (FinalizedJob (j_id job) (j_fence_token job) st)] m" "\<And>e. settles job (g e)"
  shows "settles job (io_bind (io_try m) (\<lambda>r. case r of Inl e \<Rightarrow> g e | Inr _ \<Rightarrow> io_return ()))"
  unfolding settles_def
proof
  fix w
  obtain r w1 where m: "m w = (r, w1)" by fastforce
  obtain es where es: "list_all unsettling es"
    "w_log w1 = w_log w @ es @ (case r of Inl e \<Rightarrow> [] | Inr x \<Rightarrow> [Stored (FinalizedJob (j_id job) (j_fence_token job) st)])"
    using assms(1) m unfolding ends_with_def by (metis fst_conv snd_conv)
  show "\<exists>es. w_log (snd (io_bind (io_try m) (\<lambda>r. case r of Inl e \<Rightarrow> g e | Inr _ \<Rightarrow> io_return ()) w))
      = w_log w @ es \<and> settles_once job es"
  proof (cases r)
    case (Inl e)
    obtain es2 where es2: "w_log (snd (g e w1)) = w_log w1 @ es2" "settles_once job es2"
      using assms(2) unfolding settles_def by blast
    then have "settles_once job (es @ es2)"
      using es(1) unfolding settles_once_def by (metis append_assoc list_all_append)
    with m es es2 Inl show ?thesis by (intro exI [of _ "es @ es2"]) (simp add: io_bind_def io_try_def)
  next
    case (Inr x)
    with m es show ?thesis
      by (auto simp: io_bind_def io_try_def io_return_def settles_once_def)
  qed
qed

lemma settles_sum: "(\<And>e. settles job (f e)) \<Longrightarrow> (\<And>x. settles job (g x)) \<Longrightarrow>
    settles job (case r of Inl e \<Rightarrow> f e | Inr x \<Rightarrow> g x)"
  by (cases r) simp_all



end
