(* ===== verification/JobOutcomes.thy ===== *)
theory JobOutcomes
  imports JobSafety
begin

text \<open>
  How a job ends: a success is only recorded for a review that was posted, a rate limit gives the
  job back, and what happens when the worker lost the job or a commit's answer.
\<close>

section \<open>Success follows posting\<close>

definition no_success :: "event \<Rightarrow> bool" where
  "no_success e \<longleftrightarrow> (\<forall>i f. e \<noteq> Stored (FinalizedJob i f Success))"

lemma logs_mono: "keeps (logs P) m \<Longrightarrow> (\<And>e. P e \<Longrightarrow> Q e) \<Longrightarrow> keeps (logs Q) m"
  unfolding keeps_def logs_def by (metis list.pred_mono_strong)

lemma calm_no_success: "calm m \<Longrightarrow> keeps (logs no_success) m"
  by (erule logs_mono [of unsettling]) (auto simp: no_success_def)

lemma no_success_settling:
  "keeps (logs no_success) (finalize h i f Failure fb)" "keeps (logs no_success) (release h i f delay)"
  unfolding finalize_def release_def
  by (auto intro!: logs_transact simp: no_success_def bind_Inr_iff)

lemma no_success_on_error: "keeps (logs no_success) (on_error h job token cr e)"
  unfolding on_error_def Let_def
  by (intro logs.keeps_intros no_success_settling calm_no_success [OF calm_clock]
      calm_no_success [OF calm_update_check_run])

text \<open>A method that logs no success outside one of the given blocks.\<close>

definition visits :: "'a io set \<Rightarrow> 'b io \<Rightarrow> bool" where
  "visits B m \<longleftrightarrow> (\<forall>w. logs no_success w (snd (m w)) \<or> (\<exists>b \<in> B. \<exists>w1. logs no_success w w1
     \<and> logs no_success (snd (b w1)) (snd (m w))))"

lemma visits_calm: "keeps (logs no_success) m \<Longrightarrow> visits B m"
  by (simp add: visits_def keeps_def)

lemma visits_block: "b \<in> B \<Longrightarrow> visits B b"
  unfolding visits_def using logs.R_refl by blast

lemma visits_bind:
  assumes "keeps (logs no_success) m" "\<And>x. visits B (k x)"
  shows "visits B (io_bind m k)"
  unfolding visits_def
proof
  fix w
  obtain r w1 where m: "m w = (r, w1)" by fastforce
  then have first: "logs no_success w w1" using assms(1) keepsD by blast
  show "logs no_success w (snd (io_bind m k w)) \<or> (\<exists>b \<in> B. \<exists>w1. logs no_success w w1
      \<and> logs no_success (snd (b w1)) (snd (io_bind m k w)))"
  proof (cases r)
    case (Inl e)
    with m first show ?thesis by (simp add: io_bind_def)
  next
    case (Inr x)
    then have "io_bind m k w = k x w1" using m by (simp add: io_bind_def)
    with assms(2) [of x] first show ?thesis
      unfolding visits_def by (metis logs.R_trans)
  qed
qed

lemma visits_bind_after:
  assumes "visits B m" "\<And>x. keeps (logs no_success) (k x)"
  shows "visits B (io_bind m k)"
  unfolding visits_def
proof
  fix w
  obtain r w1 where m: "m w = (r, w1)" by fastforce
  have rest: "logs no_success w1 (snd (io_bind m k w))"
    using assms(2) m by (cases r) (simp_all add: io_bind_def keeps_def logs.R_refl)
  with assms(1) m show "logs no_success w (snd (io_bind m k w)) \<or> (\<exists>b \<in> B. \<exists>w1. logs no_success w w1
      \<and> logs no_success (snd (b w1)) (snd (io_bind m k w)))"
    unfolding visits_def by (metis logs.R_trans snd_conv)
qed

lemma visits_of: "(\<And>x. r = Inr x \<Longrightarrow> visits B (k x)) \<Longrightarrow> visits B (io_bind (io_of r) k)"
  by (cases r) (simp_all add: visits_def io_bind_def io_of_def logs.R_refl)

lemma visits_try: "visits B m \<Longrightarrow> visits B (io_try m)"
  unfolding visits_def io_try_def by (simp split: prod.split) (metis snd_conv)

lemma visits_pair: "(\<And>x y. visits B (f x y)) \<Longrightarrow> visits B (case p of (x, y) \<Rightarrow> f x y)"
  by (cases p) simp

lemma visits_sum: "(\<And>e. visits B (f e)) \<Longrightarrow> (\<And>x. visits B (g x)) \<Longrightarrow>
    visits B (case r of Inl e \<Rightarrow> f e | Inr x \<Rightarrow> g x)"
  by (cases r) simp_all

text \<open>The publications of reviews that the analysis really produced.\<close>

definition publications :: "host \<Rightarrow> ai_env \<Rightarrow> job \<Rightarrow> unit io set" where
  "publications h env job = {publish h job token cr files res | token cr files res.
     \<exists>details. analyze h env files details = Inr res}"

lemmas no_success_operations = calm_operations [THEN calm_no_success]

lemma review_job_visits: "visits (publications h env job) (review_job h env job token cr)"
proof -
  have last: "visits (publications h env job) (io_bind (io_of (analyze h env files details))
      (\<lambda>res. publish h job token cr files res))" for files details
    by (rule visits_of, rule visits_block, unfold publications_def) blast
  show ?thesis
    unfolding review_job_def Let_def
    by (intro visits_bind visits_pair last calm_no_success)
      (auto simp: fetch_diff_def fetch_pull_files_def fetch_pull_request_def intro!: calm_operations)
qed

lemma process_job_visits: "visits (publications h env job) (process_job h env job)"
proof (cases "job_input env job")
  case (Inl e)
  then show ?thesis
    by (simp add: process_job_def visits_calm logs.keeps_ignoring no_success_settling)
next
  case (Inr inst_id)
  have rest: "visits (publications h env job) (io_bind (start_check_run h job token) (\<lambda>check_run.
      io_bind (io_try (review_job h env job token check_run)) (\<lambda>r. case r of
        Inl e \<Rightarrow> on_error h job (Some token) check_run e | Inr _ \<Rightarrow> io_return ())))" for token
    by (rule visits_bind [OF calm_no_success [OF calm_start_check_run]
          visits_bind_after [OF visits_try [OF review_job_visits]
            logs.keeps_sum [OF no_success_on_error logs.keeps_return]]])
  show ?thesis
    unfolding process_job_def Inr sum.case
    by (rule visits_bind [OF logs.keeps_try [OF calm_no_success [OF calm_get_token]]
          visits_sum [OF visits_calm [OF no_success_on_error] rest]])
qed

lemma publish_success:
  assumes "\<not> logs no_success w (snd (publish h job token cr files res w))"
  shows "\<exists>w1. post_review h (j_repo_full_name job) (j_pr_number job) (j_commit_sha job)
      (map inline_payload (select_inline_comments (h_cfg h) (res_comments res))) token
      (format_review_body res (select_inline_comments (h_cfg h) (res_comments res)) files) w = (Inr (), w1)
    \<and> logs no_success w w1 \<and> (\<exists>es. w_log (snd (publish h job token cr files res w)) = w_log w1 @ es)"
proof -
  let ?post = "post_review h (j_repo_full_name job) (j_pr_number job) (j_commit_sha job)
      (map inline_payload (select_inline_comments (h_cfg h) (res_comments res))) token
      (format_review_body res (select_inline_comments (h_cfg h) (res_comments res)) files)"
  obtain r w1 where post: "?post w = (r, w1)" by fastforce
  then have log: "logs no_success w w1" using calm_no_success [OF calm_post_review] keepsD by blast
  have "\<exists>es. w_log (snd (publish h job token cr files res w)) = w_log w1 @ es"
  proof -
    have "keeps (logs (\<lambda>e. True)) (finalize h i f st fb)" for i f st fb
      unfolding finalize_def by (rule logs_transact) (simp add: list_all_iff)
    moreover define rest where "rest = io_bind (if truthy_id cr
         then update_check_run h (j_repo_full_name job) (the cr) token (conclusion_of res) (success_output res)
         else io_return ()) (\<lambda>_. finalize h (j_id job) (j_fence_token job) Success (dump_result res))"
    ultimately have "keeps (logs (\<lambda>e. True)) rest"
      unfolding rest_def
      by (intro logs.keeps_bind logs.keeps_if logs.keeps_return logs_mono [OF calm_update_check_run]) auto
    then obtain es where "w_log (snd (rest w1)) = w_log w1 @ es" by (auto simp: keeps_def logs_def)
    moreover have "publish h job token cr files res w = io_bind ?post (\<lambda>_. rest) w"
      by (simp add: publish_def Let_def rest_def)
    ultimately show ?thesis using post by (cases r) (auto simp: io_bind_def)
  qed
  moreover have "r = Inr ()"
  proof (cases r)
    case (Inl e)
    with post log assms show ?thesis by (simp add: publish_def Let_def io_bind_def)
  qed simp
  ultimately show ?thesis using post log by blast
qed


section \<open>A run that succeeds\<close>

definition demo_response :: "event list \<Rightarrow> http_response" where
  "demo_response log = \<lparr>rsp_status = 200, rsp_headers = [], rsp_content = [], rsp_text = [],
     rsp_json = Inr (if length log = 5 \<or> length log = 7 then PList []
       else PDict [(lit ''token'', PStr (lit ''t'')), (lit ''id'', PInt 9)]), rsp_error = []\<rparr>"

definition demo_host :: host where
  "demo_host = quiet_host\<lparr>h_server := \<lambda>log rq. Inr (demo_response log), h_fs := \<lambda>p. Some (Inr (lit ''k''))\<rparr>"

definition demo_job :: job where
  "demo_job = claimed 0 (lit ''w'') (new_job 0 1 (lit ''abc'') (lit ''o/r'') 3 7 None)"

definition demo_world :: world where
  "demo_world = fresh_world (upgrade\<lparr>jobs := [demo_job]\<rparr>)"

lemma demo_fields: "j_id demo_job = 1" "j_fence_token demo_job = 0" "j_commit_sha demo_job = lit ''abc''"
  "j_repo_full_name demo_job = lit ''o/r''" "j_pr_number demo_job = 3"
  "job_input down_env demo_job = Inr 7"
  by (simp_all add: demo_job_def claimed_def new_job_def job_input_def parse_job_payload_def
    parse_trace_context_def job_payload_def dict_item_def as_str_def as_dict_def)

lemma demo_host_fields: "h_server demo_host log rq = Inr (demo_response log)" "h_cfg demo_host = default_settings"
  "h_clock demo_host n = 0" "h_others demo_host n d = d" "h_fault demo_host n = None"
  by (simp_all add: demo_host_def quiet_host_def)

lemma demo_send: "send_ok demo_host rq w = (Inr (demo_response (w_log w)), w\<lparr>w_log := w_log w @ [Sent rq]\<rparr>)"
  by (simp add: send_ok_def io_defs send_def demo_host_fields raise_for_status_def demo_response_def)

lemma demo_transact: "transact demo_host body w = (case body 0 (w_db w) of
     Inl e \<Rightarrow> (Inl e, w\<lparr>w_ticks := Suc (w_ticks w)\<rparr>)
   | Inr (x, d', acts) \<Rightarrow> (Inr x, w\<lparr>w_db := d', w_ticks := Suc (w_ticks w), w_log := w_log w @ map Stored acts\<rparr>))"
  by (simp add: transact_no_fault demo_host_fields split: sum.split)

lemma demo_jwt: "\<exists>t. generate_jwt demo_host 0 = Inr t"
  by (simp add: generate_jwt_def github_app_private_key_def demo_host_def quiet_host_def default_settings_def)

lemma demo_token:
  "\<exists>w. get_token demo_host 7 demo_world = (Inr (lit ''t''), w) \<and> length (w_log w) = 2 \<and> jobs (w_db w) = [demo_job]"
  using demo_jwt
  by (auto simp: get_token_def demo_transact io_defs demo_send clock_def demo_host_fields demo_world_def
     fresh_world_def cached_token_def upgrade_def demo_response_def subscript_def dict_item_def show_field_def Let_def
     store_token_def lit_def)

lemma demo_check_run:
  assumes "length (w_log w) = 2" "jobs (w_db w) = [demo_job]"
  shows "\<exists>w'. start_check_run demo_host demo_job t w = (Inr (Some 9), w') \<and> length (w_log w') = 4
    \<and> (\<exists>j. jobs (w_db w') = [j] \<and> holds_fence 1 0 j)"
  using assms
  by (simp add: start_check_run_def create_check_run_def io_defs io_try_def ignoring_def clock_def demo_send
    demo_response_def subscript_def dict_item_def store_check_run_def demo_transact set_check_run_id_def
    sql_update_def lit_def demo_fields holds_fence_def)

lemma demo_analysis: "analyze demo_host down_env [] (PDict d) = Inr no_issues"
  by (simp add: analyze_def analyze_diff_def build_review_chunks_def ranked_files_def py_sorted_rev_def
    slice_to_def Let_def review_chunks_def agent_tasks_def)

lemma demo_review:
  assumes "length (w_log w) = 4" "jobs (w_db w) = [j]" "holds_fence 1 0 j"
  shows "\<exists>w' es. review_job demo_host down_env demo_job t (Some 9) w = (Inr (), w')
    \<and> w_log w' = w_log w @ es \<and> Stored (FinalizedJob 1 0 Success) \<in> set es"
  using assms
  by (simp add: review_job_def publish_def Let_def fetch_diff_def fetch_pull_files_def fetch_pull_request_def
    io_defs demo_send demo_response_def as_list_def non_empty_def demo_fields lit_def max_source_fetches_def
    demo_analysis [simplified] post_review_def already_reviewed_def send_review_payload_def
    select_inline_comments_def inline_candidates_def py_sorted_rev_def no_issues_def post_comments_world
    truthy_id_def update_check_run_def clock_def finalize_def demo_transact finalize_job_def bind_def
    del: One_nat_def)

lemma demo_run: "\<exists>es. w_log (snd (process_job demo_host down_env demo_job demo_world)) = w_log demo_world @ es
    \<and> Stored (FinalizedJob 1 0 Success) \<in> set es"
proof -
  obtain w1 where w1: "get_token demo_host 7 demo_world = (Inr (lit ''t''), w1)" "length (w_log w1) = 2"
    "jobs (w_db w1) = [demo_job]" using demo_token by blast
  obtain w2 j where w2: "start_check_run demo_host demo_job (lit ''t'') w1 = (Inr (Some 9), w2)"
    "length (w_log w2) = 4" "jobs (w_db w2) = [j]" "holds_fence 1 0 j" using demo_check_run [OF w1(2,3)] by blast
  obtain w3 es where w3: "review_job demo_host down_env demo_job (lit ''t'') (Some 9) w2 = (Inr (), w3)"
    "w_log w3 = w_log w2 @ es" "Stored (FinalizedJob 1 0 Success) \<in> set es"
    using demo_review [OF w2(2-4)] by blast
  have "process_job demo_host down_env demo_job demo_world = (Inr (), w3)"
    using w1 w2 w3 by (simp add: process_job_def demo_fields io_bind_def io_try_def io_return_def del: One_nat_def)
  moreover have "w_log demo_world = []" by (simp add: demo_world_def fresh_world_def)
  ultimately show ?thesis using w3 by auto
qed


section \<open>Losing the job\<close>

lemma process_job_logs:
  assumes calm: "\<And>e. unsettling e \<Longrightarrow> Q e"
    and fin: "\<And>st fb. keeps (logs Q) (finalize h (j_id job) (j_fence_token job) st fb)"
    and rel: "\<And>delay. keeps (logs Q) (release h (j_id job) (j_fence_token job) delay)"
  shows "keeps (logs Q) (process_job h env job)"
proof -
  note quiet = calm_operations(12-) [THEN logs_mono, OF calm] calm_clock [THEN logs_mono, OF calm]
    calm_send_ok [THEN logs_mono, OF calm] calm_start_check_run [THEN logs_mono, OF calm]
  have err: "keeps (logs Q) (on_error h job token cr e)" for token cr e
    unfolding on_error_def Let_def by (intro logs.keeps_intros fin rel quiet)
  have rev: "keeps (logs Q) (review_job h env job token cr)" for token cr
    unfolding review_job_def publish_def Let_def fetch_diff_def fetch_pull_files_def fetch_pull_request_def
    by (intro logs.keeps_intros fin quiet)
  show ?thesis
    unfolding process_job_def by (intro logs.keeps_intros fin err rev quiet)
qed

lemma no_row_no_finalize:
  assumes "list_all (\<lambda>j. \<not> holds_fence i f j) (jobs d)"
  shows "finalize_job u cfg now i f st fb d = raise_exn RuntimeError (stale_message u i f)"
proof -
  have none: "filter (holds_fence i f) (jobs d) = []" using assms by (simp add: list_all_iff filter_empty_conv)
  show ?thesis unfolding finalize_job_def none by simp
qed

lemma no_row_release:
  assumes "list_all (\<lambda>j. \<not> holds_fence i f j) (jobs d)"
  shows "jobs (release_job now i f delay d) = jobs d \<and> review_records (release_job now i f delay d) = review_records d"
  using assms by (simp add: release_job_def sql_update_none list_all_iff)



text \<open>
  C36. The rejection of a stale result can be taken for a rate limit: the text of the exception
  holds the id of the job, and the handler looks for \<open>429\<close> in the text. When the id
  holds it, the worker that lost the job releases it, which deletes the heartbeat of the worker
  that has it now.
\<close>

theorem stale_result_taken_for_rate_limit:
  assumes "contains (lit ''429'') (h_uuid_str h (j_id job))"
    and "list_all (\<lambda>j. \<not> holds_fence (j_id job) (j_fence_token job) j) (jobs d)"
    and "\<And>n. h_fault h n = None"
  shows "\<exists>e now n delay. finalize_job (h_uuid_str h) (h_cfg h) t (j_id job) (j_fence_token job) Success fb d = Inl e
    \<and> is_rate_limit e
    \<and> fst (on_error h job token check_run e w) = Inr ()
    \<and> w_db (snd (on_error h job token check_run e w))
        = release_job now (j_id job) (j_fence_token job) delay (h_others h n (w_db w))
    \<and> list_all (\<lambda>hb. hb_job_id hb \<noteq> j_id job)
        (worker_heartbeats (w_db (snd (on_error h job token check_run e w))))"
proof -
  obtain e where e: "finalize_job (h_uuid_str h) (h_cfg h) t (j_id job) (j_fence_token job) Success fb d = Inl e"
    "exn_msg e = stale_message (h_uuid_str h) (j_id job) (j_fence_token job)"
    using no_row_no_finalize [OF assms(2)] by (simp add: raise_exn_def)
  have "contains (lit ''429'') (exn_msg e)"
    unfolding e(2) stale_message_def using assms(1) by (intro contains_append2 contains_append1)
  then have limit: "is_rate_limit e" by (simp add: is_rate_limit_def)
  let ?delay = "retry_delay_for (h_clock h (w_ticks w) div 1000000) e (j_attempt_count job)"
  have run: "on_error h job token check_run e w = (Inr (), w\<lparr>w_ticks := Suc (Suc (w_ticks w)),
      w_db := release_job (h_clock h (Suc (w_ticks w))) (j_id job) (j_fence_token job) ?delay
        (h_others h (Suc (w_ticks w)) (w_db w)),
      w_log := w_log w @ [Stored (ReleasedJob (j_id job) (j_fence_token job) ?delay)]\<rparr>)"
    using limit by (simp add: on_error_def io_bind_def clock_def release_def transact_no_fault [OF assms(3)] Let_def)
  have "list_all (\<lambda>hb. hb_job_id hb \<noteq> j_id job)
      (worker_heartbeats (release_job now (j_id job) (j_fence_token job) dl d0))" for now dl d0
    by (simp add: release_job_def list_all_iff)
  with e(1) limit run show ?thesis by (intro exI conjI) (assumption | simp)+
qed

section \<open>Rate limits and lost answers\<close>

lemma retry_delay_nonneg: "0 \<le> retry_delay_for now e n"
  by (simp add: retry_delay_for_def Let_def split: option.split)

text \<open>
  A rate limit costs no result: the worker gives the job back with its attempts as they are and
  a new fence token, so that its own later actions are void, and the job can be claimed again
  exactly from the moment on that the server named (or after a minute for each attempt).
\<close>

theorem rate_limited_job_returns:
  assumes "is_rate_limit e" "\<And>n. h_fault h n = None"
    and "d = h_others h (Suc (w_ticks w)) (w_db w)" "now = h_clock h (Suc (w_ticks w))"
    and "j \<in> set (jobs d)" "holds_fence (j_id job) (j_fence_token job) j" "j_status j = Processing"
    and "j_attempt_count j < j_max_attempts j"
  shows "\<exists>j' delay. fst (on_error h job token check_run e w) = Inr ()
    \<and> j' \<in> set (jobs (w_db (snd (on_error h job token check_run e w)))) \<and> j_id j' = j_id job
    \<and> j_fence_token j' = j_fence_token job + 1 \<and> j_attempt_count j' = j_attempt_count j
    \<and> delay = retry_delay_for (h_clock h (w_ticks w) div 1000000) e (j_attempt_count job) \<and> 0 \<le> delay
    \<and> (\<forall>t. claimable t j' \<longleftrightarrow> now + seconds delay \<le> t)"
proof -
  let ?delay = "retry_delay_for (h_clock h (w_ticks w) div 1000000) e (j_attempt_count job)"
  let ?j = "released now ?delay j"
  have run: "on_error h job token check_run e w = (Inr (), w\<lparr>w_ticks := Suc (Suc (w_ticks w)),
      w_db := release_job now (j_id job) (j_fence_token job) ?delay d,
      w_log := w_log w @ [Stored (ReleasedJob (j_id job) (j_fence_token job) ?delay)]\<rparr>)"
    using assms(1,3,4)
    by (simp add: on_error_def io_bind_def clock_def release_def transact_no_fault [OF assms(2)] Let_def)
  have "?j \<in> set (jobs (release_job now (j_id job) (j_fence_token job) ?delay d))"
    using assms(5-7) by (auto simp: release_job_def intro!: sql_update_hit)
  moreover have "j_id ?j = j_id job" "j_fence_token ?j = j_fence_token job + 1" "j_attempt_count ?j = j_attempt_count j"
    using assms(6) by (simp_all add: released_def holds_fence_def)
  moreover have "claimable t ?j \<longleftrightarrow> now + seconds ?delay \<le> t" for t
    using assms(8) by (auto simp: claimable_def released_def)
  ultimately show ?thesis
    using run retry_delay_nonneg by (intro exI [of _ ?j] exI [of _ ?delay]) simp
qed

text \<open>
  C37. A lost answer turns success into failure: when the commit of a success is done but its
  answer is lost, the handler finalizes again with the same token, which nothing prevents,
  and the job that was a success (with its review stored) ends as a failure.
\<close>

theorem lost_commit_answer_overwrites_success:
  assumes "j \<in> set (jobs (w_db w))" "holds_fence (j_id job) (j_fence_token job) j"
    and "\<And>n d. h_others h n d = d" "h_fault h (w_ticks w) = Some (True, e)"
    and "h_fault h (Suc (Suc (w_ticks w))) = None" "\<not> is_rate_limit e"
  shows "\<exists>w1 w2 j1 j2. finalize h (j_id job) (j_fence_token job) Success feedback w = (Inl e, w1)
    \<and> j1 \<in> set (jobs (w_db w1)) \<and> j_id j1 = j_id job \<and> j_status j1 = Success
    \<and> on_error h job token None e w1 = (Inr (), w2)
    \<and> j2 \<in> set (jobs (w_db w2)) \<and> j_id j2 = j_id job \<and> j_status j2 = Failure"
proof -
  have some: "\<exists>d'. finalize_job (h_uuid_str h) (h_cfg h) now (j_id job) (j_fence_token job) st fb d = Inr d'
      \<and> finished now st fb k \<in> set (jobs d')" if "k \<in> set (jobs d)" "holds_fence (j_id job) (j_fence_token job) k"
    for k d now st fb
  proof -
    have "filter (holds_fence (j_id job) (j_fence_token job)) (jobs d) \<noteq> []"
      using that by (auto simp: filter_empty_conv)
    then show ?thesis using that by (auto simp: finalize_job_def intro!: sql_update_hit split: list.split)
  qed
  let ?n = "w_ticks w"
  obtain d1 where d1: "finalize_job (h_uuid_str h) (h_cfg h) (h_clock h ?n) (j_id job) (j_fence_token job) Success
      (Some feedback) (w_db w) = Inr d1" "finished (h_clock h ?n) Success (Some feedback) j \<in> set (jobs d1)"
    using some [OF assms(1,2)] by blast
  let ?j1 = "finished (h_clock h ?n) Success (Some feedback) j"
  have j1: "holds_fence (j_id job) (j_fence_token job) ?j1" "j_id ?j1 = j_id job" "j_status ?j1 = Success"
    using assms(2) by (simp_all add: finished_def holds_fence_def)
  obtain d2 where d2: "finalize_job (h_uuid_str h) (h_cfg h) (h_clock h (Suc (Suc ?n))) (j_id job) (j_fence_token job) Failure
      (Some [(lit ''error'', PStr (exn_msg e))]) d1 = Inr d2"
    "finished (h_clock h (Suc (Suc ?n))) Failure (Some [(lit ''error'', PStr (exn_msg e))]) ?j1 \<in> set (jobs d2)"
    using some [OF d1(2) j1(1)] by blast
  let ?j2 = "finished (h_clock h (Suc (Suc ?n))) Failure (Some [(lit ''error'', PStr (exn_msg e))]) ?j1"
  let ?w1 = "w\<lparr>w_db := d1, w_ticks := Suc ?n, w_log := w_log w @ [Stored (FinalizedJob (j_id job) (j_fence_token job) Success)]\<rparr>"
  have "finalize h (j_id job) (j_fence_token job) Success feedback w = (Inl e, ?w1)"
    using assms(3,4) d1(1) by (simp add: finalize_def transact_def Let_def)
  moreover obtain w2 where "on_error h job token None e ?w1 = (Inr (), w2)" "w_db w2 = d2"
    using assms(3,5,6) d2(1)
    by (simp add: on_error_def io_defs clock_def truthy_id_def ignoring_def finalize_def transact_def Let_def)
  moreover have "j_id ?j2 = j_id job" "j_status ?j2 = Failure" using j1 by (simp_all add: finished_def)
  moreover have "w_db ?w1 = d1" by simp
  ultimately show ?thesis
    using d1(2) d2(2) j1(2,3) by (intro exI [of _ ?w1] exI [of _ w2] exI [of _ ?j1] exI [of _ ?j2]) presburger
qed

definition plain_error :: "string \<Rightarrow> exn" where
  "plain_error s = \<lparr>exn_kind = DatabaseError, exn_msg = lit s, exn_response = None\<rparr>"

lemma demo_not_limited: "\<not> is_rate_limit (plain_error ''gone'')" "is_rate_limit (plain_error ''429'')"
  by (simp_all add: is_rate_limit_def plain_error_def lit_def lower_def lower_cp_def starts_def)

theorem stale_result_taken_for_rate_limit_witness:
  "\<exists>e. is_rate_limit e \<and> fst (on_error (demo_host\<lparr>h_uuid_str := \<lambda>i. lit ''a429''\<rparr>) demo_job None None e demo_world) = Inr ()"
  using stale_result_taken_for_rate_limit [of "demo_host\<lparr>h_uuid_str := \<lambda>i. lit ''a429''\<rparr>" demo_job upgrade]
  by (fastforce simp: lit_def starts_def upgrade_def demo_host_def quiet_host_def)

theorem rate_limited_job_returns_witness:
  "\<exists>j' \<in> set (jobs (w_db (snd (on_error demo_host demo_job None None (plain_error ''429'') demo_world)))).
     j_fence_token j' = 1 \<and> j_attempt_count j' = 1"
  using rate_limited_job_returns [OF demo_not_limited(2), where h = demo_host and w = demo_world and j = demo_job
      and job = demo_job and token = None and check_run = None]
  by (fastforce simp: demo_host_fields demo_world_def fresh_world_def upgrade_def demo_job_def holds_fence_def
      claimed_def new_job_def)

theorem lost_commit_answer_overwrites_success_witness:
  "\<exists>w1 w2. finalize (demo_host\<lparr>h_fault := \<lambda>n. if n = 0 then Some (True, plain_error ''gone'') else None\<rparr>) 1 0 Success [] demo_world
       = (Inl (plain_error ''gone''), w1)
     \<and> on_error (demo_host\<lparr>h_fault := \<lambda>n. if n = 0 then Some (True, plain_error ''gone'') else None\<rparr>) demo_job None None
         (plain_error ''gone'') w1 = (Inr (), w2)"
proof -
  let ?h = "demo_host\<lparr>h_fault := \<lambda>n. if n = 0 then Some (True, plain_error ''gone'') else None\<rparr>"
  have w: "w_ticks demo_world = 0" "jobs (w_db demo_world) = [demo_job]"
    by (simp_all add: demo_world_def fresh_world_def)
  have "holds_fence (j_id demo_job) (j_fence_token demo_job) demo_job" by (simp add: holds_fence_def)
  from lost_commit_answer_overwrites_success [of demo_job demo_world demo_job ?h "plain_error ''gone''" "[]" None,
      OF _ this _ _ _ demo_not_limited(1)]
  show ?thesis by (auto simp: w demo_host_fields demo_fields simp del: One_nat_def)
qed

end
