(* ===== verification/JobLifecycle.thy ===== *)
theory JobLifecycle
  imports JobOutcomes
begin

text \<open>
  The abstract specification of the queue: what becomes of one commit, as a machine with five phases, and the
  proof that the tables refine it. The refinement needs the discipline the callers keep, that a worker
  settles a job only with a token it was handed by a claim; the discipline is part of the transition system
  here, and the worker's code is shown to keep it.
\<close>

section \<open>The abstract machine\<close>

text \<open>
  A commit the queue has not heard of, one that waits, one a worker holds, one with a result, and one
  given up. A phase carries the number of leases that ended without a result (the token) and the
  number of leases so far.
\<close>

datatype phase = Absent | Queued int int | Leased pystr int int | Settled job_status int int | Buried int int

inductive entry_step :: "phase \<Rightarrow> phase \<Rightarrow> bool" where
  submit: "entry_step Absent (Queued 0 0)"
| lease: "a < 3 \<Longrightarrow> entry_step (Queued t a) (Leased w t (a + 1))"
| complete: "entry_step (Leased w t a) (Settled st t a)"
| amend: "entry_step (Settled st t a) (Settled st' t a)"
| give_up_lease: "entry_step (Leased w t a) (Queued (t + 1) a)"
| bury: "3 \<le> a \<Longrightarrow> entry_step (Leased w t a) (Buried (t + 1) a)"
| expires: "entry_step (Queued t a) (Buried t a)"

inductive_cases settled_stepE: "entry_step (Settled st t a) p"
inductive_cases buried_stepE: "entry_step (Buried t a) p"

fun phase_ok :: "phase \<Rightarrow> bool" where
  "phase_ok Absent \<longleftrightarrow> True"
| "phase_ok (Queued t a) \<longleftrightarrow> 0 \<le> t \<and> t \<le> a \<and> a \<le> 3"
| "phase_ok (Leased w t a) \<longleftrightarrow> 0 \<le> t \<and> t < a \<and> a \<le> 3"
| "phase_ok (Settled st t a) \<longleftrightarrow> 0 \<le> t \<and> t < a \<and> a \<le> 3"
| "phase_ok (Buried t a) \<longleftrightarrow> 0 \<le> t \<and> t \<le> a \<and> a \<le> 3"

lemma entry_step_ok: "entry_step p q \<Longrightarrow> phase_ok p \<Longrightarrow> phase_ok q"
  by (induction rule: entry_step.induct) auto

text \<open>What is left to happen: every change of phase but the rewriting of a result uses some of it up.\<close>

fun phases_left :: "phase \<Rightarrow> int" where
  "phases_left Absent = 9"
| "phases_left (Queued t a) = 2 * (3 - a) + 2"
| "phases_left (Leased w t a) = 2 * (3 - a) + 3"
| "phases_left (Settled st t a) = 1"
| "phases_left (Buried t a) = 0"

text \<open>Phases up to the result they carry.\<close>

fun stage_of :: "phase \<Rightarrow> phase" where
  "stage_of (Settled st t a) = Settled Success t a"
| "stage_of p = p"

lemma phases_left_nonneg: "phase_ok p \<Longrightarrow> 0 \<le> phases_left p"
  by (cases p) auto

lemma entry_step_left:
  "entry_step p q \<Longrightarrow> phase_ok p \<Longrightarrow> phases_left q < phases_left p \<or> stage_of p = stage_of q"
  by (induction rule: entry_step.induct) auto

lemma entry_steps_left:
  assumes "entry_step\<^sup>*\<^sup>* p q" "phase_ok p"
  shows "phase_ok q \<and> phases_left q \<le> phases_left p \<and> (phases_left q < phases_left p \<or> stage_of p = stage_of q)"
  using assms
proof (induction)
  case (step q r)
  have eq: "phases_left q = phases_left r" if "stage_of q = stage_of r"
    using that by (cases q; cases r) auto
  from step entry_step_ok [OF step.hyps(2)] entry_step_left [OF step.hyps(2)] eq show ?case by fastforce
qed simp

section \<open>The phase of a commit in the tables\<close>

definition phase_of_job :: "job \<Rightarrow> phase" where
  "phase_of_job j = (case j_status j of
     Pending \<Rightarrow> Queued (j_fence_token j) (j_attempt_count j)
   | Processing \<Rightarrow> Leased (case j_worker_id j of None \<Rightarrow> [] | Some w \<Rightarrow> w) (j_fence_token j) (j_attempt_count j)
   | Dead \<Rightarrow> Buried (j_fence_token j) (j_attempt_count j)
   | st \<Rightarrow> Settled st (j_fence_token j) (j_attempt_count j))"

definition phase_of :: "pystr \<Rightarrow> db \<Rightarrow> phase" where
  "phase_of sha d = (case find (\<lambda>j. j_commit_sha j = sha) (jobs d) of None \<Rightarrow> Absent | Some j \<Rightarrow> phase_of_job j)"

lemma find_sql_update:
  "(\<And>j. j \<in> set rows \<Longrightarrow> q (if p j then f j else j) = q j) \<Longrightarrow>
     find q (sql_update p f rows) = map_option (\<lambda>j. if p j then f j else j) (find q rows)"
  by (induction rows) (auto simp: sql_update_def)

lemma find_job: "find q rows = Some j \<Longrightarrow> j \<in> set rows \<and> q j"
  by (metis find_Some_iff nth_mem)

text \<open>What a statement does to the row of a commit is what the machine sees.\<close>

lemma phase_of_update:
  assumes "jobs d' = sql_update p f (jobs d)"
    and "\<And>j. j \<in> set (jobs d) \<Longrightarrow> p j \<Longrightarrow> j_commit_sha (f j) = j_commit_sha j"
    and "\<And>j. j \<in> set (jobs d) \<Longrightarrow> p j \<Longrightarrow> entry_step\<^sup>*\<^sup>* (phase_of_job j) (phase_of_job (f j))"
  shows "entry_step\<^sup>*\<^sup>* (phase_of sha d) (phase_of sha d')"
proof -
  have row: "find (\<lambda>j. j_commit_sha j = sha) (jobs d') =
      map_option (\<lambda>j. if p j then f j else j) (find (\<lambda>j. j_commit_sha j = sha) (jobs d))"
    unfolding assms(1) by (rule find_sql_update) (use assms(2) in auto)
  show ?thesis
    using assms(3) by (auto simp: phase_of_def row split: option.splits dest!: find_job)
qed

lemma phase_of_same: "jobs d' = jobs d \<Longrightarrow> entry_step\<^sup>*\<^sup>* (phase_of sha d) (phase_of sha d')"
  by (simp add: phase_of_def)

section \<open>The disciplined callers\<close>

text \<open>
  The tokens handed out by claims so far, with the jobs they are for; nothing is finalized or released but with
  one of them.
\<close>

type_synonym client_state = "db \<times> (uuid \<times> int) set"

definition allowed :: "(uuid \<times> int) set \<Rightarrow> queue_event \<Rightarrow> bool" where
  "allowed tokens e \<longleftrightarrow> (case e of Finalized i f st ok \<Rightarrow> (i, f) \<in> tokens | Released i f \<Rightarrow> (i, f) \<in> tokens | _ \<Rightarrow> True)"

definition handed_out :: "queue_event \<Rightarrow> (uuid \<times> int) set" where
  "handed_out e = (case e of Claimed w (Some row) \<Rightarrow> {(j_id row, j_fence_token row)} | _ \<Rightarrow> {})"

definition client_step :: "(uuid \<Rightarrow> pystr) \<Rightarrow> settings \<Rightarrow> client_state \<Rightarrow> queue_event \<Rightarrow> client_state \<Rightarrow> bool" where
  "client_step u cfg s e s' \<longleftrightarrow> queue_step u cfg (fst s) e (fst s') \<and> allowed (snd s) e
     \<and> snd s' = snd s \<union> handed_out e"

text \<open>A token in a worker's hands is either out of date, or the job's own and the job not waiting or given up.\<close>

definition token_ok :: "db \<Rightarrow> uuid \<times> int \<Rightarrow> bool" where
  "token_ok d tok \<longleftrightarrow> (\<exists>j \<in> set (jobs d). j_id j = fst tok \<and> snd tok \<le> j_fence_token j
     \<and> (snd tok = j_fence_token j \<longrightarrow> j_status j \<noteq> Pending \<and> j_status j \<noteq> Dead))"

definition client_ok :: "client_state \<Rightarrow> bool" where
  "client_ok s \<longleftrightarrow> db_ok (fst s) \<and> three_attempts (fst s) \<and> (\<forall>tok \<in> snd s. token_ok (fst s) tok)"

lemma token_ok_evolves: "db_evolves d d' \<Longrightarrow> token_ok d tok \<Longrightarrow> token_ok d' tok"
  unfolding db_evolves_def token_ok_def
  by (elim bexE, drule bspec, assumption, elim bexE, rule bexI) (auto simp: evolves_def)

lemma claimed_token_ok:
  assumes "db_ok d" "queue_step u cfg d e d'" "tok \<in> handed_out e"
  shows "token_ok d' tok"
proof -
  from assms(3) obtain w row where e: "e = Claimed w (Some row)" and tok: "tok = (j_id row, j_fence_token row)"
    by (auto simp: handed_out_def split: queue_event.splits option.splits)
  from claim_step_row [OF assms(1)] assms(2) e obtain now j
    where "row = claimed now w j" "row \<in> set (jobs d')" by metis
  then show ?thesis by (auto simp: token_ok_def tok intro!: bexI [of _ row])
qed

lemma client_step_ok: "client_ok s \<Longrightarrow> client_step u cfg s e s' \<Longrightarrow> client_ok s'"
  unfolding client_ok_def client_step_def
  using queue_step_ok step_three_attempts step_evolves token_ok_evolves claimed_token_ok
  by (metis Un_iff)

lemma client_tokenD:
  assumes "client_ok (d, tokens)" "(i, f) \<in> tokens" "j \<in> set (jobs d)" "holds_fence i f j"
  shows "j_status j \<noteq> Pending" "j_status j \<noteq> Dead"
proof -
  from assms(1,2) have "db_ok d" and "token_ok d (i, f)" by (auto simp: client_ok_def)
  then obtain k where k: "k \<in> set (jobs d)" "j_id k = i" "f \<le> j_fence_token k"
    "f = j_fence_token k \<longrightarrow> j_status k \<noteq> Pending \<and> j_status k \<noteq> Dead" by (auto simp: token_ok_def)
  have "k = j" using same_job [OF \<open>db_ok d\<close> k(1) assms(3)] k(2) assms(4) by (simp add: holds_fence_def)
  with k(4) assms(4) show "j_status j \<noteq> Pending" "j_status j \<noteq> Dead" by (auto simp: holds_fence_def)
qed

section \<open>The tables refine the machine\<close>

text \<open>One lemma per row update of the repository.\<close>

lemma phase_of_updates [simp]:
  "phase_of_job (claimed now w j) = Leased w (j_fence_token j) (j_attempt_count j + 1)"
  "st \<in> {Success, Failure} \<Longrightarrow> phase_of_job (finished now st fb j) = Settled st (j_fence_token j) (j_attempt_count j)"
  "phase_of_job (released now delay j) = Queued (j_fence_token j + 1) (j_attempt_count j)"
  "phase_of_job (expire j) = Buried (j_fence_token j) (j_attempt_count j)"
  "phase_of_job (reclaimed cfg now j) = (if exhausted j then Buried else Queued) (j_fence_token j + 1) (j_attempt_count j)"
  "phase_of_job (j\<lparr>j_github_check_run_id := n\<rparr>) = phase_of_job j"
  by (auto simp: phase_of_job_def claimed_def finished_def released_def expire_def reclaimed_def
      split: job_status.split)

lemma phase_of_status:
  "j_status j = Pending \<Longrightarrow> phase_of_job j = Queued (j_fence_token j) (j_attempt_count j)"
  "j_status j = Processing \<Longrightarrow> \<exists>w. phase_of_job j = Leased w (j_fence_token j) (j_attempt_count j)"
  "final j \<Longrightarrow> phase_of_job j = Settled (j_status j) (j_fence_token j) (j_attempt_count j)"
  by (auto simp: phase_of_job_def final_def)

lemma claimed_row:
  assumes "claimable now j" "j_max_attempts j = 3"
  shows "entry_step (phase_of_job j) (phase_of_job (claimed now w j))"
  using assms by (simp add: claimable_def phase_of_status lease)

lemma finished_row:
  assumes "st \<in> {Success, Failure}" "j_status j \<noteq> Pending" "j_status j \<noteq> Dead"
  shows "entry_step (phase_of_job j) (phase_of_job (finished now st fb j))"
proof -
  from assms(2,3) consider "j_status j = Processing" | "final j"
    by (cases "j_status j") (auto simp: final_def)
  then show ?thesis
    using assms(1) phase_of_status(2,3) [of j] by cases (auto intro: complete amend)
qed

lemma released_row: "j_status j = Processing \<Longrightarrow> entry_step (phase_of_job j) (phase_of_job (released now delay j))"
  using phase_of_status(2) [of j] by (auto intro: give_up_lease)

lemma reclaimed_row:
  assumes "j_status j = Processing" "j_max_attempts j = 3"
  shows "entry_step (phase_of_job j) (phase_of_job (reclaimed cfg now j))"
  using phase_of_status(2) [OF assms(1)] assms(2) by (auto simp: exhausted_def intro: give_up_lease bury)

lemma expired_row: "timed_out now j \<Longrightarrow> entry_step (phase_of_job j) (phase_of_job (expire j))"
  by (simp add: timed_out_def phase_of_status expires)

lemma enqueue_phase:
  assumes "enqueue_if_new now new_id sha' repo pull inst trace d = (accepted, d')"
  shows "entry_step\<^sup>*\<^sup>* (phase_of sha d) (phase_of sha d')"
proof (cases "jobs d' = jobs d")
  case False
  with assms have d': "jobs d' = jobs d @ [new_job now new_id sha' repo pull inst trace]"
    and fresh: "\<not> list_ex (\<lambda>j. j_commit_sha j = sha') (jobs d)"
    by (auto simp: enqueue_if_new_def split: if_splits)
  let ?new = "new_job now new_id sha' repo pull inst trace"
  have found: "find (\<lambda>j. j_commit_sha j = sha) (xs @ [?new]) = (case find (\<lambda>j. j_commit_sha j = sha) xs of
      None \<Rightarrow> if sha' = sha then Some ?new else None | Some j \<Rightarrow> Some j)" for xs
    by (induction xs) (auto simp: new_job_def)
  have new: "entry_step\<^sup>*\<^sup>* Absent (phase_of_job ?new)"
    using submit by (simp add: new_job_def phase_of_job_def)
  show ?thesis
    using new by (auto simp: phase_of_def d' found split: option.splits)
qed (rule phase_of_same)

lemma claim_phase:
  assumes ok: "db_ok d" "three_attempts d" and claim: "claim_job now w locked d = (row, d')"
  shows "entry_step\<^sup>*\<^sup>* (phase_of sha d) (phase_of sha d')"
proof (cases "next_claim now locked (jobs d)")
  case None
  with claim show ?thesis by (simp add: claim_job_def)
next
  case (Some j)
  note picked = next_claim_Some [OF Some]
  have "r = j" if "r \<in> set (jobs d)" "j_id r = j_id j" for r
    using same_job [OF ok(1) that(1) picked(1) that(2)] .
  moreover have "entry_step (phase_of_job j) (phase_of_job (claimed now w j))"
    using claimed_row [OF picked(2)] ok(2) picked(1) by (simp add: three_attempts_def)
  ultimately show ?thesis
    using claim Some
    by (intro phase_of_update [where p = "\<lambda>r. j_id r = j_id j" and f = "claimed now w"])
      (auto simp: claim_job_def simp del: phase_of_updates)
qed

lemma reconcile_phase:
  assumes "three_attempts d" "reconcile_stale_jobs cfg now locked d = (rows, d')"
  shows "entry_step\<^sup>*\<^sup>* (phase_of sha d) (phase_of sha d')"
proof -
  define hit where "hit = reclaimable cfg now locked d"
  define mid where "mid = d\<lparr>jobs := sql_update hit (reclaimed cfg now) (jobs d)\<rparr>"
  have "entry_step\<^sup>*\<^sup>* (phase_of sha d) (phase_of sha mid)"
    using assms(1) reclaimed_row
    by (intro phase_of_update [where p = hit and f = "reclaimed cfg now"])
      (auto simp: mid_def hit_def reclaimable_def three_attempts_def simp del: phase_of_updates)
  moreover have "entry_step\<^sup>*\<^sup>* (phase_of sha mid) (phase_of sha d')"
    using assms(2) expired_row
    by (intro phase_of_update [where p = "timed_out now" and f = expire])
      (auto simp: mid_def hit_def reconcile_stale_jobs_def Let_def simp del: phase_of_updates)
  ultimately show ?thesis by (rule rtranclp_trans)
qed

lemma beat_same_jobs: "jobs (snd (update_heartbeat now i w d)) = jobs d"
  by (simp add: update_heartbeat_def split: list.split)

lemma finalize_phase:
  assumes ok: "client_ok (d, tokens)" and tok: "(i, f) \<in> tokens" and st: "st \<in> {Success, Failure}"
    and fin: "finalize_job u cfg now i f st fb d = Inr d'"
  shows "entry_step\<^sup>*\<^sup>* (phase_of sha d) (phase_of sha d')"
proof (rule phase_of_update [where p = "holds_fence i f" and f = "finished now st fb"])
  show "jobs d' = sql_update (holds_fence i f) (finished now st fb) (jobs d)"
    using fin by (auto elim: finalize_finds)
  show "entry_step\<^sup>*\<^sup>* (phase_of_job j) (phase_of_job (finished now st fb j))"
    if "j \<in> set (jobs d)" "holds_fence i f j" for j
    using finished_row [OF st] client_tokenD [OF ok tok that] by blast
qed simp

lemma client_step_phase:
  assumes ok: "client_ok s" and step: "client_step u cfg s e s'"
  shows "entry_step\<^sup>*\<^sup>* (phase_of sha (fst s)) (phase_of sha (fst s'))"
proof -
  obtain d tokens where s: "s = (d, tokens)" by fastforce
  from ok s have inv: "db_ok d" "three_attempts d" by (simp_all add: client_ok_def)
  from step s have "queue_step u cfg d e (fst s')" and allowed: "allowed tokens e" by (simp_all add: client_step_def)
  from this(1) have "entry_step\<^sup>*\<^sup>* (phase_of sha d) (phase_of sha (fst s'))" (is ?goal)
  proof cases
    case (enqueues new_id now sha' repo pull inst trace accepted)
    then show ?goal by (blast intro: enqueue_phase)
  next
    case (claims now w locked row)
    with inv show ?goal by (blast intro: claim_phase)
  next
    case (beats now i w alive)
    with beat_same_jobs [of now i w d] show ?goal by (intro phase_of_same) simp
  next
    case (sets_check_run i n)
    then show ?goal
      by (intro phase_of_update [where p = "\<lambda>j. j_id j = i" and f = "\<lambda>j. j\<lparr>j_github_check_run_id := Some n\<rparr>"])
        (auto simp: set_check_run_id_def)
  next
    case (finalizes st now i f fb)
    with allowed have "(i, f) \<in> tokens" by (simp add: allowed_def)
    with finalizes ok s show ?goal by (blast intro: finalize_phase)
  next
    case (releases i f now delay)
    then show ?goal
      using released_row
      by (intro phase_of_update [where p = "\<lambda>j. holds_fence i f j \<and> j_status j = Processing"
            and f = "released now delay"]) (auto simp: release_job_def simp del: phase_of_updates)
  next
    case (reconciles now locked rows)
    with inv show ?goal by (blast intro: reconcile_phase)
  qed (simp_all add: phase_of_same [of _ d])
  then show ?thesis by (simp add: s)
qed

interpretation lifecycle: simulation "\<lambda>s. s = (upgrade, {})" "client_step u cfg" client_ok
  "\<lambda>s. phase_of sha (fst s)" "\<lambda>p. p = Absent" entry_step for u cfg sha
proof
  show "client_ok s" if "s = (upgrade, {})" for s
    using that db_ok_upgrade by (simp add: client_ok_def three_attempts_def upgrade_def)
  show "client_ok t" if "client_ok s" "client_step u cfg s e t" for s e t
    using that by (rule client_step_ok)
  show "phase_of sha (fst s) = Absent" if "s = (upgrade, {})" for s
    using that by (simp add: phase_of_def upgrade_def)
  show "entry_step\<^sup>*\<^sup>* (phase_of sha (fst s)) (phase_of sha (fst t))"
    if "client_ok s" "client_step u cfg s e t" for s e t
    using that by (rule client_step_phase)
qed

section \<open>What follows for the queue\<close>

abbreviation client_reachable :: "(uuid \<Rightarrow> pystr) \<Rightarrow> settings \<Rightarrow> client_state \<Rightarrow> bool" where
  "client_reachable u cfg s \<equiv> reachable (\<lambda>s. s = (upgrade, {})) (client_step u cfg) s"

text \<open>
  C8. The queue implements the life cycle of a commit: as long as callers settle jobs only with
  tokens a claim handed them, in every reachable state and for every commit, whatever operation comes next,
  what happens to the commit's row is a sequence of steps of the abstract machine, which knows nothing of
  tables, heartbeats, locks and clocks; and the row is where the machine can be.
\<close>

theorem queue_refines_lifecycle:
  assumes "client_reachable u cfg s" and "client_step u cfg s e s'"
  shows "entry_step\<^sup>*\<^sup>* Absent (phase_of sha (fst s))
    \<and> entry_step\<^sup>*\<^sup>* (phase_of sha (fst s)) (phase_of sha (fst s'))
    \<and> phase_ok (phase_of sha (fst s'))"
proof (intro conjI)
  show "entry_step\<^sup>*\<^sup>* Absent (phase_of sha (fst s))"
    using lifecycle.view_reachable [OF assms(1)] by blast
  show "entry_step\<^sup>*\<^sup>* (phase_of sha (fst s)) (phase_of sha (fst s'))"
    using lifecycle.inv_reachable [OF assms(1)] assms(2) by (rule client_step_phase)
  show "phase_ok (phase_of sha (fst s'))"
    by (rule lifecycle.view_invariant [OF reachable_step [OF assms]]) (auto intro: entry_step_ok)
qed

text \<open>How often the phase of a commit changes along an execution (writing a result again does not count).\<close>

inductive phase_changes :: "(uuid \<Rightarrow> pystr) \<Rightarrow> settings \<Rightarrow> pystr \<Rightarrow> client_state \<Rightarrow> nat \<Rightarrow> client_state \<Rightarrow> bool"
  for u cfg sha where
  no_step: "phase_changes u cfg sha s 0 s"
| unchanged: "client_step u cfg s e t \<Longrightarrow> stage_of (phase_of sha (fst s)) = stage_of (phase_of sha (fst t)) \<Longrightarrow>
     phase_changes u cfg sha t n s' \<Longrightarrow> phase_changes u cfg sha s n s'"
| changed: "client_step u cfg s e t \<Longrightarrow> stage_of (phase_of sha (fst s)) \<noteq> stage_of (phase_of sha (fst t)) \<Longrightarrow>
     phase_changes u cfg sha t n s' \<Longrightarrow> phase_changes u cfg sha s (Suc n) s'"

lemma step_phases_left:
  assumes "client_ok s" "client_step u cfg s e t" "phase_ok (phase_of sha (fst s))"
  shows "client_ok t" "phase_ok (phase_of sha (fst t))"
    "phases_left (phase_of sha (fst t)) \<le> phases_left (phase_of sha (fst s))"
    "stage_of (phase_of sha (fst s)) \<noteq> stage_of (phase_of sha (fst t)) \<Longrightarrow>
       phases_left (phase_of sha (fst t)) < phases_left (phase_of sha (fst s))"
  using client_step_ok [OF assms(1,2)] entry_steps_left [OF client_step_phase [OF assms(1,2)] assms(3)] by blast+

lemma phase_changes_left:
  "phase_changes u cfg sha s n s' \<Longrightarrow> client_ok s \<Longrightarrow> phase_ok (phase_of sha (fst s)) \<Longrightarrow>
     int n + phases_left (phase_of sha (fst s')) \<le> phases_left (phase_of sha (fst s)) \<and> phase_ok (phase_of sha (fst s'))"
proof (induction rule: phase_changes.induct)
  case (unchanged s e t n s')
  note step = step_phases_left [OF unchanged.prems(1) unchanged.hyps(1) unchanged.prems(2)]
  from unchanged.IH [OF step(1,2)] step(3) show ?case by linarith
next
  case (changed s e t n s')
  note step = step_phases_left [OF changed.prems(1) changed.hyps(1) changed.prems(2)]
  from changed.IH [OF step(1,2)] step(4) [OF changed.hyps(2)] show ?case by simp
qed simp

text \<open>
  C9. The life of a job is finite: however long the system runs and whoever calls, from the fresh schema on the
  phase of a commit changes at most nine times, and each change uses up one of the changes that are left, so the
  retries of a job come to an end.
\<close>

theorem job_life_is_finite:
  assumes "phase_changes u cfg sha (upgrade, {}) n s"
  shows "n \<le> 9 \<and> int n + phases_left (phase_of sha (fst s)) \<le> 9"
proof -
  have start: "client_ok (upgrade, {})" by (rule lifecycle.inv_init) simp
  have "phase_of sha (fst (upgrade, {} :: (uuid \<times> int) set)) = Absent" by (simp add: phase_of_def upgrade_def)
  with phase_changes_left [OF assms start] have "int n + phases_left (phase_of sha (fst s)) \<le> 9"
    and "phase_ok (phase_of sha (fst s))" by simp_all
  with phases_left_nonneg [OF this(2)] show ?thesis by linarith
qed

definition own_settling :: "job \<Rightarrow> event \<Rightarrow> bool" where
  "own_settling job e \<longleftrightarrow> (case e of
     Stored (FinalizedJob i f st) \<Rightarrow> i = j_id job \<and> f = j_fence_token job
   | Stored (ReleasedJob i f delay) \<Rightarrow> i = j_id job \<and> f = j_fence_token job
   | _ \<Rightarrow> True)"

text \<open>
  The worker keeps the discipline: whatever GitHub, the model, the clock, failing commits and the other
  workers do, every transaction by which \<open>process_job\<close> finalizes or releases a job is for the job it was given
  and carries the token that job was claimed with.
\<close>

theorem worker_settles_with_own_token:
  "\<exists>es. w_log (snd (process_job h env job w)) = w_log w @ es \<and> list_all (own_settling job) es"
proof -
  have "keeps (logs (own_settling job)) (process_job h env job)"
  proof (rule process_job_logs)
    show "own_settling job e" if "unsettling e" for e
      using that by (auto simp: own_settling_def split: event.split db_action.split)
    show "keeps (logs (own_settling job)) (finalize h (j_id job) (j_fence_token job) st fb)" for st fb
      unfolding finalize_def by (rule logs_transact) (auto simp: own_settling_def bind_Inr_iff)
    show "keeps (logs (own_settling job)) (release h (j_id job) (j_fence_token job) delay)" for delay
      unfolding release_def by (rule logs_transact) (auto simp: own_settling_def)
  qed
  then show ?thesis by (auto simp: keeps_def logs_def)
qed

section \<open>The theorems on an execution\<close>

lemma demo_client_steps:
  "client_step demo_uuid default_settings (upgrade, {}) (queue_event.Enqueued demo_sha True) (q1, {})"
  "client_step demo_uuid default_settings (q1, {}) (Claimed w1 (Some row1)) (q2, {(1, 0)})"
  "client_step demo_uuid default_settings (q2, {(1, 0)}) (queue_event.Reconciled [row1']) (q3, {(1, 0)})"
  using demo_steps by (simp_all add: client_step_def allowed_def handed_out_def demo_ids)

lemma demo_client_reachable: "client_reachable demo_uuid default_settings (q2, {(1, 0)})"
proof -
  have "client_reachable demo_uuid default_settings (upgrade, {})" by (simp add: reachable_init)
  from reachable_step [OF reachable_step [OF this demo_client_steps(1)] demo_client_steps(2)] show ?thesis .
qed

theorem queue_refines_lifecycle_witness:
  "entry_step\<^sup>*\<^sup>* (phase_of demo_sha q2) (phase_of demo_sha q3)"
  using queue_refines_lifecycle [OF demo_client_reachable demo_client_steps(3), of demo_sha] by simp

lemma demo_phases:
  "phase_of demo_sha upgrade = Absent" "phase_of demo_sha q1 = Queued 0 0"
  "phase_of demo_sha q2 = Leased w1 0 1" "phase_of demo_sha q3 = Queued 1 1"
  by (simp_all add: phase_of_def phase_of_job_def demo_dbs demo_rows upgrade_def claimed_def reclaimed_def exhausted_def)

lemma demo_phase_changes: "phase_changes demo_uuid default_settings demo_sha (upgrade, {}) 3 (q3, {(1, 0)})"
proof -
  note step = phase_changes.changed [of demo_uuid default_settings _ _ _ demo_sha]
  have "phase_changes demo_uuid default_settings demo_sha (q3, {(1, 0)}) 0 (q3, {(1, 0)})"
    by (rule phase_changes.no_step)
  from step [OF demo_client_steps(1) _ step [OF demo_client_steps(2) _ step [OF demo_client_steps(3) _ this]]]
  show ?thesis by (simp add: demo_phases numeral_3_eq_3)
qed

theorem job_life_is_finite_witness: "int 3 + phases_left (phase_of demo_sha q3) \<le> 9"
  using job_life_is_finite [OF demo_phase_changes] by simp

end
