(* ===== verification/WorkerLoop.thy ===== *)
theory WorkerLoop
  imports ReviewJob QueueGuarantees "HOL-Library.AList"
begin

text \<open>
  The rest of \<open>ReviewWorker\<close> in \<open>app/worker.py\<close>: the main loop as a state machine over its semaphore,
  its tasks and the dictionary of active jobs; the release of active jobs at shutdown; the
  heartbeat of a job; and the reconciliation loop with its reports to GitHub. Signal
  registration and the cancellation of tasks are events of the machine, sleeping is a phase.
\<close>

section \<open>The main loop\<close>

record active_job =
  aj_fence_token :: int
  aj_commit_sha :: pystr

text \<open>Where \<open>run_forever\<close> stands: at the semaphore, inside \<open>claim_job\<close>, asleep, or past the loop.\<close>

datatype loop_phase = Waiting | Claiming | Sleeping | Leaving

record worker =
  wk_running :: bool
  wk_id :: pystr
  wk_permits :: nat
  wk_active :: "(uuid \<times> active_job) list"
  wk_tasks :: "job list"
  wk_phase :: loop_phase

definition new_worker :: "pystr \<Rightarrow> nat \<Rightarrow> worker" where
  "new_worker worker_id concurrency = \<lparr>wk_running = True, wk_id = worker_id, wk_permits = concurrency,
     wk_active = [], wk_tasks = [], wk_phase = Waiting\<rparr>"

text \<open>\<open>while self.running\<close>.\<close>

definition next_turn :: "worker \<Rightarrow> worker" where
  "next_turn w = w\<lparr>wk_phase := (if wk_running w then Waiting else Leaving)\<rparr>"

definition acquired :: "worker \<Rightarrow> worker" where
  "acquired w = (if wk_running w then w\<lparr>wk_permits := wk_permits w - 1, wk_phase := Claiming\<rparr>
     else w\<lparr>wk_phase := Leaving\<rparr>)"

definition active_of :: "job \<Rightarrow> active_job" where
  "active_of j = \<lparr>aj_fence_token = j_fence_token j, aj_commit_sha = j_commit_sha j\<rparr>"

definition claim_answered :: "job option outcome \<Rightarrow> worker \<Rightarrow> worker" where
  "claim_answered r w = (case r of
     Inr (Some job) \<Rightarrow> next_turn (w\<lparr>wk_active := AList.update (j_id job) (active_of job) (wk_active w),
        wk_tasks := wk_tasks w @ [job]\<rparr>)
   | Inr None \<Rightarrow> w\<lparr>wk_permits := wk_permits w + 1, wk_phase := Sleeping\<rparr>
   | Inl e \<Rightarrow> w\<lparr>wk_permits := (if wk_running w then wk_permits w + 1 else wk_permits w), wk_phase := Sleeping\<rparr>)"

definition stop :: "worker \<Rightarrow> worker" where
  "stop w = w\<lparr>wk_running := False\<rparr>"

text \<open>The \<open>finally\<close> of \<open>_safe_process_job\<close>: the entry of this job id goes, the permit comes back.\<close>

definition job_ended :: "job \<Rightarrow> worker \<Rightarrow> worker" where
  "job_ended job w = w\<lparr>wk_active := AList.delete (j_id job) (wk_active w),
     wk_permits := wk_permits w + 1, wk_tasks := remove1 job (wk_tasks w)\<rparr>"

datatype worker_event = Acquired | ClaimAnswered "job option outcome" | Woke | StopSignal | JobEnded job

inductive worker_step :: "worker \<Rightarrow> worker_event \<Rightarrow> worker \<Rightarrow> bool" where
  "wk_phase w = Waiting \<Longrightarrow> 0 < wk_permits w \<Longrightarrow> worker_step w Acquired (acquired w)"
| "wk_phase w = Claiming \<Longrightarrow> worker_step w (ClaimAnswered r) (claim_answered r w)"
| "wk_phase w = Sleeping \<Longrightarrow> worker_step w Woke (next_turn w)"
| "worker_step w StopSignal (stop w)"
| "job \<in> set (wk_tasks w) \<Longrightarrow> worker_step w (JobEnded job) (job_ended job w)"

inductive_cases worker_stepE: "worker_step w e w'"
inductive_simps worker_step_simps: "worker_step w Acquired w'" "worker_step w (ClaimAnswered r) w'"
  "worker_step w Woke w'" "worker_step w StopSignal w'" "worker_step w (JobEnded job) w'"

lemmas worker_ops = acquired_def claim_answered_def next_turn_def stop_def job_ended_def

section \<open>Slots\<close>

text \<open>Every permit is free, held by the loop while it claims, or held by a running job; none is ever lost while the worker runs.\<close>

definition held :: "worker \<Rightarrow> nat" where
  "held w = wk_permits w + length (wk_tasks w) + (if wk_phase w = Claiming then 1 else 0)"

definition tracked :: "worker \<Rightarrow> bool" where
  "tracked w \<longleftrightarrow> distinct (map fst (wk_active w))
     \<and> (\<forall>(i, m) \<in> set (wk_active w). \<exists>j \<in> set (wk_tasks w). j_id j = i \<and> active_of j = m)"

definition slots_ok :: "nat \<Rightarrow> worker \<Rightarrow> bool" where
  "slots_ok n w \<longleftrightarrow> held w \<le> n \<and> (wk_running w \<longrightarrow> held w = n) \<and> tracked w"

lemma in_set_updateD: "x \<in> set (AList.update k v al) \<Longrightarrow> x = (k, v) \<or> x \<in> set al"
  by (induction al) (auto split: if_splits)

lemma tracked_claim:
  assumes "tracked w" shows "tracked (w\<lparr>wk_active := AList.update (j_id job) (active_of job) (wk_active w),
        wk_tasks := wk_tasks w @ [job]\<rparr>)"
proof -
  have "(i, m) = (j_id job, active_of job) \<or> (i, m) \<in> set (wk_active w)"
    if "(i, m) \<in> set (AList.update (j_id job) (active_of job) (wk_active w))" for i m
    using that by (metis Pair_inject in_set_updateD prod.collapse)
  with assms show ?thesis by (fastforce simp: tracked_def distinct_update)
qed

lemma tracked_end:
  assumes "tracked w" shows "tracked (job_ended job w)"
proof -
  have "j \<in> set (remove1 job (wk_tasks w))" if "j \<in> set (wk_tasks w)" "j_id j \<noteq> j_id job" for j
    using that by (metis in_set_remove1)
  with assms show ?thesis
    by (fastforce simp: tracked_def job_ended_def AList.delete_eq distinct_map_filter)
qed

lemma tracked_same: "tracked (acquired w) = tracked w" "tracked (next_turn w) = tracked w"
    "tracked (stop w) = tracked w"
  by (simp_all add: tracked_def worker_ops)

lemma tracked_answered: "tracked w \<Longrightarrow> tracked (claim_answered r w)"
  using tracked_claim [of w] tracked_same(2)
  by (auto simp: claim_answered_def split: sum.split option.split) (simp_all add: tracked_def)

lemma held_end: "job \<in> set (wk_tasks w) \<Longrightarrow> held (job_ended job w) = held w"
  using length_pos_if_in_set [of job "wk_tasks w"] by (simp add: held_def job_ended_def length_remove1)

lemma held_turn: "wk_phase w \<noteq> Claiming \<Longrightarrow> held (next_turn w) = held w" "held (stop w) = held w"
    "wk_running (next_turn w) = wk_running w" "\<not> wk_running (stop w)" "wk_running (job_ended job w) = wk_running w"
  by (simp_all add: held_def next_turn_def stop_def job_ended_def)

lemma held_acquired:
  assumes "wk_phase w = Waiting" "0 < wk_permits w"
  shows "held (acquired w) = held w" "wk_running (acquired w) = wk_running w"
  using assms by (simp_all add: held_def acquired_def)

lemma held_answered:
  assumes "wk_phase w = Claiming"
  shows "wk_running w \<Longrightarrow> held (claim_answered r w) = held w" "wk_running (claim_answered r w) = wk_running w"
  using assms by (auto simp: held_def claim_answered_def next_turn_def split: sum.split option.split)

lemma held_answered_le: "wk_phase w = Claiming \<Longrightarrow> held (claim_answered r w) \<le> held w"
  by (auto simp: held_def claim_answered_def next_turn_def split: sum.split option.split)

interpretation slots: safe_system "\<lambda>w. w = new_worker i n" worker_step "slots_ok n" for i n
proof
  show "slots_ok n w" if "w = new_worker i n" for w
    using that by (simp add: slots_ok_def held_def tracked_def new_worker_def)
next
  fix w e w'
  assume ok: "slots_ok n w" and step: "worker_step w e w'"
  from step ok have "held w' \<le> n \<and> (wk_running w' \<longrightarrow> held w' = n)"
    by (cases rule: worker_stepE) (auto simp: slots_ok_def held_acquired held_end held_turn held_answered
      intro: order_trans [OF held_answered_le])
  moreover from step ok have "tracked w'"
    by (cases rule: worker_stepE) (auto simp: slots_ok_def tracked_same tracked_answered tracked_end)
  ultimately show "slots_ok n w'" by (simp add: slots_ok_def)
qed

text \<open>
  C18. The worker never processes more jobs than its concurrency, and no slot leaks: while it
  runs, free permits, running jobs and the claim in flight add up to the concurrency, after failed
  claims and failed jobs too; every active entry is a running job with its fence token.
\<close>

theorem concurrency_bounded:
  assumes "reachable (\<lambda>w. w = new_worker i n) worker_step w"
  shows "length (wk_tasks w) \<le> n
    \<and> (wk_running w \<longrightarrow> wk_permits w + length (wk_tasks w) + (if wk_phase w = Claiming then 1 else 0) = n)
    \<and> list_all (\<lambda>(k, m). list_ex (\<lambda>j. j_id j = k \<and> active_of j = m) (wk_tasks w)) (wk_active w)"
  using slots.inv_reachable [OF assms]
  by (auto simp: slots_ok_def held_def tracked_def list_all_iff list_ex_iff)

section \<open>Shutdown\<close>

fun release_each :: "host \<Rightarrow> (uuid \<times> active_job) list \<Rightarrow> unit io" where
  "release_each h [] = io_return ()"
| "release_each h ((job_id, meta) # rest) =
     io_bind (ignoring (release h job_id (aj_fence_token meta) 0)) (\<lambda>_. release_each h rest)"

text \<open>What \<open>shutdown\<close> does to the queue once it has waited for the running jobs.\<close>

definition shutdown :: "host \<Rightarrow> worker \<Rightarrow> unit io" where
  "shutdown h w = release_each h (wk_active w)"

definition calm_host :: "host \<Rightarrow> bool" where
  "calm_host h \<longleftrightarrow> (\<forall>n. h_fault h n = None) \<and> (\<forall>n d. h_others h n d = d)"

definition given_back :: "(uuid \<times> active_job) list \<Rightarrow> job \<Rightarrow> job \<Rightarrow> bool" where
  "given_back active j j' \<longleftrightarrow>
     (if (\<exists>m. (j_id j, m) \<in> set active \<and> aj_fence_token m = j_fence_token j) \<and> j_status j = Processing
      then \<exists>now. j' = released now 0 j else j' = j)"

lemma release_calm:
  assumes "calm_host h"
  shows "ignoring (release h i f delay) w = (Inr (), w\<lparr>w_db := release_job (h_clock h (w_ticks w)) i f delay (w_db w),
     w_ticks := Suc (w_ticks w), w_log := w_log w @ [Stored (ReleasedJob i f delay)]\<rparr>)"
  using assms by (simp add: ignoring_def io_defs release_def transact_def Let_def calm_host_def)

lemma release_each_rows:
  assumes "calm_host h"
  shows "\<exists>w'. release_each h active w = (Inr (), w') \<and> list_all2 (given_back active) (jobs (w_db w)) (jobs (w_db w'))"
proof (induction active arbitrary: w)
  case Nil
  then show ?case by (simp add: io_return_def given_back_def list_all2_refl)
next
  case (Cons a rest)
  obtain i m where a: "a = (i, m)" by (cases a)
  let ?t = "h_clock h (w_ticks w)"
  let ?w1 = "snd (ignoring (release h i (aj_fence_token m) 0) w)"
  obtain w' where w': "release_each h rest ?w1 = (Inr (), w')"
    "list_all2 (given_back rest) (jobs (w_db ?w1)) (jobs (w_db w'))" using Cons.IH by blast
  have row: "given_back (a # rest) j j'"
    if rest: "given_back rest (if holds_fence i (aj_fence_token m) j \<and> j_status j = Processing then released ?t 0 j else j) j'"
    for j j'
  proof (cases "holds_fence i (aj_fence_token m) j \<and> j_status j = Processing")
    case True
    with rest have "j' = released ?t 0 j" by (simp add: given_back_def released_def)
    with True show ?thesis by (auto simp: given_back_def a holds_fence_def)
  next
    case False
    then have "given_back rest j j'" using rest by (simp only: if_not_P if_False)
    moreover have "(\<exists>ma. (j_id j, ma) \<in> set (a # rest) \<and> aj_fence_token ma = j_fence_token j) \<and> j_status j = Processing
        \<longleftrightarrow> (\<exists>ma. (j_id j, ma) \<in> set rest \<and> aj_fence_token ma = j_fence_token j) \<and> j_status j = Processing"
      using False by (auto simp: a holds_fence_def)
    ultimately show ?thesis by (simp only: given_back_def)
  qed
  have "jobs (w_db ?w1) = map (\<lambda>j. if holds_fence i (aj_fence_token m) j \<and> j_status j = Processing
      then released ?t 0 j else j) (jobs (w_db w))"
    by (simp add: release_calm [OF assms] release_job_def sql_update_def)
  with w'(2) row have "list_all2 (given_back (a # rest)) (jobs (w_db w)) (jobs (w_db w'))"
    by (simp add: list_all2_map1 list_all2_mono)
  moreover have "release_each h (a # rest) w = (Inr (), w')"
    using w'(1) by (simp add: a io_bind_def release_calm [OF assms])
  ultimately show ?case by blast
qed

text \<open>A run in which no job is claimed while an earlier claim of it still runs.\<close>

definition fresh_step :: "worker \<Rightarrow> worker_event \<Rightarrow> worker \<Rightarrow> bool" where
  "fresh_step w e w' \<longleftrightarrow> worker_step w e w' \<and>
     (case e of ClaimAnswered (Inr (Some job)) \<Rightarrow> j_id job \<notin> j_id ` set (wk_tasks w) | _ \<Rightarrow> True)"

definition mirrored :: "worker \<Rightarrow> bool" where
  "mirrored w \<longleftrightarrow> distinct (map j_id (wk_tasks w)) \<and> wk_active w = map (\<lambda>j. (j_id j, active_of j)) (wk_tasks w)"

lemma update_fresh: "k \<notin> fst ` set al \<Longrightarrow> AList.update k v al = al @ [(k, v)]"
  by (induction al) auto

lemma delete_entry:
  assumes "distinct (map j_id js)" "job \<in> set js"
  shows "AList.delete (j_id job) (map (\<lambda>j. (j_id j, f j)) js) = map (\<lambda>j. (j_id j, f j)) (remove1 job js)"
  using assms
proof (induction js)
  case (Cons j js)
  then show ?case
    by (cases "j = job") (auto simp: AList.delete_eq filter_map comp_def image_iff intro!: filter_True)
qed simp

lemma mirrored_end:
  assumes "mirrored w" "job \<in> set (wk_tasks w)" shows "mirrored (job_ended job w)"
  using assms delete_entry [of "wk_tasks w" job active_of]
  by (simp add: mirrored_def job_ended_def distinct_map distinct_remove1 inj_on_diff)

lemma mirrored_same: "mirrored (acquired w) = mirrored w" "mirrored (next_turn w) = mirrored w"
    "mirrored (stop w) = mirrored w"
  by (simp_all add: mirrored_def worker_ops)

lemma mirrored_answered:
  assumes "mirrored w" "\<And>job. r = Inr (Some job) \<Longrightarrow> j_id job \<notin> j_id ` set (wk_tasks w)"
  shows "mirrored (claim_answered r w)"
  using assms
  by (auto simp: mirrored_def claim_answered_def next_turn_def update_fresh image_image split: sum.split option.split)

interpretation fresh: safe_system "\<lambda>w. w = new_worker i n" fresh_step mirrored for i n
proof
  show "mirrored w" if "w = new_worker i n" for w
    using that by (simp add: mirrored_def new_worker_def)
next
  fix w e w'
  assume ok: "mirrored w" and "fresh_step w e w'"
  then have step: "worker_step w e w'" and fresh: "\<And>job. e = ClaimAnswered (Inr (Some job)) \<Longrightarrow> j_id job \<notin> j_id ` set (wk_tasks w)"
    by (auto simp: fresh_step_def)
  from step show "mirrored w'"
    by (cases rule: worker_stepE)
      (use ok fresh mirrored_answered mirrored_end mirrored_same in auto)
qed


text \<open>
  A worker that claimed a stalled job of its own a second time forgets it: when the older
  run ends, it removes the entry of the newer one, which still runs; a shutdown then leaves the row
  processing until reconciliation finds it stale.
\<close>

theorem ended_zombie_hides_live_claim:
  assumes "reachable (\<lambda>w. w = new_worker i n) worker_step w" "old \<in> set (wk_tasks w)" "new \<in> set (wk_tasks w)"
    and "old \<noteq> new" "j_id old = j_id new" "calm_host h" "row \<in> set (jobs (w_db wd))" "j_id row = j_id new"
  shows "reachable (\<lambda>w. w = new_worker i n) worker_step (job_ended old w)
    \<and> new \<in> set (wk_tasks (job_ended old w))
    \<and> row \<in> set (jobs (w_db (snd (shutdown h (job_ended old w) wd))))"
proof -
  have "worker_step w (JobEnded old) (job_ended old w)" using assms(2) by (simp add: worker_step_simps)
  then have reach: "reachable (\<lambda>w. w = new_worker i n) worker_step (job_ended old w)"
    using reachable_step assms(1) by fast
  have new: "new \<in> set (wk_tasks (job_ended old w))" using assms(3,4) by (simp add: job_ended_def in_set_remove1)
  have gone: "(j_id row, m) \<notin> set (wk_active (job_ended old w))" for m
    using assms(5,8) by (auto simp: job_ended_def AList.delete_eq)
  obtain wd' where wd': "shutdown h (job_ended old w) wd = (Inr (), wd')"
    "list_all2 (given_back (wk_active (job_ended old w))) (jobs (w_db wd)) (jobs (w_db wd'))"
    using release_each_rows [OF assms(6)] unfolding shutdown_def by blast
  obtain k where "k < length (jobs (w_db wd))" "jobs (w_db wd) ! k = row" using assms(7) by (auto simp: in_set_conv_nth)
  with list_all2_nthD [OF wd'(2)] gone have "jobs (w_db wd') ! k = row" by (auto simp: given_back_def)
  then have "row \<in> set (jobs (w_db wd'))"
    using \<open>k < length _\<close> list_all2_lengthD [OF wd'(2)] nth_mem by metis
  with reach new wd'(1) show ?thesis by simp
qed

section \<open>Heartbeats\<close>

definition beat :: "host \<Rightarrow> uuid \<Rightarrow> pystr \<Rightarrow> bool io" where
  "beat h job_id worker_id = transact h (\<lambda>now d.
     case update_heartbeat now job_id worker_id d of (alive, d') \<Rightarrow> Inr (alive, d', []))"

text \<open>The first \<open>n\<close> turns of \<open>_run_heartbeat\<close>; the result tells whether it goes on.\<close>

fun run_heartbeat :: "host \<Rightarrow> uuid \<Rightarrow> pystr \<Rightarrow> nat \<Rightarrow> bool io" where
  "run_heartbeat h job_id worker_id 0 = io_return True"
| "run_heartbeat h job_id worker_id (Suc n) = io_bind (io_try (beat h job_id worker_id)) (\<lambda>r.
     if r = Inr False then io_return False else run_heartbeat h job_id worker_id n)"

section \<open>Reconciliation\<close>

definition reconcile :: "host \<Rightarrow> (uuid \<Rightarrow> bool) \<Rightarrow> job list io" where
  "reconcile h locked = transact h (\<lambda>now d.
     case reconcile_stale_jobs (h_cfg h) now locked d of (rows, d') \<Rightarrow> Inr (rows, d', [db_action.Reconciled (length rows)]))"

definition stalled_installation :: "(pystr \<Rightarrow> pyfloat) \<Rightarrow> job \<Rightarrow> pyval outcome" where
  "stalled_installation read_float job =
     bind (case as_str (j_payload job) of Some s \<Rightarrow> json_loads read_float s | None \<Rightarrow> Inr (j_payload job)) (\<lambda>payload.
     case as_dict payload of
       None \<Rightarrow> raise_exn AttributeError (lit ''get'')
     | Some d \<Rightarrow> Inr (dict_get d (lit ''installation_id'')))"

definition stalled_conclusion :: "job \<Rightarrow> pystr" where
  "stalled_conclusion job = (if j_status job = Dead then lit ''failure'' else lit ''action_required'')"

definition stalled_output :: "job \<Rightarrow> pydict" where
  "stalled_output job = [(lit ''title'', PStr (lit ''Review Stalled'')),
     (lit ''summary'', PStr (lit ''Job stalled or worker died.''
        @ (if j_status job = Pending then lit '' Retrying analysis...'' else [])))]"

text \<open>An installation id that is no integer is refused by the database, so it ends in the handler too.\<close>

definition report_stalled :: "host \<Rightarrow> (pystr \<Rightarrow> pyfloat) \<Rightarrow> job \<Rightarrow> unit io" where
  "report_stalled h read_float job =
     (if truthy_id (j_github_check_run_id job) \<and> j_status job \<in> {Dead, Pending}
      then ignoring (io_bind (io_of (stalled_installation read_float job)) (\<lambda>inst.
        if \<not> truthy inst then io_return ()
        else io_bind (io_of (case as_int inst of Some n \<Rightarrow> Inr n | None \<Rightarrow> raise_exn TypeError (lit ''installation_id'')))
          (\<lambda>inst_id. io_bind (get_token h inst_id) (\<lambda>token.
             update_check_run h (j_repo_full_name job) (the (j_github_check_run_id job)) token
               (stalled_conclusion job) (stalled_output job)))))
      else io_return ())"

fun report_all :: "host \<Rightarrow> (pystr \<Rightarrow> pyfloat) \<Rightarrow> job list \<Rightarrow> unit io" where
  "report_all h read_float [] = io_return ()"
| "report_all h read_float (job # rest) =
     io_bind (report_stalled h read_float job) (\<lambda>_. report_all h read_float rest)"

text \<open>One turn of \<open>reconciliation_loop\<close>.\<close>

definition reconcile_round :: "host \<Rightarrow> (pystr \<Rightarrow> pyfloat) \<Rightarrow> (uuid \<Rightarrow> bool) \<Rightarrow> unit io" where
  "reconcile_round h read_float locked =
     ignoring (io_bind (reconcile h locked) (report_all h read_float))"

section \<open>A beating job is kept\<close>

lemma update_heartbeat_row:
  assumes "update_heartbeat now i me d = (True, d')"
  shows "\<exists>j \<in> set (jobs d). j_id j = i \<and> j_worker_id j = Some me \<and> j_status j = Processing"
  using assms by (auto simp: update_heartbeat_def split: list.splits if_splits dest!: filter_ConsD)

lemma beat_row_kept:
  assumes "db_ok d" "j \<in> set (jobs d)" "j_worker_id j = Some me" "j_status j = Processing"
    and "b \<in> set (worker_heartbeats d)" "hb_job_id b = j_id j"
  shows "update_heartbeat now (j_id j) me d = (True, snd (update_heartbeat now (j_id j) me d))"
    and "b\<lparr>hb_heartbeat_at := now\<rparr> \<in> set (worker_heartbeats (snd (update_heartbeat now (j_id j) me d)))"
    and "jobs (snd (update_heartbeat now (j_id j) me d)) = jobs d"
proof -
  have uniq: "distinct (map j_id (jobs d))" using assms(1) by (simp add: db_ok_def keys_ok_def)
  have "\<exists>rest. filter (\<lambda>r. j_id r = j_id j \<and> j_worker_id r = Some me) (jobs d) = j # rest"
  proof (cases "filter (\<lambda>r. j_id r = j_id j \<and> j_worker_id r = Some me) (jobs d)")
    case Nil
    then show ?thesis using assms(2,3) by (simp add: filter_empty_conv)
  next
    case (Cons r rest)
    then show ?thesis using filter_ConsD [OF Cons] key_unique [OF uniq _ assms(2)] by auto
  qed
  then obtain rest where row: "filter (\<lambda>r. j_id r = j_id j \<and> j_worker_id r = Some me) (jobs d) = j # rest" by blast
  have "hb_worker_id b = me"
  proof -
    obtain r where "r \<in> set (jobs d)" "j_id r = hb_job_id b" "j_worker_id r = Some (hb_worker_id b)"
      using assms(1,5) by (auto simp: db_ok_def beats_ok_def)
    with assms(2,3,6) key_unique [OF uniq] show ?thesis by fastforce
  qed
  then show "b\<lparr>hb_heartbeat_at := now\<rparr> \<in> set (worker_heartbeats (snd (update_heartbeat now (j_id j) me d)))"
    using assms(4-6) by (simp add: update_heartbeat_def row sql_update_hit)
  show "update_heartbeat now (j_id j) me d = (True, snd (update_heartbeat now (j_id j) me d))"
    "jobs (snd (update_heartbeat now (j_id j) me d)) = jobs d"
    using assms(4) by (simp_all add: update_heartbeat_def row)
qed

lemma heartbeat_ends:
  assumes "list_all (\<lambda>r. \<not> (j_id r = i \<and> j_worker_id r = Some me \<and> j_status r = Processing)) (jobs d)"
  shows "update_heartbeat now i me d = (False, d)"
  using assms
  by (auto simp: update_heartbeat_def list_all_iff split: list.split dest!: filter_ConsD)


section \<open>What reconciliation reports\<close>

text \<open>The events of a round that reclaimed \<open>rows\<close>.\<close>

definition round_event :: "job list \<Rightarrow> event \<Rightarrow> bool" where
  "round_event rows e = (case e of
     Stored (db_action.Reconciled n) \<Rightarrow> n = length rows
   | Stored (CachedToken i t) \<Rightarrow> True
   | Sent rq \<Rightarrow> (\<exists>i jwt. rq = token_request i jwt)
       \<or> (\<exists>job \<in> set rows. truthy_id (j_github_check_run_id job) \<and> (\<exists>token at. rq =
            check_run_completed (j_repo_full_name job) (the (j_github_check_run_id job)) token
              (stalled_conclusion job) (stalled_output job) at))
   | _ \<Rightarrow> False)"

lemma report_stalled_logs:
  assumes "job \<in> set rows"
  shows "keeps (logs (round_event rows)) (report_stalled h read_float job)"
proof (cases "truthy_id (j_github_check_run_id job)")
  case True
  have "round_event rows (Sent (check_run_completed (j_repo_full_name job) (the (j_github_check_run_id job)) token
      (stalled_conclusion job) (stalled_output job) at))" for token at
    using assms True by (simp add: round_event_def) blast
  then show ?thesis
    unfolding report_stalled_def get_token_def update_check_run_def Let_def
    by (intro logs.keeps_intros logs_send_ok logs_clock logs_transact) (auto simp: round_event_def)
qed (simp add: report_stalled_def logs.keeps_return)

lemma report_all_logs: "set js \<subseteq> set rows \<Longrightarrow> keeps (logs (round_event rows)) (report_all h read_float js)"
  by (induction js) (auto intro!: logs.keeps_intros report_stalled_logs)

lemma report_stalled_returns: "\<exists>w'. report_stalled h read_float job w = (Inr (), w')"
  by (auto simp: report_stalled_def ignoring_def io_defs split: prod.splits sum.splits)

lemma report_all_returns: "\<exists>w'. report_all h read_float js w = (Inr (), w')"
proof (induction js arbitrary: w)
  case (Cons j js)
  obtain w1 where "report_stalled h read_float j w = (Inr (), w1)" using report_stalled_returns by blast
  with Cons [of w1] show ?case by (simp add: io_bind_def)
qed (simp add: io_return_def)

lemma report_stalled_sends:
  assumes "truthy_id (j_github_check_run_id job)" "j_status job \<in> {Dead, Pending}"
    and "stalled_installation read_float job = Inr (PInt inst_id)" "inst_id \<noteq> 0"
    and "\<And>v. \<exists>token v'. get_token h inst_id v = (Inr token, v')"
  shows "\<exists>w' token at. report_stalled h read_float job w = (Inr (), w') \<and> Sent (check_run_completed (j_repo_full_name job)
     (the (j_github_check_run_id job)) token (stalled_conclusion job) (stalled_output job) at) \<in> set (w_log w')"
proof -
  obtain token v where tok: "get_token h inst_id w = (Inr token, v)" using assms(5) by blast
  show ?thesis
    using assms(1-4)
    by (auto simp: report_stalled_def ignoring_def io_defs as_int_def tok update_check_run_def clock_def send_ok_def
      send_def split: sum.splits)
qed

lemma report_all_sends:
  assumes "job \<in> set js" "truthy_id (j_github_check_run_id job)" "j_status job \<in> {Dead, Pending}"
    and "stalled_installation read_float job = Inr (PInt inst_id)" "inst_id \<noteq> 0"
    and "\<And>v. \<exists>token v'. get_token h inst_id v = (Inr token, v')"
  shows "\<exists>token at. Sent (check_run_completed (j_repo_full_name job) (the (j_github_check_run_id job)) token
     (stalled_conclusion job) (stalled_output job) at) \<in> set (w_log (snd (report_all h read_float js w)))"
  using assms(1)
proof (induction js arbitrary: w)
  case (Cons j js)
  show ?case
  proof (cases "j = job")
    case True
    obtain w1 token at where w1: "report_stalled h read_float j w = (Inr (), w1)"
      "Sent (check_run_completed (j_repo_full_name job) (the (j_github_check_run_id job)) token
        (stalled_conclusion job) (stalled_output job) at) \<in> set (w_log w1)"
      using report_stalled_sends [OF assms(2-6)] True by blast
    have "logs (round_event js) w1 (snd (report_all h read_float js w1))"
      using report_all_logs [of js js h read_float] by (simp add: keeps_def)
    then obtain es where "w_log (snd (report_all h read_float (j # js) w)) = w_log w1 @ es"
      using w1(1) by (auto simp: io_bind_def logs_def)
    with w1(2) show ?thesis by (intro exI [of _ token] exI [of _ at]) simp
  next
    case False
    obtain w1 where "report_stalled h read_float j w = (Inr (), w1)" using report_stalled_returns by blast
    with Cons False show ?thesis by (simp add: io_bind_def)
  qed
qed simp


section \<open>Demonstrations\<close>

text \<open>A worker of two slots that claims \<open>row1\<close>, loses it by a stalled heartbeat and claims it again.\<close>

definition again :: job where "again = claimed (seconds 300) w1 row1'"

definition one_job :: worker where
  "one_job = claim_answered (Inr (Some row1)) (acquired (new_worker w1 2))"

definition two_claims :: worker where
  "two_claims = claim_answered (Inr (Some again)) (acquired one_job)"

lemma demo_workers: "fresh_step (new_worker w1 2) Acquired (acquired (new_worker w1 2))"
  "fresh_step (acquired (new_worker w1 2)) (ClaimAnswered (Inr (Some row1))) one_job"
  "worker_step one_job Acquired (acquired one_job)"
  "worker_step (acquired one_job) (ClaimAnswered (Inr (Some again))) two_claims"
  "wk_tasks one_job = [row1]" "wk_tasks two_claims = [row1, again]"
  by (simp_all add: fresh_step_def worker_step_simps new_worker_def one_job_def two_claims_def worker_ops)

lemma demo_worker_reached:
  "reachable (\<lambda>w. w = new_worker w1 2) fresh_step one_job"
  "reachable (\<lambda>w. w = new_worker w1 2) worker_step two_claims"
proof -
  let ?start = "\<lambda>w. w = new_worker w1 2"
  have "reachable ?start fresh_step (new_worker w1 2)" by (rule reachable_init) simp
  then have "reachable ?start fresh_step (acquired (new_worker w1 2))" by (rule reachable_step [where step = fresh_step, OF _ demo_workers(1)])
  then show "reachable ?start fresh_step one_job" by (rule reachable_step [where step = fresh_step, OF _ demo_workers(2)])
  have steps: "worker_step (new_worker w1 2) Acquired (acquired (new_worker w1 2))"
    "worker_step (acquired (new_worker w1 2)) (ClaimAnswered (Inr (Some row1))) one_job"
    using demo_workers(1,2) by (simp_all add: fresh_step_def)
  have "reachable ?start worker_step (new_worker w1 2)" by (rule reachable_init) simp
  then have "reachable ?start worker_step (acquired (new_worker w1 2))" by (rule reachable_step [where step = worker_step, OF _ steps(1)])
  then have "reachable ?start worker_step one_job" by (rule reachable_step [where step = worker_step, OF _ steps(2)])
  then have "reachable ?start worker_step (acquired one_job)" by (rule reachable_step [where step = worker_step, OF _ demo_workers(3)])
  then show "reachable ?start worker_step two_claims" by (rule reachable_step [where step = worker_step, OF _ demo_workers(4)])
qed

lemma quiet_calm: "calm_host quiet_host"
  by (simp add: calm_host_def quiet_host_def)

theorem concurrency_bounded_witness: "length (wk_tasks two_claims) \<le> 2"
  using concurrency_bounded [OF demo_worker_reached(2)] by simp


theorem ended_zombie_hides_live_claim_witness:
  "jobs (w_db (snd (shutdown quiet_host (job_ended row1 two_claims) (fresh_world (q2\<lparr>jobs := [again]\<rparr>))))) \<noteq> []
   \<and> again \<in> set (wk_tasks (job_ended row1 two_claims))"
  using ended_zombie_hides_live_claim [OF demo_worker_reached(2), of row1 again quiet_host again
      "fresh_world (q2\<lparr>jobs := [again]\<rparr>)"] quiet_calm
  by (auto simp: demo_workers again_def demo_rows claimed_def reclaimed_def fresh_world_def)



end
