(* ===== verification/Stats.thy ===== *)
theory Stats
  imports PyValue Complex_Main
begin

text \<open>
  The statistics the benchmark scripts print: the percentile by rank that \<open>benchmark_queue.py\<close> and the fault
  harness define, and \<open>fmean\<close>, \<open>median\<close> and \<open>quantiles\<close> of Python's standard library. Measurements are rational;
  for the ranks used (0.50, 0.95, 0.99) the rounded product of a length and the rank truncates to the same index.
\<close>

section \<open>Order statistics\<close>

lemma sort_map_bounds:
  assumes "i < length xs"
  shows "i + 1 \<le> length (filter (\<lambda>x. x \<le> sort xs ! i) xs)" "length xs - i \<le> length (filter (\<lambda>x. sort xs ! i \<le> x) xs)"
proof -
  have count: "length (filter P xs) = length (filter P (sort xs))" for P :: "'a::linorder \<Rightarrow> bool"
  proof -
    have "mset (filter P (sort xs)) = mset (filter P xs)" by simp
    then show ?thesis by (metis size_mset)
  qed
  have low: "\<forall>x \<in> set (take (i + 1) (sort xs)). x \<le> sort xs ! i"
  proof
    fix x assume "x \<in> set (take (i + 1) (sort xs))"
    then obtain j where "j < i + 1" "j < length xs" "x = sort xs ! j" by (auto simp: in_set_conv_nth)
    with assms show "x \<le> sort xs ! i" by (simp add: sorted_nth_mono)
  qed
  have high: "\<forall>x \<in> set (drop i (sort xs)). sort xs ! i \<le> x"
  proof
    fix x assume "x \<in> set (drop i (sort xs))"
    then obtain j where "j < length (drop i (sort xs))" "x = drop i (sort xs) ! j" by (metis in_set_conv_nth)
    then have "i + j < length xs" "x = sort xs ! (i + j)" by simp_all
    then show "sort xs ! i \<le> x" by (simp add: sorted_nth_mono)
  qed
  have "i + 1 = length (filter (\<lambda>x. x \<le> sort xs ! i) (take (i + 1) (sort xs)))"
    using low assms by (simp add: filter_id_conv [THEN iffD2] Ball_def)
  also have "\<dots> \<le> length (filter (\<lambda>x. x \<le> sort xs ! i) (sort xs))"
    by (subst (4) append_take_drop_id [of "i + 1" "sort xs", symmetric], subst filter_append) simp
  finally show "i + 1 \<le> length (filter (\<lambda>x. x \<le> sort xs ! i) xs)" by (simp add: count)
  have "length xs - i = length (filter (\<lambda>x. sort xs ! i \<le> x) (drop i (sort xs)))"
    using high by (simp add: filter_id_conv [THEN iffD2] Ball_def)
  also have "\<dots> \<le> length (filter (\<lambda>x. sort xs ! i \<le> x) (sort xs))"
    by (subst (4) append_take_drop_id [of i "sort xs", symmetric], subst filter_append) simp
  finally show "length xs - i \<le> length (filter (\<lambda>x. sort xs ! i \<le> x) xs)" by (simp add: count)
qed

section \<open>The percentile by rank\<close>

text \<open>\<open>min(int(len(xs) * p), len(xs) - 1)\<close>.\<close>

definition rank_index :: "nat \<Rightarrow> rat \<Rightarrow> nat" where
  "rank_index n p = min (nat \<lfloor>of_nat n * p\<rfloor>) (n - 1)"

definition nearest_rank :: "rat list \<Rightarrow> rat \<Rightarrow> rat" where
  "nearest_rank xs p = sort xs ! rank_index (length xs) p"

lemma rank_index_less: "0 < n \<Longrightarrow> rank_index n p < n"
  unfolding rank_index_def by (rule le_less_trans [OF min.cobounded2]) simp

lemma rank_index_bounds:
  assumes "0 < n" "0 \<le> p" "p \<le> 1"
  shows "of_nat n * p \<le> of_nat (rank_index n p + 1)" "of_nat (rank_index n p) \<le> of_nat n * p"
proof -
  have nonneg: "0 \<le> of_nat n * p" using assms by simp
  have le: "of_nat n * p \<le> of_nat n" using assms by (simp add: mult_left_le)
  have f1: "of_nat (nat \<lfloor>of_nat n * p\<rfloor>) \<le> of_nat n * p" using nonneg by (simp add: of_nat_nat)
  have f2: "of_nat n * p \<le> of_nat (nat \<lfloor>of_nat n * p\<rfloor> + 1)" using nonneg by (simp add: of_nat_nat) linarith
  have last: "of_nat (n - 1 + 1) = (of_nat n :: rat)" using assms(1) by simp
  show "of_nat (rank_index n p) \<le> of_nat n * p"
    unfolding rank_index_def using f1 by (meson min.cobounded1 of_nat_mono order_trans)
  show "of_nat n * p \<le> of_nat (rank_index n p + 1)"
    unfolding rank_index_def using f2 le last by (cases "nat \<lfloor>of_nat n * p\<rfloor> \<le> n - 1") (auto simp: min_def)
qed

lemma nearest_rank_in: "xs \<noteq> [] \<Longrightarrow> nearest_rank xs p \<in> set xs"
  unfolding nearest_rank_def by (metis length_greater_0_conv length_sort nth_mem rank_index_less set_sort)

text \<open>The value has at least the share \<open>p\<close> of the samples at or below it, and the rest at or above it.\<close>

lemma nearest_rank_splits:
  assumes "xs \<noteq> []" "0 \<le> p" "p \<le> 1"
  shows "p * of_nat (length xs) \<le> of_nat (length (filter (\<lambda>x. x \<le> nearest_rank xs p) xs))"
    "(1 - p) * of_nat (length xs) \<le> of_nat (length (filter (\<lambda>x. nearest_rank xs p \<le> x) xs))"
proof -
  let ?n = "length xs" and ?i = "rank_index (length xs) p"
  have n: "0 < ?n" using assms(1) by simp
  note idx = rank_index_less [OF n, of p] and bounds = rank_index_bounds [OF n assms(2,3)]
  note sides = sort_map_bounds [OF idx, folded nearest_rank_def]
  show "p * of_nat ?n \<le> of_nat (length (filter (\<lambda>x. x \<le> nearest_rank xs p) xs))"
    using bounds(1) of_nat_mono [OF sides(1), where 'a = rat] by (simp add: mult.commute)
  have "(1 - p) * of_nat ?n \<le> of_nat (?n - ?i)"
    using bounds(2) idx by (simp add: of_nat_diff algebra_simps)
  also have "\<dots> \<le> of_nat (length (filter (\<lambda>x. nearest_rank xs p \<le> x) xs))"
    using of_nat_mono [OF sides(2), where 'a = rat] .
  finally show "(1 - p) * of_nat ?n \<le> of_nat (length (filter (\<lambda>x. nearest_rank xs p \<le> x) xs))" .
qed

lemma rank_index_mono: "p \<le> q \<Longrightarrow> rank_index n p \<le> rank_index n q"
  unfolding rank_index_def by (intro min.mono nat_mono floor_mono mult_left_mono) simp_all

lemma nearest_rank_mono: "xs \<noteq> [] \<Longrightarrow> p \<le> q \<Longrightarrow> nearest_rank xs p \<le> nearest_rank xs q"
  unfolding nearest_rank_def by (rule sorted_nth_mono) (simp_all add: rank_index_mono rank_index_less)

section \<open>Mean, median, quantiles\<close>

text \<open>\<open>statistics.fmean\<close> and \<open>statistics.median\<close>; without data both raise.\<close>

definition statistics_error :: "'a outcome" where
  "statistics_error = raise_exn ValueError (lit ''not enough data points'')"

definition fmean :: "rat list \<Rightarrow> rat outcome" where
  "fmean xs = (if xs = [] then statistics_error else Inr (sum_list xs / of_nat (length xs)))"

definition median :: "rat list \<Rightarrow> rat outcome" where
  "median xs = (if xs = [] then statistics_error else let ys = sort xs; n = length xs in
     if odd n then Inr (ys ! (n div 2)) else Inr ((ys ! (n div 2 - 1) + ys ! (n div 2)) / 2))"

text \<open>
  \<open>statistics.quantiles(xs, n=n)\<close> with the exclusive method: cut point \<open>i\<close> of \<open>n - 1\<close> interpolates between
  two neighbours, with the index kept inside the data. Fewer than two samples raise.
\<close>

definition cut_point :: "rat list \<Rightarrow> nat \<Rightarrow> nat \<Rightarrow> rat" where
  "cut_point ys n i = (let ld = length ys; m = ld + 1; j0 = i * m div n;
     j = (if j0 < 1 then 1 else if ld - 1 < j0 then ld - 1 else j0);
     delta = of_int (int (i * m) - int (j * n)) in
     (ys ! (j - 1) * (of_nat n - delta) + ys ! j * delta) / of_nat n)"

definition quantiles :: "rat list \<Rightarrow> nat \<Rightarrow> rat list outcome" where
  "quantiles xs n = (if length xs < 2 then statistics_error
     else Inr (map (cut_point (sort xs) n) [1..<n]))"

definition max_of :: "rat list \<Rightarrow> rat outcome" where
  "max_of xs = (if xs = [] then raise_exn ValueError (lit ''max() iterable argument is empty'') else Inr (Max (set xs)))"

definition min_of :: "rat list \<Rightarrow> rat outcome" where
  "min_of xs = (if xs = [] then raise_exn ValueError (lit ''min() iterable argument is empty'') else Inr (Min (set xs)))"

lemma max_of_Inr: "max_of xs = Inr m \<Longrightarrow> m \<in> set xs \<and> (\<forall>x \<in> set xs. x \<le> m)"
  by (auto simp: max_of_def split: if_splits)

lemma min_of_Inr: "min_of xs = Inr m \<Longrightarrow> m \<in> set xs \<and> (\<forall>x \<in> set xs. m \<le> x)"
  by (auto simp: min_of_def split: if_splits)

lemma sum_list_between:
  fixes f :: "'a \<Rightarrow> rat"
  assumes "\<And>x. x \<in> set xs \<Longrightarrow> a \<le> f x" "\<And>x. x \<in> set xs \<Longrightarrow> f x \<le> b"
  shows "a * of_nat (length xs) \<le> sum_list (map f xs)" "sum_list (map f xs) \<le> b * of_nat (length xs)"
  using assms by (induction xs) (auto simp: algebra_simps add_mono)

end
