(* ===== verification/ChaosHarness.thy ===== *)
theory ChaosHarness
  imports QueueGuarantees
begin

text \<open>
  \<open>scripts/chaos_sigkill.py\<close>: the fault-injection harness that runs the queue's operations in worker
  processes, kills and freezes them, and reports whether every job was recovered. The harness is a
  transition system over the database of \<open>JobQueue\<close>, the worker processes and the five tables
  it writes; choices of victims and of timing are the choices of the system. The tables' times are
  arguments of the steps. Percentiles and the printed text of the report are left out.
\<close>

section \<open>State\<close>

definition sha_prefix :: pystr where
  "sha_prefix = lit ''chaos_''"

text \<open>\<open>commit_sha LIKE 'chaos_%'\<close>, where the underscore stands for any one character.\<close>

definition harness_sha :: "pystr \<Rightarrow> bool" where
  "harness_sha sha \<longleftrightarrow> starts (lit ''chaos'') sha \<and> 6 \<le> length sha"

record mark =
  mk_sha :: pystr
  mk_worker :: pystr
  mk_fence :: int
  mk_at :: int

record fault =
  ft_sha :: pystr
  ft_worker :: pystr
  ft_mode :: pystr
  ft_at :: int

text \<open>What a worker process is about to do: poll, note its claim, take effect, finalize, note its rejection.\<close>

datatype stage = Idle | Taken job | Working job | Effected job | Rejected job

record harness =
  hn_db :: db
  hn_procs :: "pystr \<Rightarrow> stage option"
  hn_effects :: "mark list"
  hn_claims :: "mark list"
  hn_rejections :: "mark list"
  hn_recoveries :: "(pystr \<times> int) list"
  hn_faults :: "fault list"

section \<open>Setting up\<close>

definition setup_db :: "db \<Rightarrow> db" where
  "setup_db d = d\<lparr>jobs := sql_delete (\<lambda>j. harness_sha (j_commit_sha j)) (jobs d),
     review_records := sql_delete (\<lambda>r. harness_sha (rr_commit_sha r)) (review_records d)\<rparr>"

definition harness_job_sha :: "int \<Rightarrow> nat \<Rightarrow> pystr" where
  "harness_job_sha run_id i = sha_prefix @ str_int run_id @ lit ''_'' @ str_int (int i)"

fun enqueue_jobs :: "int \<Rightarrow> (nat \<Rightarrow> uuid) \<Rightarrow> int \<Rightarrow> nat \<Rightarrow> db \<Rightarrow> db" where
  "enqueue_jobs now ids run_id 0 d = d"
| "enqueue_jobs now ids run_id (Suc n) d = snd (enqueue_if_new now (ids n) (harness_job_sha run_id n)
     (lit ''chaos/repo'') (int n) 1 None (enqueue_jobs now ids run_id n d))"

definition raise_max_attempts :: "int \<Rightarrow> db \<Rightarrow> db" where
  "raise_max_attempts m d = d\<lparr>jobs := sql_update (\<lambda>j. harness_sha (j_commit_sha j)) (\<lambda>j. j\<lparr>j_max_attempts := m\<rparr>) (jobs d)\<rparr>"

definition prepared :: "int \<Rightarrow> (nat \<Rightarrow> uuid) \<Rightarrow> int \<Rightarrow> nat \<Rightarrow> int \<Rightarrow> db \<Rightarrow> harness" where
  "prepared now ids run_id n m d = \<lparr>hn_db = raise_max_attempts m (enqueue_jobs now ids run_id n (setup_db d)),
     hn_procs = (\<lambda>_. None), hn_effects = [], hn_claims = [], hn_rejections = [], hn_recoveries = [], hn_faults = []\<rparr>"

section \<open>Worker processes\<close>

definition mark_of :: "pystr \<Rightarrow> int \<Rightarrow> job \<Rightarrow> mark" where
  "mark_of w now j = \<lparr>mk_sha = j_commit_sha j, mk_worker = w, mk_fence = j_fence_token j, mk_at = now\<rparr>"

definition go :: "pystr \<Rightarrow> stage \<Rightarrow> harness \<Rightarrow> harness" where
  "go w st s = s\<lparr>hn_procs := (hn_procs s)(w \<mapsto> st)\<rparr>"

definition take_job :: "int \<Rightarrow> pystr \<Rightarrow> (uuid \<Rightarrow> bool) \<Rightarrow> harness \<Rightarrow> harness" where
  "take_job now w locked s = (case claim_job now w locked (hn_db s) of
     (None, d') \<Rightarrow> s\<lparr>hn_db := d'\<rparr>
   | (Some j, d') \<Rightarrow> go w (Taken j) (s\<lparr>hn_db := d'\<rparr>))"

definition note_claim :: "int \<Rightarrow> pystr \<Rightarrow> job \<Rightarrow> harness \<Rightarrow> harness" where
  "note_claim now w j s = go w (Working j) (s\<lparr>hn_claims := hn_claims s @ [mark_of w now j]\<rparr>)"

definition take_effect :: "int \<Rightarrow> pystr \<Rightarrow> job \<Rightarrow> harness \<Rightarrow> harness" where
  "take_effect now w j s = go w (Effected j) (s\<lparr>hn_effects := hn_effects s @ [mark_of w now j]\<rparr>)"

definition commit_job :: "(uuid \<Rightarrow> pystr) \<Rightarrow> settings \<Rightarrow> int \<Rightarrow> pystr \<Rightarrow> job \<Rightarrow> harness \<Rightarrow> harness" where
  "commit_job u cfg now w j s =
     (case finalize_job u cfg now (j_id j) (j_fence_token j) Success (Some [(lit ''ok'', PBool True)]) (hn_db s) of
        Inl e \<Rightarrow> go w (Rejected j) s
      | Inr d' \<Rightarrow> go w Idle (s\<lparr>hn_db := d'\<rparr>))"

definition note_rejection :: "int \<Rightarrow> pystr \<Rightarrow> job \<Rightarrow> harness \<Rightarrow> harness" where
  "note_rejection now w j s = go w Idle (s\<lparr>hn_rejections := hn_rejections s @ [mark_of w now j]\<rparr>)"

definition beat_job :: "int \<Rightarrow> pystr \<Rightarrow> job \<Rightarrow> harness \<Rightarrow> harness" where
  "beat_job now w j s = s\<lparr>hn_db := snd (update_heartbeat now (j_id j) w (hn_db s))\<rparr>"

section \<open>The orchestrator\<close>

definition spawn :: "pystr \<Rightarrow> harness \<Rightarrow> harness" where
  "spawn w s = go w Idle s"

text \<open>\<open>SIGKILL\<close>; the kill of a worker that holds a job is recorded with the job's commit.\<close>

definition kill :: "int \<Rightarrow> pystr \<Rightarrow> pystr \<Rightarrow> harness \<Rightarrow> harness" where
  "kill now w sha s = s\<lparr>hn_procs := (hn_procs s)(w := None),
     hn_faults := hn_faults s @ (if sha = [] then [] else
       [\<lparr>ft_sha = sha, ft_worker = w, ft_mode = lit ''sigkill'', ft_at = now\<rparr>])\<rparr>"

text \<open>\<open>SIGSTOP\<close> and \<open>SIGCONT\<close> only delay the process, and any delay is a run of the system.\<close>

definition freeze :: "int \<Rightarrow> pystr \<Rightarrow> pystr \<Rightarrow> harness \<Rightarrow> harness" where
  "freeze now w sha s = s\<lparr>hn_faults := hn_faults s @
     [\<lparr>ft_sha = sha, ft_worker = w, ft_mode = lit ''freeze'', ft_at = now\<rparr>]\<rparr>"

definition reconcile_once :: "settings \<Rightarrow> int \<Rightarrow> (uuid \<Rightarrow> bool) \<Rightarrow> harness \<Rightarrow> harness" where
  "reconcile_once cfg now locked s = (case reconcile_stale_jobs cfg now locked (hn_db s) of (rows, d') \<Rightarrow>
     (let requeued = map j_id (filter (\<lambda>r. j_status r = Pending) rows) in
      s\<lparr>hn_db := d', hn_recoveries := hn_recoveries s
         @ map (\<lambda>j. (j_commit_sha j, now)) (filter (\<lambda>j. j_id j \<in> set requeued) (jobs d'))\<rparr>))"

datatype harness_event = Process pystr | Orchestrator

inductive harness_step :: "(uuid \<Rightarrow> pystr) \<Rightarrow> settings \<Rightarrow> harness \<Rightarrow> harness_event \<Rightarrow> harness \<Rightarrow> bool" for u cfg where
  takes: "hn_procs s w = Some Idle \<Longrightarrow> harness_step u cfg s (Process w) (take_job now w locked s)"
| notes_claim: "hn_procs s w = Some (Taken j) \<Longrightarrow> harness_step u cfg s (Process w) (note_claim now w j s)"
| effects: "hn_procs s w = Some (Working j) \<Longrightarrow> harness_step u cfg s (Process w) (take_effect now w j s)"
| commits: "hn_procs s w = Some (Effected j) \<Longrightarrow> harness_step u cfg s (Process w) (commit_job u cfg now w j s)"
| notes_rejection: "hn_procs s w = Some (Rejected j) \<Longrightarrow> harness_step u cfg s (Process w) (note_rejection now w j s)"
| beats: "hn_procs s w = Some st \<Longrightarrow> st \<in> {Working j, Effected j, Rejected j} \<Longrightarrow>
     harness_step u cfg s (Process w) (beat_job now w j s)"
| spawns: "hn_procs s w = None \<Longrightarrow> harness_step u cfg s Orchestrator (spawn w s)"
| kills: "harness_step u cfg s Orchestrator (kill now w sha s)"
| freezes: "harness_step u cfg s Orchestrator (freeze now w sha s)"
| reconciles: "harness_step u cfg s Orchestrator (reconcile_once cfg now locked s)"

section \<open>The report\<close>

definition count_status :: "job_status \<Rightarrow> harness \<Rightarrow> nat" where
  "count_status st s = length (filter (\<lambda>j. j_status j = st \<and> harness_sha (j_commit_sha j)) (jobs (hn_db s)))"

text \<open>The counts that \<open>drain\<close> polls until its deadline.\<close>

fun drain :: "nat \<Rightarrow> nat list \<Rightarrow> bool" where
  "drain n [] = False"
| "drain n (c # cs) = (if n \<le> c then True else drain n cs)"

definition effected_twice :: "harness \<Rightarrow> pystr list" where
  "effected_twice s = filter (\<lambda>sha. 1 < count_list (map mk_sha (hn_effects s)) sha) (remdups (map mk_sha (hn_effects s)))"

definition recorded :: "harness \<Rightarrow> nat" where
  "recorded s = length (filter (\<lambda>r. harness_sha (rr_commit_sha r)) (review_records (hn_db s)))"

text \<open>Workers outside the harness: in its claims, or owning one of its jobs.\<close>

definition foreign_workers :: "harness \<Rightarrow> pystr list" where
  "foreign_workers s = filter (\<lambda>w. \<not> starts (lit ''chaos-'') w) (remdups (map mk_worker (hn_claims s)
     @ List.map_filter (\<lambda>j. if harness_sha (j_commit_sha j) then j_worker_id j else None) (jobs (hn_db s))))"

text \<open>The seconds from a fault to the next row of its commit, in microseconds here.\<close>

definition latencies :: "fault list \<Rightarrow> (pystr \<times> int) list \<Rightarrow> int list" where
  "latencies faults rows = sort (List.map_filter (\<lambda>k.
     (case filter (\<lambda>(sha, t). sha = ft_sha k \<and> ft_at k < t) rows of
        [] \<Rightarrow> None | later \<Rightarrow> Some (Min (snd ` set later) - ft_at k))) faults)"

definition passed :: "nat \<Rightarrow> bool \<Rightarrow> harness \<Rightarrow> bool" where
  "passed n drained s \<longleftrightarrow> drained \<and> int n - int (count_status Success s) = 0 \<and> recorded s = n \<and> foreign_workers s = []"

definition exit_code :: "nat \<Rightarrow> bool \<Rightarrow> harness \<Rightarrow> int" where
  "exit_code n drained s = (if passed n drained s then 0 else 1)"

section \<open>The invariant\<close>

text \<open>Some worker was given this commit with this token, as the database shows.\<close>

definition claimed_once :: "db \<Rightarrow> pystr \<Rightarrow> int \<Rightarrow> bool" where
  "claimed_once d sha f \<longleftrightarrow> (\<exists>r \<in> set (jobs d). j_commit_sha r = sha
     \<and> (f < j_fence_token r \<or> f = j_fence_token r \<and> j_status r \<noteq> Pending))"

definition superseded :: "db \<Rightarrow> pystr \<Rightarrow> int \<Rightarrow> bool" where
  "superseded d sha f \<longleftrightarrow> (\<exists>r \<in> set (jobs d). j_commit_sha r = sha \<and> f < j_fence_token r)"

definition follows :: "db \<Rightarrow> job \<Rightarrow> bool" where
  "follows d j \<longleftrightarrow> (\<exists>r \<in> set (jobs d). evolves j r)"

fun job_in :: "stage \<Rightarrow> job option" where
  "job_in Idle = None"
| "job_in (Taken j) = Some j"
| "job_in (Working j) = Some j"
| "job_in (Effected j) = Some j"
| "job_in (Rejected j) = Some j"

definition key :: "job \<Rightarrow> pystr \<times> int" where
  "key j = (j_commit_sha j, j_fence_token j)"

definition mark_keys :: "mark list \<Rightarrow> (pystr \<times> int) list" where
  "mark_keys ms = map (\<lambda>m. (mk_sha m, mk_fence m)) ms"

lemma mark_keys_snoc [simp]: "mark_keys (ms @ [mark_of w now j]) = mark_keys ms @ [key j]"
  by (simp add: mark_keys_def mark_of_def key_def)

text \<open>What holds of a stage, given the database and the effects so far.\<close>

definition stage_ok :: "db \<Rightarrow> (pystr \<times> int) set \<Rightarrow> stage \<Rightarrow> bool" where
  "stage_ok d eff st \<longleftrightarrow> (case st of
     Idle \<Rightarrow> True
   | Taken j \<Rightarrow> j_status j = Processing \<and> follows d j \<and> key j \<notin> eff
   | Working j \<Rightarrow> j_status j = Processing \<and> follows d j \<and> key j \<notin> eff
   | Effected j \<Rightarrow> j_status j = Processing \<and> follows d j \<and> key j \<in> eff
   | Rejected j \<Rightarrow> j_status j = Processing \<and> follows d j \<and> key j \<in> eff \<and> superseded d (j_commit_sha j) (j_fence_token j))"

definition successes_shown :: "db \<Rightarrow> (pystr \<times> int) set \<Rightarrow> bool" where
  "successes_shown d eff \<longleftrightarrow> (\<forall>r \<in> set (jobs d). j_status r = Success \<longrightarrow> harness_sha (j_commit_sha r) \<longrightarrow> key r \<in> eff)"

definition marks_ok :: "db \<Rightarrow> mark list \<Rightarrow> mark list \<Rightarrow> bool" where
  "marks_ok d effects rejections \<longleftrightarrow> distinct (mark_keys effects)
     \<and> (\<forall>(sha, f) \<in> set (mark_keys effects). claimed_once d sha f)
     \<and> (\<forall>(sha, f) \<in> set (mark_keys rejections). superseded d sha f)"

definition procs_ok :: "db \<Rightarrow> (pystr \<times> int) set \<Rightarrow> (pystr \<Rightarrow> stage option) \<Rightarrow> bool" where
  "procs_ok d eff ps \<longleftrightarrow> (\<forall>w st. ps w = Some st \<longrightarrow> stage_ok d eff st)
     \<and> (\<forall>w w' st st' j j'. w \<noteq> w' \<longrightarrow> ps w = Some st \<longrightarrow> ps w' = Some st' \<longrightarrow> job_in st = Some j \<longrightarrow>
          job_in st' = Some j' \<longrightarrow> key j \<noteq> key j')"

definition harness_shas :: "db \<Rightarrow> pystr list" where
  "harness_shas d = filter harness_sha (map j_commit_sha (jobs d))"

definition harness_ok :: "nat \<Rightarrow> harness \<Rightarrow> bool" where
  "harness_ok n s \<longleftrightarrow> db_ok (hn_db s) \<and> length (harness_shas (hn_db s)) \<le> n
     \<and> successes_shown (hn_db s) (set (mark_keys (hn_effects s)))
     \<and> marks_ok (hn_db s) (hn_effects s) (hn_rejections s)
     \<and> procs_ok (hn_db s) (set (mark_keys (hn_effects s))) (hn_procs s)"

subsection \<open>The database advances\<close>

lemma claimed_once_mono: "db_evolves d d' \<Longrightarrow> claimed_once d sha f \<Longrightarrow> claimed_once d' sha f"
  unfolding claimed_once_def db_evolves_def evolves_def by (smt (verit))

lemma superseded_mono: "db_evolves d d' \<Longrightarrow> superseded d sha f \<Longrightarrow> superseded d' sha f"
  unfolding superseded_def db_evolves_def evolves_def by (smt (verit))

lemma follows_mono: "db_evolves d d' \<Longrightarrow> follows d j \<Longrightarrow> follows d' j"
  unfolding follows_def db_evolves_def by (meson evolves_trans)

lemma follows_claimed: "follows d j \<Longrightarrow> j_status j = Processing \<Longrightarrow> claimed_once d (j_commit_sha j) (j_fence_token j)"
  unfolding follows_def claimed_once_def evolves_def by fastforce

lemma stage_ok_mono: "db_evolves d d' \<Longrightarrow> stage_ok d eff st \<Longrightarrow> stage_ok d' eff st"
  by (auto simp: stage_ok_def follows_mono superseded_mono split: stage.splits)

lemma procs_ok_mono: "db_evolves d d' \<Longrightarrow> procs_ok d eff ps \<Longrightarrow> procs_ok d' eff ps"
  by (auto simp: procs_ok_def intro: stage_ok_mono)

lemma marks_ok_mono: "db_evolves d d' \<Longrightarrow> marks_ok d es rs \<Longrightarrow> marks_ok d' es rs"
  by (auto simp: marks_ok_def intro: claimed_once_mono superseded_mono)

text \<open>A transaction that neither adds a job nor makes one a success keeps the invariant.\<close>

lemma harness_ok_db:
  assumes "harness_ok n s" "db_ok d'" "db_evolves (hn_db s) d'"
    and "map j_commit_sha (jobs d') = map j_commit_sha (jobs (hn_db s))"
    and "\<And>r. r \<in> set (jobs d') \<Longrightarrow> j_status r = Success \<Longrightarrow> r \<in> set (jobs (hn_db s))"
  shows "harness_ok n (s\<lparr>hn_db := d'\<rparr>)"
  using assms marks_ok_mono [OF assms(3)] procs_ok_mono [OF assms(3)]
  by (auto simp: harness_ok_def harness_shas_def successes_shown_def)

text \<open>A stage may be replaced by one of the same job, or of none.\<close>

lemma procs_ok_go:
  assumes "procs_ok d eff ps" "ps w = Some st0" "stage_ok d eff st" "job_in st = None \<or> job_in st = job_in st0"
  shows "procs_ok d eff (ps(w \<mapsto> st))"
  using assms unfolding procs_ok_def fun_upd_apply by (smt (verit) option.inject option.simps(3))

lemma procs_ok_remove: "procs_ok d eff ps \<Longrightarrow> procs_ok d eff (ps(w := None))"
  unfolding procs_ok_def fun_upd_apply by (metis option.distinct(1))

lemma procs_ok_idle:
  assumes "procs_ok d eff ps" shows "procs_ok d eff (ps(w \<mapsto> Idle))"
  using assms unfolding procs_ok_def fun_upd_apply
  by (auto simp: stage_ok_def split: if_splits)

text \<open>An effect of the worker's own job leaves the stages of the others alone.\<close>

lemma procs_ok_effect:
  assumes "procs_ok d eff ps" "ps w = Some (Working j)"
  shows "procs_ok d (insert (key j) eff) (ps(w \<mapsto> Effected j))"
proof -
  have "stage_ok d (insert (key j) eff) st" if "ps v = Some st" "v \<noteq> w" for v st
  proof -
    have "key i \<noteq> key j" if "job_in st = Some i" for i
      using assms \<open>ps v = Some st\<close> \<open>v \<noteq> w\<close> that by (fastforce simp: procs_ok_def)
    moreover have "stage_ok d eff st" using assms(1) that(1) by (simp add: procs_ok_def)
    ultimately show ?thesis by (auto simp: stage_ok_def split: stage.splits)
  qed
  moreover have "stage_ok d (insert (key j) eff) (Effected j)"
    using assms by (fastforce simp: procs_ok_def stage_ok_def)
  moreover have "job_in (Effected j) = job_in (Working j)" by simp
  ultimately show ?thesis
    using assms unfolding procs_ok_def fun_upd_apply by (smt (verit) option.inject)
qed

subsection \<open>Every step keeps it\<close>

lemma claim_fresh:
  assumes "db_ok d" "claim_job now w locked d = (Some j, d')"
  shows "\<not> claimed_once d (j_commit_sha j) (j_fence_token j)" "j \<in> set (jobs d')" "j_status j = Processing"
proof -
  have "queue_step u default_settings d (Claimed w (Some j)) d'" for u using assms(2) by (rule queue_step.claims)
  then obtain r where r: "r \<in> set (jobs d)" "j_status r = Pending" "\<exists>now. j = claimed now w r" "j \<in> set (jobs d')"
    using claim_step_row [OF assms(1)] by metis
  then show "j \<in> set (jobs d')" "j_status j = Processing" by auto
  have same: "j_commit_sha j = j_commit_sha r" "j_fence_token j = j_fence_token r" using r(3) by auto
  show "\<not> claimed_once d (j_commit_sha j) (j_fence_token j)"
    using same_job_sha [OF assms(1) r(1)] r(2) unfolding claimed_once_def same by fastforce
qed

lemma claim_rows:
  assumes "claim_job now w locked d = (row, d')"
  shows "map j_commit_sha (jobs d') = map j_commit_sha (jobs d)"
    and "r \<in> set (jobs d') \<Longrightarrow> j_status r = Success \<Longrightarrow> r \<in> set (jobs d)"
  using assms
  by (auto simp: claim_job_def map_sql_update set_sql_update split: option.splits if_splits)

lemma take_job_ok:
  assumes ok: "harness_ok n s" and idle: "hn_procs s w = Some Idle"
  shows "harness_ok n (take_job now w locked s)"
proof -
  obtain row d' where claim: "claim_job now w locked (hn_db s) = (row, d')" by fastforce
  have db: "db_ok (hn_db s)" using ok by (simp add: harness_ok_def)
  have step: "queue_step u default_settings (hn_db s) (Claimed w row) d'" for u using claim by (rule queue_step.claims)
  have adv: "harness_ok n (s\<lparr>hn_db := d'\<rparr>)"
    by (rule harness_ok_db [OF ok queue_step_ok [OF step db] step_evolves [OF db step] claim_rows [OF claim]])
  show ?thesis
  proof (cases row)
    case None
    with adv claim show ?thesis by (simp add: take_job_def)
  next
    case (Some j)
    note fresh = claim_fresh [OF db claim [unfolded Some]]
    have "key j \<notin> set (mark_keys (hn_effects s))"
      using fresh(1) ok by (auto simp: harness_ok_def marks_ok_def key_def)
    moreover have "follows d' j" using fresh(2) evolves_refl by (auto simp: follows_def)
    ultimately have stage: "stage_ok d' (set (mark_keys (hn_effects s))) (Taken j)"
      using fresh(3) by (simp add: stage_ok_def)
    have others: "key j \<noteq> key i" if "hn_procs s v = Some st" "job_in st = Some i" for v st i
    proof -
      have "stage_ok (hn_db s) (set (mark_keys (hn_effects s))) st" using ok that(1) by (simp add: harness_ok_def procs_ok_def)
      with that(2) have "claimed_once (hn_db s) (j_commit_sha i) (j_fence_token i)"
        by (cases st) (auto simp: stage_ok_def intro: follows_claimed)
      with fresh(1) show ?thesis by (auto simp: key_def)
    qed
    have "procs_ok d' (set (mark_keys (hn_effects s))) ((hn_procs s)(w \<mapsto> Taken j))"
      using adv stage others unfolding harness_ok_def procs_ok_def fun_upd_apply
      by simp (smt (verit) job_in.simps(2) option.inject)
    with adv claim Some show ?thesis by (simp add: take_job_def go_def harness_ok_def)
  qed
qed

lemma commit_job_ok:
  assumes ok: "harness_ok n s" and stage: "hn_procs s w = Some (Effected j)"
  shows "harness_ok n (commit_job u cfg now w j s)"
proof -
  let ?fb = "Some [(lit ''ok'', PBool True)]"
  have db: "db_ok (hn_db s)" and procs: "procs_ok (hn_db s) (set (mark_keys (hn_effects s))) (hn_procs s)"
    using ok by (simp_all add: harness_ok_def)
  have held: "stage_ok (hn_db s) (set (mark_keys (hn_effects s))) (Effected j)"
    using procs stage by (simp add: procs_ok_def)
  then obtain r where r: "r \<in> set (jobs (hn_db s))" "evolves j r" by (auto simp: stage_ok_def follows_def)
  show ?thesis
  proof (cases "finalize_job u cfg now (j_id j) (j_fence_token j) Success ?fb (hn_db s)")
    case (Inl e)
    then have "\<forall>k \<in> set (jobs (hn_db s)). j_id k = j_id j \<longrightarrow> j_fence_token k \<noteq> j_fence_token j"
      using finalize_raises_iff by blast
    with r have "superseded (hn_db s) (j_commit_sha j) (j_fence_token j)"
      unfolding superseded_def evolves_def by (metis order_le_less)
    with held have "stage_ok (hn_db s) (set (mark_keys (hn_effects s))) (Rejected j)" by (simp add: stage_ok_def)
    from procs_ok_go [OF procs stage this] have
      "procs_ok (hn_db s) (set (mark_keys (hn_effects s))) ((hn_procs s)(w \<mapsto> Rejected j))" by simp
    with ok Inl show ?thesis by (simp add: commit_job_def go_def harness_ok_def)
  next
    case (Inr d')
    have step: "queue_step u cfg (hn_db s) (Finalized (j_id j) (j_fence_token j) Success True) d'"
      using Inr by (intro queue_step.finalizes) auto
    have d': "jobs d' = sql_update (holds_fence (j_id j) (j_fence_token j)) (finished now Success ?fb) (jobs (hn_db s))"
      using Inr by (auto elim!: finalize_finds)
    have evo: "db_evolves (hn_db s) d'" by (rule step_evolves [OF db step])
    have shas: "map j_commit_sha (jobs d') = map j_commit_sha (jobs (hn_db s))" unfolding d' by (simp add: map_sql_update)
    have "key k \<in> set (mark_keys (hn_effects s))"
      if "k \<in> set (jobs d')" "j_status k = Success" "harness_sha (j_commit_sha k)" for k
    proof -
      from that(1) obtain k0 where k0: "k0 \<in> set (jobs (hn_db s))"
        "k = (if holds_fence (j_id j) (j_fence_token j) k0 then finished now Success ?fb k0 else k0)"
        unfolding d' by (auto simp: set_sql_update)
      show ?thesis
      proof (cases "holds_fence (j_id j) (j_fence_token j) k0")
        case True
        then have "k0 = r" using same_job [OF db k0(1) r(1)] r(2) by (auto simp: holds_fence_def evolves_def)
        with True k0(2) r(2) have "key k = key j" by (auto simp: key_def holds_fence_def evolves_def finished_def)
        with held show ?thesis by (simp add: stage_ok_def)
      next
        case False
        with k0 that(2,3) ok show ?thesis by (auto simp: harness_ok_def successes_shown_def)
      qed
    qed
    then have "successes_shown d' (set (mark_keys (hn_effects s)))" by (simp add: successes_shown_def)
    moreover have "procs_ok d' (set (mark_keys (hn_effects s))) ((hn_procs s)(w \<mapsto> Idle))"
      by (rule procs_ok_idle [OF procs_ok_mono [OF evo procs]])
    moreover have "marks_ok d' (hn_effects s) (hn_rejections s)"
      using marks_ok_mono [OF evo] ok by (simp add: harness_ok_def)
    ultimately show ?thesis
      using ok queue_step_ok [OF step db] Inr shas by (simp add: commit_job_def go_def harness_ok_def harness_shas_def)
  qed
qed

lemma note_claim_ok:
  assumes "harness_ok n s" "hn_procs s w = Some (Taken j)"
  shows "harness_ok n (note_claim now w j s)"
proof -
  have procs: "procs_ok (hn_db s) (set (mark_keys (hn_effects s))) (hn_procs s)" using assms(1) by (simp add: harness_ok_def)
  then have "stage_ok (hn_db s) (set (mark_keys (hn_effects s))) (Taken j)" using assms(2) by (simp add: procs_ok_def)
  then have "stage_ok (hn_db s) (set (mark_keys (hn_effects s))) (Working j)" by (simp add: stage_ok_def)
  from procs_ok_go [OF procs assms(2) this] assms(1) show ?thesis
    by (simp add: note_claim_def go_def harness_ok_def)
qed

lemma take_effect_ok:
  assumes "harness_ok n s" "hn_procs s w = Some (Working j)"
  shows "harness_ok n (take_effect now w j s)"
proof -
  have procs: "procs_ok (hn_db s) (set (mark_keys (hn_effects s))) (hn_procs s)" using assms(1) by (simp add: harness_ok_def)
  then have st: "stage_ok (hn_db s) (set (mark_keys (hn_effects s))) (Working j)" using assms(2) by (simp add: procs_ok_def)
  then have "claimed_once (hn_db s) (j_commit_sha j) (j_fence_token j)" "key j \<notin> set (mark_keys (hn_effects s))"
    by (auto simp: stage_ok_def follows_claimed)
  with assms(1) have "marks_ok (hn_db s) (hn_effects s @ [mark_of w now j]) (hn_rejections s)"
    by (auto simp: harness_ok_def marks_ok_def key_def)
  with procs_ok_effect [OF procs assms(2)] assms(1) show ?thesis
    by (auto simp: take_effect_def go_def harness_ok_def successes_shown_def)
qed

lemma note_rejection_ok:
  assumes "harness_ok n s" "hn_procs s w = Some (Rejected j)"
  shows "harness_ok n (note_rejection now w j s)"
proof -
  have procs: "procs_ok (hn_db s) (set (mark_keys (hn_effects s))) (hn_procs s)" using assms(1) by (simp add: harness_ok_def)
  then have "superseded (hn_db s) (j_commit_sha j) (j_fence_token j)" using assms(2) by (fastforce simp: procs_ok_def stage_ok_def)
  with assms(1) have "marks_ok (hn_db s) (hn_effects s) (hn_rejections s @ [mark_of w now j])"
    by (auto simp: harness_ok_def marks_ok_def key_def)
  with procs_ok_idle [OF procs] assms(1) show ?thesis by (simp add: note_rejection_def go_def harness_ok_def)
qed

lemma beat_job_ok:
  assumes "harness_ok n s" shows "harness_ok n (beat_job now w j s)"
proof -
  let ?d = "snd (update_heartbeat now (j_id j) w (hn_db s))"
  have db: "db_ok (hn_db s)" using assms by (simp add: harness_ok_def)
  have step: "queue_step u default_settings (hn_db s) (Beat (j_id j) w (fst (update_heartbeat now (j_id j) w (hn_db s)))) ?d" for u
    by (rule queue_step.beats) simp
  have "jobs ?d = jobs (hn_db s)" by (auto simp: update_heartbeat_def split: list.split)
  then show ?thesis
    using harness_ok_db [OF assms queue_step_ok [OF step db] step_evolves [OF db step]] by (simp add: beat_job_def)
qed

lemma reconcile_once_ok:
  assumes "harness_ok n s" shows "harness_ok n (reconcile_once cfg now locked s)"
proof -
  obtain rows d' where rec: "reconcile_stale_jobs cfg now locked (hn_db s) = (rows, d')" by fastforce
  have db: "db_ok (hn_db s)" using assms by (simp add: harness_ok_def)
  have step: "queue_step u cfg (hn_db s) (Reconciled rows) d'" for u using rec by (rule queue_step.reconciles)
  have jobs': "jobs d' = sql_update (timed_out now) expire
      (sql_update (reclaimable cfg now locked (hn_db s)) (reclaimed cfg now) (jobs (hn_db s)))"
    using rec by (auto simp: reconcile_stale_jobs_def Let_def)
  have "map j_commit_sha (jobs d') = map j_commit_sha (jobs (hn_db s))"
    unfolding jobs' by (simp add: map_sql_update)
  moreover have "r \<in> set (jobs (hn_db s))" if "r \<in> set (jobs d')" "j_status r = Success" for r
    using that unfolding jobs'
    by (auto simp: set_sql_update expire_def reclaimed_def split: if_splits)
  ultimately have "harness_ok n (s\<lparr>hn_db := d'\<rparr>)"
    using harness_ok_db [OF assms queue_step_ok [OF step db] step_evolves [OF db step]] by blast
  with rec show ?thesis by (simp add: reconcile_once_def harness_ok_def Let_def)
qed

lemma harness_step_ok: "harness_step u cfg s e s' \<Longrightarrow> harness_ok n s \<Longrightarrow> harness_ok n s'"
proof (induction rule: harness_step.induct)
  case (spawns s w)
  then show ?case using procs_ok_idle by (simp add: spawn_def go_def harness_ok_def)
next
  case (kills s now w sha)
  then show ?case using procs_ok_remove by (simp add: kill_def harness_ok_def)
next
  case (freezes s now w sha)
  then show ?case by (simp add: freeze_def harness_ok_def)
qed (simp_all add: take_job_ok note_claim_ok take_effect_ok commit_job_ok note_rejection_ok beat_job_ok reconcile_once_ok)

subsection \<open>The start of a run\<close>

lemma setup_has_no_harness_job: "j \<in> set (jobs (setup_db d)) \<Longrightarrow> \<not> harness_sha (j_commit_sha j)"
  by (simp add: setup_db_def)

lemma enqueue_jobs_rows:
  assumes "j \<in> set (jobs (enqueue_jobs now ids run_id n (setup_db d)))"
  shows "j \<in> set (jobs (setup_db d)) \<or> j_id j \<in> ids ` {..<n} \<and> j_status j = Pending \<and> j_attempt_count j = 0
    \<and> j_fence_token j = 0 \<and> j_worker_id j = None"
  using assms
proof (induction n)
  case (Suc n)
  then show ?case by (auto simp: enqueue_if_new_def new_job_def split: if_splits)
qed simp

lemma enqueue_jobs_shas:
  "length (harness_shas (enqueue_jobs now ids run_id n (setup_db d))) \<le> n"
proof (induction n)
  case 0
  show ?case by (simp add: harness_shas_def setup_has_no_harness_job filter_empty_conv)
next
  case (Suc n)
  then show ?case by (simp add: enqueue_if_new_def harness_shas_def)
qed

lemma enqueue_jobs_ok:
  assumes "db_ok (setup_db d)" "inj_on ids {..<n}" "ids ` {..<n} \<inter> j_id ` set (jobs (setup_db d)) = {}"
  shows "db_ok (enqueue_jobs now ids run_id n (setup_db d))"
  using assms(2,3)
proof (induction n)
  case (Suc n)
  let ?d = "enqueue_jobs now ids run_id n (setup_db d)"
  have "inj_on ids {..<n}" "ids ` {..<n} \<inter> j_id ` set (jobs (setup_db d)) = {}"
    using Suc.prems by (auto simp: lessThan_Suc)
  then have ok: "db_ok ?d" by (rule Suc.IH)
  have fresh: "ids n \<notin> j_id ` set (jobs ?d)"
  proof
    assume "ids n \<in> j_id ` set (jobs ?d)"
    then obtain j where j: "j \<in> set (jobs ?d)" "j_id j = ids n" by force
    have "j_id j \<notin> ids ` {..<n}" using Suc.prems(1) j(2) by (auto simp: lessThan_Suc)
    with enqueue_jobs_rows [OF j(1)] have "ids n \<in> j_id ` set (jobs (setup_db d))" using j(2) by force
    with Suc.prems(2) show False by (auto simp: lessThan_Suc)
  qed
  obtain yes d' where enq: "enqueue_if_new now (ids n) (harness_job_sha run_id n) (lit ''chaos/repo'') (int n) 1 None ?d = (yes, d')"
    by fastforce
  have "queue_step u default_settings ?d (Enqueued (harness_job_sha run_id n) yes) d'" for u
    by (rule queue_step.enqueues [OF fresh enq])
  from queue_step_ok [OF this ok] enq show ?case by simp
qed (use assms(1) in simp)

lemma raise_max_attempts_ok:
  assumes "db_ok d" "0 \<le> m"
    and "\<And>j. j \<in> set (jobs d) \<Longrightarrow> harness_sha (j_commit_sha j) \<Longrightarrow>
      j_status j = Pending \<and> j_attempt_count j = 0 \<and> j_fence_token j = 0 \<and> j_worker_id j = None"
  shows "db_ok (raise_max_attempts m d)"
proof (rule db_okI)
  define g :: "job \<Rightarrow> job" where "g = (\<lambda>j. if harness_sha (j_commit_sha j) then j\<lparr>j_max_attempts := m\<rparr> else j)"
  have rows: "set (jobs (raise_max_attempts m d)) = g ` set (jobs d)"
    by (simp add: raise_max_attempts_def set_sql_update g_def)
  have g [simp]: "j_id (g j) = j_id j" "j_commit_sha (g j) = j_commit_sha j" "j_status (g j) = j_status j"
    "j_worker_id (g j) = j_worker_id j" "j_result (g j) = j_result j" for j by (simp_all add: g_def)
  show "keys_ok (raise_max_attempts m d)"
    using assms(1) by (simp add: db_ok_def keys_ok_def raise_max_attempts_def map_sql_update)
  show "job_ok j" if "j \<in> set (jobs (raise_max_attempts m d))" for j
    using that assms unfolding rows by (auto simp: db_ok_def job_ok_def g_def)
  have same: "review_records (raise_max_attempts m d) = review_records d"
    "worker_heartbeats (raise_max_attempts m d) = worker_heartbeats d" by (simp_all add: raise_max_attempts_def)
  have "beats_ok d" "reviews_ok d" using assms(1) by (simp_all add: db_ok_def)
  then show "beats_ok (raise_max_attempts m d)" "reviews_ok (raise_max_attempts m d)"
    by (simp_all add: beats_ok_def reviews_ok_def rows same final_def result_or_empty_def)
qed

text \<open>A run starts on a database whose rows that stay are consistent, with fresh job ids.\<close>

definition harness_start :: "nat \<Rightarrow> harness \<Rightarrow> bool" where
  "harness_start n s \<longleftrightarrow> (\<exists>now ids run_id m d. s = prepared now ids run_id n m d \<and> db_ok (setup_db d) \<and> 0 \<le> m
     \<and> inj_on ids {..<n} \<and> ids ` {..<n} \<inter> j_id ` set (jobs (setup_db d)) = {})"

lemma harness_start_ok:
  assumes "harness_start n s" shows "harness_ok n s"
proof -
  obtain now ids run_id m d where s: "s = prepared now ids run_id n m d" "db_ok (setup_db d)" "0 \<le> m"
    "inj_on ids {..<n}" "ids ` {..<n} \<inter> j_id ` set (jobs (setup_db d)) = {}"
    using assms unfolding harness_start_def by blast
  let ?d = "enqueue_jobs now ids run_id n (setup_db d)"
  have pending: "j_status j = Pending \<and> j_attempt_count j = 0 \<and> j_fence_token j = 0 \<and> j_worker_id j = None"
    if "j \<in> set (jobs ?d)" "harness_sha (j_commit_sha j)" for j
    using enqueue_jobs_rows [OF that(1)] that(2) setup_has_no_harness_job by blast
  have "db_ok (raise_max_attempts m ?d)"
    by (rule raise_max_attempts_ok [OF enqueue_jobs_ok [OF s(2,4,5)] s(3) pending])
  moreover have "harness_shas (raise_max_attempts m ?d) = harness_shas ?d"
    by (simp add: harness_shas_def raise_max_attempts_def map_sql_update)
  moreover have "successes_shown (raise_max_attempts m ?d) {}"
    using pending by (auto simp: successes_shown_def raise_max_attempts_def set_sql_update)
  ultimately show ?thesis
    using enqueue_jobs_shas by (simp add: harness_ok_def s(1) prepared_def marks_ok_def procs_ok_def mark_keys_def)
qed

interpretation chaos: safe_system "harness_start n" "harness_step u cfg" "harness_ok n" for n u cfg
  by unfold_locales (auto intro: harness_start_ok harness_step_ok)

section \<open>What a run shows\<close>

text \<open>
  C28. Whatever is killed, frozen or delayed, and whenever: every harness job that is a success took
  effect outside before, under exactly the token it was committed with; no claim takes effect twice,
  so a job takes effect at most once for each token it had; and every rejection the harness
  counts is one of a token that the queue has superseded.
\<close>

theorem effects_around_commits:
  assumes "reachable (harness_start n) (harness_step u cfg) s"
  shows "list_all (\<lambda>j. (j_status j = Success \<and> harness_sha (j_commit_sha j)) \<longrightarrow>
      list_ex (\<lambda>m. mk_sha m = j_commit_sha j \<and> mk_fence m = j_fence_token j) (hn_effects s)) (jobs (hn_db s))
    \<and> distinct (map (\<lambda>m. (mk_sha m, mk_fence m)) (hn_effects s))
    \<and> list_all (\<lambda>m. list_ex (\<lambda>j. j_commit_sha j = mk_sha m \<and> mk_fence m \<le> j_fence_token j) (jobs (hn_db s))) (hn_effects s)
    \<and> list_all (\<lambda>m. list_ex (\<lambda>j. j_commit_sha j = mk_sha m \<and> mk_fence m < j_fence_token j) (jobs (hn_db s))) (hn_rejections s)"
  using chaos.inv_reachable [OF assms]
  by (auto simp: harness_ok_def successes_shown_def marks_ok_def claimed_once_def superseded_def mark_keys_def key_def
    list_all_iff list_ex_iff) fastforce+

lemma passed_counts:
  assumes "harness_ok n s" "count_status Success s = n"
  shows "\<forall>j \<in> set (jobs (hn_db s)). harness_sha (j_commit_sha j) \<longrightarrow> j_status j = Success"
proof (intro ballI impI, rule ccontr)
  fix j assume j: "j \<in> set (jobs (hn_db s))" "harness_sha (j_commit_sha j)" "j_status j \<noteq> Success"
  let ?h = "filter (\<lambda>j. harness_sha (j_commit_sha j)) (jobs (hn_db s))"
  have "filter (\<lambda>j. j_status j = Success \<and> harness_sha (j_commit_sha j)) (jobs (hn_db s)) = filter (\<lambda>j. j_status j = Success) ?h"
    by (simp add: conj_commute)
  moreover have "j \<in> set ?h" using j by simp
  then have "length (filter (\<lambda>j. j_status j = Success) ?h) < length ?h" using j(3) by (rule length_filter_less)
  moreover have "length ?h = length (harness_shas (hn_db s))"
    by (simp add: harness_shas_def filter_map comp_def)
  ultimately show False using assms by (simp add: harness_ok_def count_status_def)
qed

lemma filter_one: "distinct (map f xs) \<Longrightarrow> x \<in> set xs \<Longrightarrow> filter (\<lambda>y. f y = f x) xs = [x]"
  by (induction xs) (auto simp: filter_empty_conv image_iff)


section \<open>Tuning flags\<close>

text \<open>
  \<open>_bootstrap_env\<close>: a flag is looked for as an element of \<open>argv\<close>, before the arguments are parsed,
  and a variable that is set already wins.
\<close>

definition flag :: "pystr list \<Rightarrow> pystr \<Rightarrow> pystr \<Rightarrow> pystr outcome" where
  "flag argv name def_value = (case dropWhile (\<lambda>a. a \<noteq> name) argv of
     [] \<Rightarrow> Inr def_value
   | [_] \<Rightarrow> raise_exn IndexError (lit ''list index out of range'')
   | _ # v # _ \<Rightarrow> Inr v)"

definition setdefault :: "pystr \<Rightarrow> pystr \<Rightarrow> (pystr \<Rightarrow> pystr option) \<Rightarrow> (pystr \<Rightarrow> pystr option)" where
  "setdefault name v env = (if env name = None then env(name \<mapsto> v) else env)"

definition bootstrap_env :: "pystr list \<Rightarrow> (pystr \<Rightarrow> pystr option) \<Rightarrow> (pystr \<Rightarrow> pystr option) outcome" where
  "bootstrap_env argv env =
     bind (flag argv (lit ''--heartbeat-interval'') (lit ''1'')) (\<lambda>heartbeat.
     bind (flag argv (lit ''--stale-threshold'') (lit ''3'')) (\<lambda>stale.
     bind (flag argv (lit ''--reconcile-interval'') (lit ''1'')) (\<lambda>interval.
     bind (flag argv (lit ''--retry-backoff'') (lit ''0'')) (\<lambda>backoff.
     Inr (setdefault (lit ''WORKER_CONCURRENCY'') (lit ''1'')
         (setdefault (lit ''DB_POOL_MIN_SIZE'') (lit ''2'')
         (setdefault (lit ''WORKER_RETRY_BACKOFF_SECONDS'') backoff
         (setdefault (lit ''WORKER_RECONCILE_INTERVAL_SECONDS'') interval
         (setdefault (lit ''WORKER_HEARTBEAT_STALE_SECONDS'') stale
         (setdefault (lit ''WORKER_HEARTBEAT_INTERVAL_SECONDS'') heartbeat env))))))))))"

text \<open>
  A flag written with an equals sign is accepted by the argument parser and has no effect.
\<close>

lemma equals_flag_ignored:
  "bootstrap_env [lit ''chaos_sigkill.py'', lit ''--stale-threshold=9''] (\<lambda>_. None)
   = bootstrap_env [lit ''chaos_sigkill.py''] (\<lambda>_. None)"
  by (simp add: bootstrap_env_def flag_def lit_def)

section \<open>Demonstrations\<close>

definition demo_start :: harness where
  "demo_start = prepared 0 (\<lambda>i. 7) 5 1 10000 upgrade"

definition demo_chaos_job :: job where
  "demo_chaos_job = claimed 10 (lit ''chaos-1'')
     ((new_job 0 7 (harness_job_sha 5 0) (lit ''chaos/repo'') 0 1 None)\<lparr>j_max_attempts := 10000\<rparr>)"

definition demo_working :: harness where
  "demo_working = note_claim 11 (lit ''chaos-1'') demo_chaos_job
     (take_job 10 (lit ''chaos-1'') nobody (spawn (lit ''chaos-1'') demo_start))"

definition demo_end :: harness where
  "demo_end = commit_job demo_uuid default_settings 13 (lit ''chaos-1'') demo_chaos_job
     (take_effect 12 (lit ''chaos-1'') demo_chaos_job demo_working)"

lemma demo_harness_sha: "harness_sha (harness_job_sha 5 0)"
  by (simp add: harness_sha_def harness_job_sha_def sha_prefix_def starts_def lit_def)

lemma demo_start_db: "hn_db demo_start = upgrade\<lparr>jobs :=
    [(new_job 0 7 (harness_job_sha 5 0) (lit ''chaos/repo'') 0 1 None)\<lparr>j_max_attempts := 10000\<rparr>]\<rparr>"
  using demo_harness_sha
  by (simp add: demo_start_def prepared_def setup_db_def upgrade_def sql_delete_def enqueue_if_new_def
    raise_max_attempts_def sql_update_def new_job_def)

lemma demo_take: "take_job 10 (lit ''chaos-1'') nobody (spawn (lit ''chaos-1'') demo_start)
   = demo_start\<lparr>hn_db := upgrade\<lparr>jobs := [demo_chaos_job],
       worker_heartbeats := [\<lparr>hb_job_id = 7, hb_worker_id = lit ''chaos-1'', hb_heartbeat_at = 10\<rparr>]\<rparr>,
     hn_procs := [lit ''chaos-1'' \<mapsto> Taken demo_chaos_job]\<rparr>"
  using demo_start_db
  by (simp add: take_job_def spawn_def go_def claim_job_def next_claim_def claimable_def new_job_def upgrade_def
    py_sorted_def sql_update_def upsert_heartbeat_def demo_chaos_job_def demo_start_def prepared_def claimed_def)

lemma demo_harness_start: "harness_start 1 demo_start"
proof -
  have "db_ok (setup_db upgrade)" by (simp add: setup_db_def upgrade_def sql_delete_def db_ok_def keys_ok_def beats_ok_def reviews_ok_def)
  then show ?thesis
    unfolding harness_start_def demo_start_def
    by (intro exI [of _ 0] exI [of _ "\<lambda>i. 7"] exI [of _ 5] exI [of _ 10000] exI [of _ upgrade])
      (simp add: setup_db_def upgrade_def sql_delete_def lessThan_Suc)
qed

lemma demo_chaos_reached: "reachable (harness_start 1) (harness_step demo_uuid default_settings) demo_end"
proof -
  let ?w = "lit ''chaos-1''"
  let ?step = "harness_step demo_uuid default_settings"
  have start: "reachable (harness_start 1) ?step demo_start" using demo_harness_start by (rule reachable_init)
  have "?step demo_start Orchestrator (spawn ?w demo_start)"
    by (rule harness_step.spawns) (simp add: demo_start_def prepared_def)
  then have 1: "reachable (harness_start 1) ?step (spawn ?w demo_start)"
    by (rule reachable_step [where step = ?step, OF start])
  have "?step (spawn ?w demo_start) (Process ?w) (take_job 10 ?w nobody (spawn ?w demo_start))"
    by (rule harness_step.takes) (simp add: spawn_def go_def)
  then have 2: "reachable (harness_start 1) ?step (take_job 10 ?w nobody (spawn ?w demo_start))"
    by (rule reachable_step [where step = ?step, OF 1])
  have "?step (take_job 10 ?w nobody (spawn ?w demo_start)) (Process ?w) demo_working"
    unfolding demo_working_def by (rule harness_step.notes_claim) (simp add: demo_take)
  then have 3: "reachable (harness_start 1) ?step demo_working"
    by (rule reachable_step [where step = ?step, OF 2])
  have "?step demo_working (Process ?w) (take_effect 12 ?w demo_chaos_job demo_working)"
    by (rule harness_step.effects) (simp add: demo_working_def note_claim_def go_def)
  then have 4: "reachable (harness_start 1) ?step (take_effect 12 ?w demo_chaos_job demo_working)"
    by (rule reachable_step [where step = ?step, OF 3])
  have "?step (take_effect 12 ?w demo_chaos_job demo_working) (Process ?w) demo_end"
    unfolding demo_end_def by (rule harness_step.commits) (simp add: take_effect_def go_def)
  then show ?thesis by (rule reachable_step [where step = ?step, OF 4])
qed

lemma demo_end_state:
  "jobs (hn_db demo_end) = [finished 13 Success (Some [(lit ''ok'', PBool True)]) demo_chaos_job]"
  "map rr_commit_sha (review_records (hn_db demo_end)) = [harness_job_sha 5 0]"
  "hn_claims demo_end = [mark_of (lit ''chaos-1'') 11 demo_chaos_job]"
  "hn_effects demo_end = [mark_of (lit ''chaos-1'') 12 demo_chaos_job]"
proof -
  have tables: "hn_effects demo_start = []" "hn_claims demo_start = []" by (simp_all add: demo_start_def prepared_def)
  have job: "j_id demo_chaos_job = 7" "j_fence_token demo_chaos_job = 0" "j_commit_sha demo_chaos_job = harness_job_sha 5 0"
    by (simp_all add: demo_chaos_job_def new_job_def)
  show "jobs (hn_db demo_end) = [finished 13 Success (Some [(lit ''ok'', PBool True)]) demo_chaos_job]"
    "map rr_commit_sha (review_records (hn_db demo_end)) = [harness_job_sha 5 0]"
    "hn_claims demo_end = [mark_of (lit ''chaos-1'') 11 demo_chaos_job]"
    "hn_effects demo_end = [mark_of (lit ''chaos-1'') 12 demo_chaos_job]"
    by (simp_all add: demo_end_def commit_job_def take_effect_def go_def demo_working_def note_claim_def demo_take
      finalize_job_def holds_fence_def upgrade_def sql_update_def upsert_review_def review_of_def tables job)
qed

lemma demo_exit: "exit_code 1 True demo_end = 0"
proof -
  have "starts (lit ''chaos-'') (lit ''chaos-1'')" by (simp add: starts_def lit_def)
  moreover obtain r where "review_records (hn_db demo_end) = [r]" "rr_commit_sha r = harness_job_sha 5 0"
    using demo_end_state(2) by (auto simp: map_eq_Cons_conv)
  moreover have "j_commit_sha demo_chaos_job = harness_job_sha 5 0" "j_worker_id demo_chaos_job = Some (lit ''chaos-1'')"
    by (simp_all add: demo_chaos_job_def new_job_def claimed_def)
  ultimately show ?thesis
    using demo_harness_sha demo_end_state(1,3)
    by (simp add: exit_code_def passed_def count_status_def recorded_def foreign_workers_def finished_def mark_of_def
      List.map_filter_def)
qed

theorem effects_around_commits_witness:
  "list_ex (\<lambda>m. mk_sha m = harness_job_sha 5 0 \<and> mk_fence m = 0) (hn_effects demo_end)"
  using effects_around_commits [OF demo_chaos_reached] demo_harness_sha
  by (simp add: demo_end_state demo_chaos_job_def new_job_def claimed_def)


text \<open>
  A claim does not look at the commit: with a real pending job in the database, a harness worker takes
  it, and commits it as reviewed.
\<close>

lemma harness_takes_real_jobs:
  assumes "hn_db s = q1"
  shows "hn_procs (take_job (seconds 5) w1 nobody s) w1 = Some (Taken row1)"
  using assms by (simp add: take_job_def demo_ops(2) go_def)

end
