(* ===== verification/ChaosReport.thy ===== *)
theory ChaosReport
  imports Stats ChaosHarness
begin

text \<open>
  The orchestrator of \<open>scripts/chaos_sigkill.py\<close> over the harness of \<open>ChaosHarness\<close>: the choice of a victim, the
  fault cycles with their counters, the freeze tasks, the teardown, and the figures of the report. Random choices, new worker ids
  and times are arguments; the looks of \<open>_pick_victim\<close> are the states it saw. An exception of a
  query ends the fault cycles, as \<open>Inl\<close> in \<open>run_campaign\<close>.
\<close>

section \<open>The fleet\<close>

record fleet =
  fl_harness :: harness
  fl_procs :: "pystr list"
  fl_frozen :: "pystr set"
  fl_freeze_tasks :: "(pystr \<times> pystr) list"
  fl_kills_attempted :: nat
  fl_kills_landed :: nat
  fl_freezes_landed :: nat

definition spawn_worker :: "pystr \<Rightarrow> fleet \<Rightarrow> fleet" where
  "spawn_worker w s = s\<lparr>fl_harness := spawn w (fl_harness s), fl_procs := fl_procs s @ [w]\<rparr>"

text \<open>The jobs in progress, as commit and worker.\<close>

definition inflight :: "harness \<Rightarrow> (pystr \<times> pystr) list" where
  "inflight h = List.map_filter (\<lambda>j. if j_status j = Processing \<and> harness_sha (j_commit_sha j)
     then map_option (\<lambda>w. (j_commit_sha j, w)) (j_worker_id j) else None) (jobs (hn_db h))"

definition random_choice :: "nat \<Rightarrow> 'a list \<Rightarrow> 'a" where
  "random_choice k xs = xs ! (k mod length xs)"

definition candidates :: "(pystr \<times> pystr) list \<Rightarrow> fleet \<Rightarrow> (pystr \<times> pystr) list" where
  "candidates rows s = filter (\<lambda>(sha, w). w \<in> set (fl_procs s) \<and> w \<notin> fl_frozen s) rows"

text \<open>Every look is the rows the query returned and the fleet when it did; the list ends at the deadline.\<close>

fun pick_victim :: "nat \<Rightarrow> ((pystr \<times> pystr) list \<times> fleet) list \<Rightarrow> (pystr \<times> pystr) option" where
  "pick_victim k [] = None"
| "pick_victim k ((rows, s) # looks) =
     (if candidates rows s \<noteq> [] then Some (random_choice k (candidates rows s)) else pick_victim k looks)"

section \<open>A fault cycle\<close>

definition begin_freeze :: "pystr \<Rightarrow> pystr \<Rightarrow> fleet \<Rightarrow> fleet" where
  "begin_freeze w sha s = s\<lparr>fl_freezes_landed := fl_freezes_landed s + 1, fl_frozen := insert w (fl_frozen s),
     fl_freeze_tasks := fl_freeze_tasks s @ [(w, sha)]\<rparr>"

definition kill_and_replace :: "int \<Rightarrow> pystr \<Rightarrow> pystr \<Rightarrow> pystr \<Rightarrow> fleet \<Rightarrow> fleet" where
  "kill_and_replace now fresh w sha s =
     (let s = (if sha \<noteq> [] then s\<lparr>fl_kills_landed := fl_kills_landed s + 1\<rparr> else s)
      in spawn_worker fresh (s\<lparr>fl_procs := remove1 w (fl_procs s), fl_harness := kill now w sha (fl_harness s)\<rparr>))"

record draws =
  dr_looks :: "((pystr \<times> pystr) list \<times> fleet) list"
  dr_choice :: nat
  dr_roll :: rat
  dr_fresh :: pystr
  dr_now :: int

definition kill_cycle :: "rat \<Rightarrow> draws \<Rightarrow> fleet \<Rightarrow> fleet" where
  "kill_cycle freeze_ratio dr s =
     (let victim = pick_victim (dr_choice dr) (dr_looks dr);
          s = s\<lparr>fl_kills_attempted := fl_kills_attempted s + 1\<rparr>
      in if victim = None \<and> fl_procs s = [] then s
         else (case (case victim of None \<Rightarrow> ([], random_choice (dr_choice dr) (fl_procs s)) | Some v \<Rightarrow> v) of (sha, w) \<Rightarrow>
           if sha \<noteq> [] \<and> dr_roll dr < freeze_ratio then begin_freeze w sha s
           else kill_and_replace (dr_now dr) (dr_fresh dr) w sha s))"

text \<open>
  A freeze task when it first runs, and when it thaws its worker. A process that is gone by then ends the task before the
  \<open>try\<close>, and the worker stays marked as frozen.
\<close>

definition freeze_task :: "int \<Rightarrow> bool \<Rightarrow> pystr \<times> pystr \<Rightarrow> fleet \<Rightarrow> fleet" where
  "freeze_task now running t s = (case t of (w, sha) \<Rightarrow>
     (let s = s\<lparr>fl_freeze_tasks := remove1 t (fl_freeze_tasks s)\<rparr>
      in if w \<in> set (fl_procs s) \<and> running then s\<lparr>fl_harness := freeze now w sha (fl_harness s)\<rparr> else s))"

definition thaw :: "pystr \<Rightarrow> fleet \<Rightarrow> fleet" where
  "thaw w s = s\<lparr>fl_frozen := fl_frozen s - {w}\<rparr>"

definition teardown :: "fleet \<Rightarrow> fleet" where
  "teardown s = s\<lparr>fl_freeze_tasks := [], fl_procs := [], fl_frozen := {}, fl_harness := (fl_harness s)\<lparr>hn_procs := (\<lambda>_. None)\<rparr>\<rparr>"

section \<open>The campaign as a system\<close>

datatype fleet_event = Cycle | Freezing | Background

inductive fleet_step :: "(uuid \<Rightarrow> pystr) \<Rightarrow> settings \<Rightarrow> rat \<Rightarrow> fleet \<Rightarrow> fleet_event \<Rightarrow> fleet \<Rightarrow> bool" for u cfg ratio where
  cycles: "pick_victim (dr_choice dr) (dr_looks dr) = None \<or> dr_looks dr \<noteq> [] \<and> snd (last (dr_looks dr)) = s
       \<and> pick_victim (dr_choice dr) (butlast (dr_looks dr)) = None \<Longrightarrow>
     list_all (\<lambda>l. \<exists>h. fst l = inflight h) (dr_looks dr) \<Longrightarrow> dr_fresh dr \<notin> set (fl_procs s) \<Longrightarrow>
     fleet_step u cfg ratio s Cycle (kill_cycle ratio dr s)"
| freezes: "t \<in> set (fl_freeze_tasks s) \<Longrightarrow> fleet_step u cfg ratio s Freezing (freeze_task now running t s)"
| thaws: "fleet_step u cfg ratio s Freezing (thaw w s)"
| works: "harness_step u cfg (fl_harness s) (Process w) h \<Longrightarrow> fleet_step u cfg ratio s Background (s\<lparr>fl_harness := h\<rparr>)"
| exits: "fleet_step u cfg ratio s Background (s\<lparr>fl_harness := kill now w [] (fl_harness s)\<rparr>)"
| reconciles: "fleet_step u cfg ratio s Background (s\<lparr>fl_harness := reconcile_once cfg now locked (fl_harness s)\<rparr>)"

definition fleet_over :: "harness \<Rightarrow> fleet" where
  "fleet_over h = \<lparr>fl_harness = h, fl_procs = [], fl_frozen = {}, fl_freeze_tasks = [],
     fl_kills_attempted = 0, fl_kills_landed = 0, fl_freezes_landed = 0\<rparr>"

definition fleet_start :: "nat \<Rightarrow> nat \<Rightarrow> fleet \<Rightarrow> bool" where
  "fleet_start n workers s \<longleftrightarrow> (\<exists>h ws. harness_start n h \<and> distinct ws \<and> length ws = workers
     \<and> s = fold spawn_worker ws (fleet_over h))"

section \<open>The books\<close>

definition faults_of :: "pystr \<Rightarrow> fleet \<Rightarrow> nat" where
  "faults_of mode s = length (filter (\<lambda>k. ft_mode k = mode) (hn_faults (fl_harness s)))"

definition fleet_ok :: "(uuid \<Rightarrow> pystr) \<Rightarrow> settings \<Rightarrow> nat \<Rightarrow> nat \<Rightarrow> fleet \<Rightarrow> bool" where
  "fleet_ok u cfg n workers s \<longleftrightarrow> reachable (harness_start n) (harness_step u cfg) (fl_harness s)
     \<and> (length (fl_procs s) = workers \<and> distinct (fl_procs s) \<and> dom (hn_procs (fl_harness s)) \<subseteq> set (fl_procs s))
     \<and> (faults_of (lit ''sigkill'') s = fl_kills_landed s
        \<and> faults_of (lit ''freeze'') s + length (fl_freeze_tasks s) \<le> fl_freezes_landed s
        \<and> fl_kills_landed s + fl_freezes_landed s \<le> fl_kills_attempted s)"

lemma modes_differ [simp]: "lit ''freeze'' \<noteq> lit ''sigkill''" "lit ''sigkill'' \<noteq> lit ''freeze''"
  by (simp_all add: lit_def)

lemma go_frame: "hn_faults (go w st s) = hn_faults s" "hn_procs (go w st s) = (hn_procs s)(w \<mapsto> st)"
  by (simp_all add: go_def)

lemma operation_frames:
  "hn_faults (take_job now w locked s) = hn_faults s"
  "hn_procs (take_job now w locked s) = hn_procs s \<or> (\<exists>st. hn_procs (take_job now w locked s) = (hn_procs s)(w \<mapsto> st))"
  "hn_faults (commit_job u cfg now w j s) = hn_faults s"
  "\<exists>st. hn_procs (commit_job u cfg now w j s) = (hn_procs s)(w \<mapsto> st)"
  by (cases "claim_job now w locked (hn_db s)"; cases "fst (claim_job now w locked (hn_db s))";
      force simp: take_job_def go_frame commit_job_def split: sum.splits)+

lemma process_step_frame:
  assumes "harness_step u cfg h (Process w) h'"
  shows "hn_faults h' = hn_faults h" "dom (hn_procs h') \<subseteq> dom (hn_procs h)"
proof -
  have "hn_faults h' = hn_faults h \<and> w \<in> dom (hn_procs h)
    \<and> (hn_procs h' = hn_procs h \<or> (\<exists>st. hn_procs h' = (hn_procs h)(w \<mapsto> st)))"
    using assms
  proof (cases rule: harness_step.cases)
    case (takes now locked)
    then show ?thesis using operation_frames(1,2) [of now w locked h] by (simp add: domIff)
  next
    case (commits j now)
    then show ?thesis using operation_frames(3,4) [of u cfg now w j h] by (simp add: domIff)
  next
    case (notes_claim j now)
    then show ?thesis by (auto simp: note_claim_def go_frame)
  next
    case (effects j now)
    then show ?thesis by (auto simp: take_effect_def go_frame)
  next
    case (notes_rejection j now)
    then show ?thesis by (auto simp: note_rejection_def go_frame)
  next
    case (beats st j now)
    then show ?thesis by (simp add: beat_job_def domIff)
  qed
  then show "hn_faults h' = hn_faults h" "dom (hn_procs h') \<subseteq> dom (hn_procs h)" by (auto split: if_splits)
qed

lemma reconcile_once_frame [simp]:
  "hn_faults (reconcile_once cfg now locked h) = hn_faults h" "hn_procs (reconcile_once cfg now locked h) = hn_procs h"
  by (simp_all add: reconcile_once_def Let_def split: prod.splits)

lemma kill_frame:
  "hn_faults (kill now w sha h) = hn_faults h @ (if sha = [] then [] else
     [\<lparr>ft_sha = sha, ft_worker = w, ft_mode = lit ''sigkill'', ft_at = now\<rparr>])" "hn_procs (kill now w sha h) = (hn_procs h)(w := None)"
  by (simp_all add: kill_def)

lemma inflight_named: "(sha, w) \<in> set (inflight h) \<Longrightarrow> sha \<noteq> []"
  by (auto simp: inflight_def List.map_filter_def harness_sha_def starts_def lit_def split: if_splits)

lemma random_choice_in: "xs \<noteq> [] \<Longrightarrow> random_choice k xs \<in> set xs"
  by (simp add: random_choice_def)

lemma pick_victim_last:
  "pick_victim k looks = Some v \<Longrightarrow> pick_victim k (butlast looks) = None \<Longrightarrow>
     v \<in> set (candidates (fst (last looks)) (snd (last looks)))"
proof (induction k looks rule: pick_victim.induct)
  case (2 k rows s looks)
  then show ?case by (cases "looks = []") (auto simp: random_choice_in split: if_splits)
qed simp

lemma harness_kill_spawn:
  assumes "reachable (harness_start n) (harness_step u cfg) h" "hn_procs h fresh = None"
  shows "reachable (harness_start n) (harness_step u cfg) (spawn fresh (kill now w sha h))"
proof -
  have "reachable (harness_start n) (harness_step u cfg) (kill now w sha h)"
    by (rule reachable_step [where step = "harness_step u cfg", OF assms(1) harness_step.kills])
  moreover have "hn_procs (kill now w sha h) fresh = None" using assms(2) by (simp add: kill_frame)
  ultimately show ?thesis
    by (blast intro: reachable_step [where step = "harness_step u cfg"] harness_step.spawns)
qed

lemma kill_and_replace_ok:
  assumes "fleet_ok u cfg n workers s" "w \<in> set (fl_procs s)" "fresh \<notin> set (fl_procs s)"
    and "sha \<noteq> [] \<Longrightarrow> fl_kills_landed s + fl_freezes_landed s < fl_kills_attempted s"
  shows "fleet_ok u cfg n workers (kill_and_replace now fresh w sha s)"
proof -
  note ok = assms(1) [unfolded fleet_ok_def]
  have "hn_procs (fl_harness s) fresh = None" using ok assms(3) by (auto simp: domIff dom_def subset_iff)
  then have "reachable (harness_start n) (harness_step u cfg) (spawn fresh (kill now w sha (fl_harness s)))"
    using harness_kill_spawn ok by blast
  moreover have "length (remove1 w (fl_procs s) @ [fresh]) = workers"
    using ok assms(2) by (simp add: length_remove1) (metis Suc_pred length_pos_if_in_set)
  moreover have "distinct (remove1 w (fl_procs s) @ [fresh])"
    using ok assms(3) by (auto dest: notin_set_remove1)
  moreover have "dom (hn_procs (spawn fresh (kill now w sha (fl_harness s)))) \<subseteq> set (remove1 w (fl_procs s) @ [fresh])"
    using ok by (auto simp: spawn_def go_def kill_frame set_remove1_eq split: if_splits)
  ultimately show ?thesis
    using ok assms(4) by (auto simp: fleet_ok_def kill_and_replace_def spawn_worker_def faults_of_def spawn_def go_def kill_frame Let_def)
qed

lemma begin_freeze_ok:
  assumes "fleet_ok u cfg n workers s" "fl_kills_landed s + fl_freezes_landed s < fl_kills_attempted s"
  shows "fleet_ok u cfg n workers (begin_freeze w sha s)"
  using assms by (simp add: fleet_ok_def begin_freeze_def faults_of_def)

lemma fleet_ok_attempt:
  "fleet_ok u cfg n workers s \<Longrightarrow> fleet_ok u cfg n workers (s\<lparr>fl_kills_attempted := fl_kills_attempted s + 1\<rparr>)"
  by (simp add: fleet_ok_def faults_of_def)

lemma kill_cycle_ok:
  assumes ok: "fleet_ok u cfg n workers s" and fresh: "dr_fresh dr \<notin> set (fl_procs s)"
    and seen: "pick_victim (dr_choice dr) (dr_looks dr) = None \<or> dr_looks dr \<noteq> [] \<and> snd (last (dr_looks dr)) = s
       \<and> pick_victim (dr_choice dr) (butlast (dr_looks dr)) = None"
  shows "fleet_ok u cfg n workers (kill_cycle ratio dr s)"
proof -
  let ?s = "s\<lparr>fl_kills_attempted := fl_kills_attempted s + 1\<rparr>"
  have ok': "fleet_ok u cfg n workers ?s" by (rule fleet_ok_attempt [OF ok])
  have room: "fl_kills_landed ?s + fl_freezes_landed ?s < fl_kills_attempted ?s" using ok by (simp add: fleet_ok_def)
  have killed: "fleet_ok u cfg n workers (kill_and_replace (dr_now dr) (dr_fresh dr) w sha ?s)" if "w \<in> set (fl_procs s)" for w sha
    using kill_and_replace_ok [OF ok', of w "dr_fresh dr" sha] that fresh room by simp
  show ?thesis
  proof (cases "pick_victim (dr_choice dr) (dr_looks dr)")
    case None
    then show ?thesis using ok' killed random_choice_in [of "fl_procs s" "dr_choice dr"] by (simp add: kill_cycle_def Let_def)
  next
    case (Some v)
    with seen have "v \<in> set (candidates (fst (last (dr_looks dr))) s)" using pick_victim_last by fastforce
    moreover obtain sha w where v: "v = (sha, w)" by (cases v)
    ultimately have "w \<in> set (fl_procs s)" by (auto simp: candidates_def)
    from killed [OF this, of sha] begin_freeze_ok [OF ok' room, of w sha] Some v show ?thesis
      by (simp add: kill_cycle_def Let_def)
  qed
qed

lemma fleet_ok_harness:
  assumes "fleet_ok u cfg n workers s" "harness_step u cfg (fl_harness s) e h"
    and "hn_faults h = hn_faults (fl_harness s)" "dom (hn_procs h) \<subseteq> dom (hn_procs (fl_harness s))"
  shows "fleet_ok u cfg n workers (s\<lparr>fl_harness := h\<rparr>)"
  using assms reachable_step [where step = "harness_step u cfg"] by (fastforce simp: fleet_ok_def faults_of_def)

lemma freeze_task_ok:
  assumes "fleet_ok u cfg n workers s" "t \<in> set (fl_freeze_tasks s)"
  shows "fleet_ok u cfg n workers (freeze_task now running t s)"
proof -
  obtain w sha where t: "t = (w, sha)" by (cases t)
  have less: "length (remove1 t (fl_freeze_tasks s)) < length (fl_freeze_tasks s)"
    using assms(2) by (metis One_nat_def Suc_pred length_pos_if_in_set length_remove1 lessI)
  have "reachable (harness_start n) (harness_step u cfg) (freeze now w sha (fl_harness s))"
    using assms(1) by (auto simp: fleet_ok_def intro: reachable_step [where step = "harness_step u cfg"] harness_step.freezes)
  then show ?thesis using assms(1) less t
    by (auto simp: fleet_ok_def freeze_task_def faults_of_def freeze_def Let_def)
qed

lemma fleet_step_ok: "fleet_ok u cfg n workers s \<Longrightarrow> fleet_step u cfg ratio s e t \<Longrightarrow> fleet_ok u cfg n workers t"
proof (erule fleet_step.cases, goal_cases)
  case (1 dr s)
  then show ?case using kill_cycle_ok by blast
next
  case (2 t s now running)
  then show ?case using freeze_task_ok by blast
next
  case (3 s w)
  then show ?case by (simp add: fleet_ok_def thaw_def faults_of_def)
next
  case (4 s w h)
  then show ?case using fleet_ok_harness process_step_frame by metis
next
  case (5 s now w)
  have "dom (hn_procs (kill now w [] (fl_harness s))) \<subseteq> dom (hn_procs (fl_harness s))" by (auto simp: kill_frame)
  with 5 show ?case using fleet_ok_harness [OF _ harness_step.kills [of u cfg _ now w "[]"]] by (simp add: kill_frame)
next
  case (6 s now locked)
  then show ?case using fleet_ok_harness [OF _ harness_step.reconciles [of u cfg _ now locked]] by simp
qed

lemma spawn_worker_ok:
  assumes "fleet_ok u cfg n k s" "w \<notin> set (fl_procs s)"
  shows "fleet_ok u cfg n (Suc k) (spawn_worker w s)"
proof -
  have "hn_procs (fl_harness s) w = None" using assms by (auto simp: fleet_ok_def domIff dom_def subset_iff)
  then have "reachable (harness_start n) (harness_step u cfg) (spawn w (fl_harness s))"
    using assms(1) by (auto simp: fleet_ok_def intro: reachable_step [where step = "harness_step u cfg"] harness_step.spawns)
  then show ?thesis using assms by (auto simp: fleet_ok_def spawn_worker_def spawn_def go_def faults_of_def)
qed

lemma spawn_all_ok:
  assumes "fleet_ok u cfg n k s" "distinct (fl_procs s @ ws)"
  shows "fleet_ok u cfg n (k + length ws) (fold spawn_worker ws s)"
  using assms
proof (induction ws arbitrary: s k)
  case (Cons w ws)
  have "fleet_ok u cfg n (Suc k) (spawn_worker w s)" using Cons.prems by (intro spawn_worker_ok) auto
  moreover have "distinct (fl_procs (spawn_worker w s) @ ws)" using Cons.prems by (auto simp: spawn_worker_def)
  ultimately show ?case using Cons.IH by fastforce
qed simp

lemma fleet_start_ok:
  assumes "fleet_start n workers s" shows "fleet_ok u cfg n workers s"
proof -
  from assms obtain h ws where s: "harness_start n h" "distinct ws" "length ws = workers" "s = fold spawn_worker ws (fleet_over h)"
    by (auto simp: fleet_start_def)
  then have "hn_procs h = (\<lambda>_. None)" "hn_faults h = []" by (auto simp: harness_start_def prepared_def)
  with s(1) have "fleet_ok u cfg n 0 (fleet_over h)"
    by (simp add: fleet_ok_def fleet_over_def faults_of_def reachable_init)
  with spawn_all_ok [of u cfg n 0 "fleet_over h" ws] s show ?thesis by (simp add: fleet_over_def)
qed

interpretation campaign: safe_system "fleet_start n workers" "fleet_step u cfg ratio" "fleet_ok u cfg n workers" for n workers u cfg ratio
  by unfold_locales (auto intro: fleet_start_ok fleet_step_ok)

text \<open>
  The books of a campaign are right: whatever the order of cycles, freezes, thaws, crashes and worker steps, the fleet
  keeps its size, every kill that is counted as landed has its row in \<open>chaos_kills\<close> and every such row was counted, there are at
  most as many freeze rows as freezes counted, and both together are at most the cycles attempted; and the database and the workers are those of a run of the
  harness, so that what holds of every harness run holds of the campaign.
\<close>

theorem campaign_accounts:
  assumes "reachable (fleet_start n workers) (fleet_step u cfg ratio) s"
  shows "length (fl_procs s) = workers
    \<and> faults_of (lit ''sigkill'') s = fl_kills_landed s \<and> faults_of (lit ''freeze'') s \<le> fl_freezes_landed s
    \<and> fl_kills_landed s + fl_freezes_landed s \<le> fl_kills_attempted s
    \<and> reachable (harness_start n) (harness_step u cfg) (fl_harness s)"
  using campaign.inv_reachable [OF assms] by (simp add: fleet_ok_def)

section \<open>The figures of the report\<close>

definition pct :: "int list \<Rightarrow> rat \<Rightarrow> int" where
  "pct xs p = (if xs = [] then 0 else xs ! rank_index (length xs) p)"

record latency_line =
  ll_samples :: nat
  ll_p50 :: int
  ll_p95 :: int
  ll_max :: int

definition latency_line :: "int list \<Rightarrow> latency_line option" where
  "latency_line xs = (if xs = [] then None
     else Some \<lparr>ll_samples = length xs, ll_p50 = pct xs (1 / 2), ll_p95 = pct xs (95 / 100), ll_max = last xs\<rparr>)"

definition job_statuses :: "job_status list" where
  "job_statuses = [Pending, Processing, Success, Failure, Dead]"

record chaos_report =
  cr_success :: int
  cr_lost :: int
  cr_by_status :: "(job_status \<times> nat) list"
  cr_records :: nat
  cr_fence_rejections :: nat
  cr_side_effects :: nat
  cr_effected_twice :: nat
  cr_worst_case :: int
  cr_detection :: "latency_line option"
  cr_reclaim :: "latency_line option"
  cr_foreign :: "pystr list"

definition chaos_report :: "settings \<Rightarrow> nat \<Rightarrow> harness \<Rightarrow> chaos_report" where
  "chaos_report cfg n s =
     (let success = int (count_status Success s) in
      \<lparr>cr_success = success, cr_lost = int n - success,
       cr_by_status = filter (\<lambda>(st, k). 0 < k) (map (\<lambda>st. (st, count_status st s)) job_statuses),
       cr_records = recorded s, cr_fence_rejections = length (hn_rejections s),
       cr_side_effects = length (hn_effects s), cr_effected_twice = length (effected_twice s),
       cr_worst_case = WORKER_HEARTBEAT_STALE_SECONDS cfg + WORKER_RECONCILE_INTERVAL_SECONDS cfg,
       cr_detection = latency_line (latencies (hn_faults s) (hn_recoveries s)),
       cr_reclaim = latency_line (latencies (hn_faults s) (map (\<lambda>m. (mk_sha m, mk_at m)) (hn_claims s))),
       cr_foreign = take 5 (foreign_workers s)\<rparr>)"

text \<open>\<open>run\<close>: the exit code of the report, unless the fault cycles raised; the teardown happens in any case.\<close>

definition run_campaign :: "nat \<Rightarrow> unit outcome \<Rightarrow> nat list \<Rightarrow> fleet \<Rightarrow> int outcome \<times> fleet" where
  "run_campaign n killed polls s =
     (bind killed (\<lambda>_. Inr (exit_code n (drain n polls) (fl_harness s))), teardown s)"

definition chaos_main :: "bool \<Rightarrow> int outcome \<Rightarrow> int outcome" where
  "chaos_main worker_role run_result = (if worker_role then Inr 0 else run_result)"

lemma in_map_filter: "x \<in> set (List.map_filter f xs) \<longleftrightarrow> (\<exists>k \<in> set xs. f k = Some x)"
  by (force simp: List.map_filter_def)

lemma latencies_props:
  "x \<in> set (latencies faults rows) \<Longrightarrow> 0 < x" "sorted (latencies faults rows)" "length (latencies faults rows) \<le> length faults"
proof -
  show "sorted (latencies faults rows)" by (simp add: latencies_def)
  show "length (latencies faults rows) \<le> length faults"
    by (simp add: latencies_def List.map_filter_def)
  assume "x \<in> set (latencies faults rows)"
  then obtain k :: fault where "(case filter (\<lambda>(sha, t). sha = ft_sha k \<and> ft_at k < t) rows of
      [] \<Rightarrow> None | a # later \<Rightarrow> Some (Min (snd ` set (a # later)) - ft_at k)) = Some x"
    unfolding latencies_def set_sort in_map_filter by blast
  then have k: "filter (\<lambda>(sha, t). sha = ft_sha k \<and> ft_at k < t) rows \<noteq> []"
    "x = Min (snd ` set (filter (\<lambda>(sha, t). sha = ft_sha k \<and> ft_at k < t) rows)) - ft_at k"
    by (cases "filter (\<lambda>(sha, t). sha = ft_sha k \<and> ft_at k < t) rows"; simp del: filter.simps set_filter)+
  let ?later = "set (filter (\<lambda>(sha, t). sha = ft_sha k \<and> ft_at k < t) rows)"
  have "?later \<noteq> {}" using k(1) by (simp only: set_empty) simp
  then have "Min (snd ` ?later) \<in> snd ` ?later" by (intro Min_in) auto
  then have "ft_at k < Min (snd ` ?later)" by auto
  with k(2) show "0 < x" by simp
qed

lemma latency_line_ordered:
  assumes "latency_line (latencies faults rows) = Some l"
  shows "0 < ll_p50 l \<and> ll_p50 l \<le> ll_p95 l \<and> ll_p95 l \<le> ll_max l \<and> 0 < ll_samples l \<and> ll_samples l \<le> length faults"
proof -
  let ?xs = "latencies faults rows"
  from assms have ne: "?xs \<noteq> []" and l: "l = \<lparr>ll_samples = length ?xs, ll_p50 = pct ?xs (1 / 2), ll_p95 = pct ?xs (95 / 100), ll_max = last ?xs\<rparr>"
    by (auto simp: latency_line_def split: if_splits)
  have n: "0 < length ?xs" using ne by simp
  note srt = latencies_props(2) [of faults rows]
  have less: "rank_index (length ?xs) p < length ?xs" for p by (rule rank_index_less [OF n])
  have "0 < pct ?xs (1 / 2)" using ne latencies_props(1) [OF nth_mem [OF less]] by (simp add: pct_def)
  moreover have "pct ?xs (1 / 2) \<le> pct ?xs (95 / 100)"
    using ne less by (simp add: pct_def) (intro sorted_nth_mono [OF srt] rank_index_mono; simp)
  moreover have "pct ?xs (95 / 100) \<le> last ?xs"
    using ne less [of "95 / 100"] by (simp add: pct_def last_conv_nth) (intro sorted_nth_mono [OF srt]; simp)
  ultimately show ?thesis using l ne latencies_props(3) [of faults rows] by simp
qed

text \<open>
  The report of a campaign adds up: no more successes than jobs, so the lost jobs are never negative and the successes and the lost are all jobs; a line of latencies
  is in order, positive, and has at most one sample per injected fault.
\<close>

theorem report_adds_up:
  assumes "reachable (fleet_start n workers) (fleet_step u cfg ratio) s"
  shows "cr_success (chaos_report cfg n (fl_harness s)) + cr_lost (chaos_report cfg n (fl_harness s)) = int n
    \<and> 0 \<le> cr_lost (chaos_report cfg n (fl_harness s))
    \<and> (case cr_detection (chaos_report cfg n (fl_harness s)) of None \<Rightarrow> True | Some l \<Rightarrow>
         0 < ll_p50 l \<and> ll_p50 l \<le> ll_p95 l \<and> ll_p95 l \<le> ll_max l \<and> ll_samples l \<le> length (hn_faults (fl_harness s)))
    \<and> (case cr_reclaim (chaos_report cfg n (fl_harness s)) of None \<Rightarrow> True | Some l \<Rightarrow>
         0 < ll_p50 l \<and> ll_p50 l \<le> ll_p95 l \<and> ll_p95 l \<le> ll_max l \<and> ll_samples l \<le> length (hn_faults (fl_harness s)))"
proof -
  have "reachable (harness_start n) (harness_step u cfg) (fl_harness s)"
    using campaign.inv_reachable [OF assms] by (simp add: fleet_ok_def)
  then have "length (harness_shas (hn_db (fl_harness s))) \<le> n"
    using chaos.inv_reachable by (auto simp: harness_ok_def)
  moreover have "count_status Success (fl_harness s) \<le> length (harness_shas (hn_db (fl_harness s)))"
  proof -
    let ?rows = "filter (\<lambda>j. harness_sha (j_commit_sha j)) (jobs (hn_db (fl_harness s)))"
    have "count_status Success (fl_harness s) = length (filter (\<lambda>j. j_status j = Success) ?rows)"
      by (simp add: count_status_def conj_commute)
    also have "\<dots> \<le> length ?rows" by (rule length_filter_le)
    finally show ?thesis by (simp add: harness_shas_def filter_map comp_def)
  qed
  ultimately have "count_status Success (fl_harness s) \<le> n" by linarith
  then show ?thesis
    using latency_line_ordered by (auto simp: chaos_report_def Let_def split: option.splits)
qed

section \<open>A campaign\<close>

definition demo_fleet :: fleet where
  "demo_fleet = spawn_worker (lit ''chaos-1'') (fleet_over demo_start)"

definition demo_fleet_busy :: fleet where
  "demo_fleet_busy = demo_fleet\<lparr>fl_harness := take_job 10 (lit ''chaos-1'') nobody (fl_harness demo_fleet)\<rparr>"

definition demo_draws :: draws where
  "demo_draws = \<lparr>dr_looks = [(inflight (fl_harness demo_fleet_busy), demo_fleet_busy)], dr_choice = 0, dr_roll = 0,
     dr_fresh = lit ''chaos-2'', dr_now = 11\<rparr>"

definition demo_fleet_hit :: fleet where
  "demo_fleet_hit = kill_cycle 0 demo_draws demo_fleet_busy"

lemma demo_fleet_reached: "reachable (fleet_start 1 1) (fleet_step demo_uuid default_settings 0) demo_fleet_hit"
proof -
  let ?step = "fleet_step demo_uuid default_settings 0"
  have "fleet_start 1 1 demo_fleet"
    unfolding fleet_start_def demo_fleet_def
    by (intro exI [of _ demo_start] exI [of _ "[lit ''chaos-1'']"]) (use demo_harness_start in simp)
  then have 1: "reachable (fleet_start 1 1) ?step demo_fleet" by (rule reachable_init)
  have "?step demo_fleet Background demo_fleet_busy"
    unfolding demo_fleet_busy_def
    by (intro fleet_step.works [where w = "lit ''chaos-1''"] harness_step.takes)
      (simp add: demo_fleet_def spawn_worker_def fleet_over_def spawn_def go_def)
  then have 2: "reachable (fleet_start 1 1) ?step demo_fleet_busy" by (rule reachable_step [where step = ?step, OF 1])
  have "?step demo_fleet_busy Cycle demo_fleet_hit"
    unfolding demo_fleet_hit_def
    by (intro fleet_step.cycles)
      (auto simp: demo_draws_def demo_fleet_busy_def demo_fleet_def spawn_worker_def fleet_over_def lit_def)
  then show ?thesis by (rule reachable_step [where step = ?step, OF 2])
qed

lemma demo_hit_counts: "fl_kills_landed demo_fleet_hit = 1" "fl_kills_attempted demo_fleet_hit = 1"
proof -
  have h: "fl_harness demo_fleet_busy = take_job 10 (lit ''chaos-1'') nobody (spawn (lit ''chaos-1'') demo_start)"
    by (simp add: demo_fleet_busy_def demo_fleet_def spawn_worker_def fleet_over_def)
  have rows: "inflight (fl_harness demo_fleet_busy) = [(harness_job_sha 5 0, lit ''chaos-1'')]"
    using demo_harness_sha unfolding h demo_take
    by (simp add: inflight_def List.map_filter_def upgrade_def demo_chaos_job_def claimed_def new_job_def)
  have "candidates (inflight (fl_harness demo_fleet_busy)) demo_fleet_busy = [(harness_job_sha 5 0, lit ''chaos-1'')]"
    unfolding rows by (simp add: candidates_def demo_fleet_busy_def demo_fleet_def spawn_worker_def fleet_over_def)
  moreover have "harness_job_sha 5 0 \<noteq> []" by (simp add: harness_job_sha_def sha_prefix_def lit_def)
  ultimately show "fl_kills_landed demo_fleet_hit = 1" "fl_kills_attempted demo_fleet_hit = 1"
    by (simp_all add: demo_fleet_hit_def kill_cycle_def demo_draws_def random_choice_def kill_and_replace_def spawn_worker_def Let_def
        demo_fleet_busy_def demo_fleet_def fleet_over_def)
qed

theorem campaign_accounts_witness:
  "length (fl_procs demo_fleet_hit) = 1 \<and> faults_of (lit ''sigkill'') demo_fleet_hit = 1"
  using campaign_accounts [OF demo_fleet_reached] by (simp add: demo_hit_counts)

theorem report_adds_up_witness:
  "0 \<le> cr_lost (chaos_report default_settings 1 (fl_harness demo_fleet_hit))"
  using report_adds_up [OF demo_fleet_reached] by blast

text \<open>
  The verdict does not look at the faults: a campaign without a single fault passes, and so does one without jobs.
\<close>

theorem passes_without_faults:
  "exit_code 1 True demo_end = 0 \<and> hn_faults demo_end = [] \<and>
   (\<forall>s c cs. harness_start 0 s \<longrightarrow> exit_code 0 (drain 0 (c # cs)) s = 0)"
proof -
  have "exit_code 0 (drain 0 (c # cs)) s = 0" if "harness_start 0 s" for s c cs
  proof -
    from that obtain now ids r m d where "s = prepared now ids r 0 m d" unfolding harness_start_def by blast
    then have s: "jobs (hn_db s) = sql_update (\<lambda>j. harness_sha (j_commit_sha j)) (\<lambda>j. j\<lparr>j_max_attempts := m\<rparr>)
        (sql_delete (\<lambda>j. harness_sha (j_commit_sha j)) (jobs d))" "hn_claims s = []"
      "review_records (hn_db s) = sql_delete (\<lambda>r. harness_sha (rr_commit_sha r)) (review_records d)"
      by (auto simp: prepared_def raise_max_attempts_def setup_db_def)
    have none: "\<forall>j \<in> set (jobs (hn_db s)). \<not> harness_sha (j_commit_sha j)"
      by (auto simp: s set_sql_update sql_delete_def)
    then have "count_status Success s = 0" by (auto simp: count_status_def filter_empty_conv)
    moreover have "recorded s = 0" by (simp add: recorded_def s sql_delete_def filter_empty_conv)
    moreover have "List.map_filter (\<lambda>j. if harness_sha (j_commit_sha j) then j_worker_id j else None) (jobs (hn_db s)) = []"
      using none by (simp add: List.map_filter_def filter_empty_conv)
    then have "foreign_workers s = []" by (simp add: foreign_workers_def s(2))
    ultimately show ?thesis by (simp add: exit_code_def passed_def)
  qed
  moreover have "hn_faults demo_end = []"
    by (simp add: demo_end_def operation_frames take_effect_def go_def demo_working_def note_claim_def spawn_def demo_start_def prepared_def)
  ultimately show ?thesis using demo_exit by blast
qed

end
