(* ===== verification/DefectProbe.thy ===== *)
theory DefectProbe
  imports Swarm Complex_Main
begin

text \<open>
  \<open>scripts/defect_detection_probe.py\<close>: five seeded defects, the keyword test that decides whether a
  review named a defect, the simulated and the live runs of swarm and baseline, and the rates
  that are printed. Rates are rational; the layout of the printed table is left out.
\<close>

section \<open>The fixtures\<close>

record sample =
  sm_id :: pystr
  sm_repo :: pystr
  sm_problem_statement :: pystr
  sm_diff :: pystr
  sm_category :: pystr
  sm_ground_truth_defect :: pystr

text \<open>A text of lines between two line breaks.\<close>

definition lines_text :: "string list \<Rightarrow> pystr" where
  "lines_text ls = join [NL] ([] # map lit ls @ [[]])"

definition auth_bypass :: sample where
  "auth_bypass = \<lparr>sm_id = lit ''SWE-001-AUTH-BYPASS'', sm_repo = lit ''enterprise/gateway'',
     sm_problem_statement = lit ''PR #104 introduces an endpoint for batch status updates. Ensure permissions are checked.'',
     sm_diff = lines_text [
       ''@@ -45,6 +45,12 @@ async def update_item_status(item_id: str, status: str):'',
       ''     return await db.items.update(item_id, status)'',
       '' '',
       ''+@router.post(\"/batch-status\")'',
       ''+async def batch_update(items: list[str], new_status: str):'',
       ''+    # Missing user role/tenant check - any authenticated caller can modify arbitrary items'',
       ''+    for item in items:'',
       ''+        await db.items.update(item, new_status)'',
       ''+    return {\"updated\": len(items)}''],
     sm_category = lit ''security'',
     sm_ground_truth_defect = lit ''missing tenant/permission authorization check allowing unauthorized modification''\<rparr>"

definition sqli_raw :: sample where
  "sqli_raw = \<lparr>sm_id = lit ''SWE-002-SQLI-RAW'', sm_repo = lit ''analytics/reporting'',
     sm_problem_statement = lit ''Add filter by custom report tag in export handler.'',
     sm_diff = lines_text [
       ''@@ -110,5 +110,6 @@ async def export_report(tag: str, user_id: int):'',
       ''-    query = \"SELECT * FROM reports WHERE user_id = :uid AND tag = :tag\"'',
       ''-    return await db.fetch_all(query, {\"uid\": user_id, \"tag\": tag})'',
       ''+    # Optimization: inline tag into raw SQL string'',
       ''+    query = f\"SELECT * FROM reports WHERE user_id = {user_id} AND tag = '{tag}'\"'',
       ''+    return await db.fetch_all(query)''],
     sm_category = lit ''security'',
     sm_ground_truth_defect = lit ''raw SQL string formatting introducing SQL injection vulnerability''\<rparr>"

definition n_plus_one_leak :: sample where
  "n_plus_one_leak = \<lparr>sm_id = lit ''SWE-003-N_PLUS_ONE_LEAK'', sm_repo = lit ''commerce/catalog'',
     sm_problem_statement = lit ''Fetch products with their variant inventory counts.'',
     sm_diff = lines_text [
       ''@@ -80,6 +80,11 @@ async def get_catalog_feed(category_id: int):'',
       ''     products = await db.get_products_by_category(category_id)'',
       ''+    for product in products:'',
       ''+        # Performance defect: N+1 query inside loop across thousands of items'',
       ''+        conn = await db_pool.acquire()'',
       ''+        product.variants = await conn.fetch(\"SELECT * FROM variants WHERE product_id = $1\", product.id)'',
       ''+        # Missing conn release leads to pool exhaustion'',
       ''     return products''],
     sm_category = lit ''performance'',
     sm_ground_truth_defect = lit ''N+1 query in loop and unreleased database connection causing pool exhaustion''\<rparr>"

definition nonetype_deref :: sample where
  "nonetype_deref = \<lparr>sm_id = lit ''SWE-004-NONETYPE-DEREF'', sm_repo = lit ''core/scheduler'',
     sm_problem_statement = lit ''Refactor worker heartbeat retrieval.'',
     sm_diff = lines_text [
       ''@@ -204,4 +204,5 @@ async def get_active_worker_status(worker_id: str):'',
       ''     worker = await queue_repo.get_worker(worker_id)'',
       ''-    return worker.status if worker else \"offline\"'',
       ''+    # Regression: assumes worker is never None'',
       ''+    return worker.status.upper()''],
     sm_category = lit ''logic'',
     sm_ground_truth_defect = lit ''unhandled NoneType dereference when worker is not found''\<rparr>"

definition race_fence_bypass :: sample where
  "race_fence_bypass = \<lparr>sm_id = lit ''SWE-005-RACE-FENCE-BYPASS'', sm_repo = lit ''infra/queue'',
     sm_problem_statement = lit ''Speed up job finalization by bypassing lock verification.'',
     sm_diff = lines_text [
       ''@@ -312,6 +312,4 @@ async def finalize_job(job_id: uuid.UUID, fence_token: int):'',
       ''-    # Guarded by fence_token'',
       ''-    UPDATE jobs SET status = 'SUCCESS' WHERE id = job_id AND fence_token = fence_token'',
       ''+    # Regression: removed fence token check from WHERE clause'',
       ''+    UPDATE jobs SET status = 'SUCCESS' WHERE id = job_id''],
     sm_category = lit ''concurrency'',
     sm_ground_truth_defect = lit ''removal of fencing token verification causes race conditions on stale workers''\<rparr>"

definition curated_benchmark_suite :: "sample list" where
  "curated_benchmark_suite = [auth_bypass, sqli_raw, n_plus_one_leak, nonetype_deref, race_fence_bypass]"

section \<open>The keyword test\<close>

definition corpus_text :: "review_comment list \<Rightarrow> pystr" where
  "corpus_text comments = lower (join (lit '' '') (map (\<lambda>c. rc_body c @ lit '' ''
     @ (case rc_suggested_fix c of None \<Rightarrow> [] | Some f \<Rightarrow> f)) comments))"

definition long_words :: "pystr \<Rightarrow> pystr list" where
  "long_words defect_desc = map lower (filter (\<lambda>w. 4 < length w) (words_of defect_desc))"

definition evaluate_detection :: "pystr \<Rightarrow> review_comment list \<Rightarrow> bool" where
  "evaluate_detection defect_desc comments \<longleftrightarrow>
     2 \<le> length (filter (\<lambda>kw. contains kw (corpus_text comments)) (long_words defect_desc))"

section \<open>The two contestants\<close>

definition simulated :: "string \<Rightarrow> int \<Rightarrow> string \<Rightarrow> severity \<Rightarrow> review_comment" where
  "simulated path line body sev = \<lparr>rc_path = lit path, rc_line = line, rc_side = RIGHT, rc_body = lit body,
     rc_severity = sev, rc_suggested_fix = None, rc_agent_id = None\<rparr>"

definition simulated_comments :: "(pystr \<times> review_comment list) list" where
  "simulated_comments = [
     (lit ''SWE-001-AUTH-BYPASS'', [simulated ''gateway.py'' 48
       ''[CRITICAL] Missing authorization check: /batch-status allows unprivileged modification'' CRITICAL]),
     (lit ''SWE-002-SQLI-RAW'', [simulated ''reporting.py'' 112
       ''[CRITICAL] SQL Injection vulnerability: raw f-string formatting in SQL query'' CRITICAL]),
     (lit ''SWE-003-N_PLUS_ONE_LEAK'', [simulated ''catalog.py'' 83
       ''[WARNING] N+1 database queries inside loop and unreleased connection leak'' WARNING]),
     (lit ''SWE-004-NONETYPE-DEREF'', [simulated ''scheduler.py'' 206
       ''[CRITICAL] NoneType dereference: worker.status will raise AttributeError if worker is None'' CRITICAL]),
     (lit ''SWE-005-RACE-FENCE-BYPASS'', [simulated ''queue.py'' 314
       ''[CRITICAL] Concurrency hazard: fence_token removed from WHERE clause allows zombie workers to overwrite state'' CRITICAL])]"

definition live_files :: "sample \<Rightarrow> pr_file list" where
  "live_files sm = [\<lparr>pf_filename = Some (lit ''sample.py''), pf_status = None, pf_changes = None,
     pf_patch = Some (sm_diff sm), pf_content = None\<rparr>]"

definition run_swarm_evaluation :: "ai_env \<Rightarrow> (pyval \<Rightarrow> pystr) \<Rightarrow> bool \<Rightarrow> sample \<Rightarrow> (bool \<times> nat) outcome" where
  "run_swarm_evaluation env str_of live sm =
     (if \<not> live
      then (let comments = (case map_of simulated_comments (sm_id sm) of None \<Rightarrow> [] | Some cs \<Rightarrow> cs)
        in Inr (evaluate_detection (sm_ground_truth_defect sm) comments, length comments))
      else bind (analyze_diff env str_of (live_files sm) [(lit ''title'', PStr (sm_id sm)), (lit ''body'', PStr (sm_problem_statement sm))])
        (\<lambda>review. Inr (evaluate_detection (sm_ground_truth_defect sm) (res_comments review), length (res_comments review))))"

definition baseline_detected :: "(pystr \<times> bool) list" where
  "baseline_detected = [(lit ''SWE-001-AUTH-BYPASS'', False), (lit ''SWE-002-SQLI-RAW'', True),
     (lit ''SWE-003-N_PLUS_ONE_LEAK'', False), (lit ''SWE-004-NONETYPE-DEREF'', True), (lit ''SWE-005-RACE-FENCE-BYPASS'', False)]"

definition run_baseline_evaluation :: "bool \<Rightarrow> sample \<Rightarrow> bool \<times> nat" where
  "run_baseline_evaluation live sm =
     (if \<not> live then (let detected = (case map_of baseline_detected (sm_id sm) of None \<Rightarrow> False | Some b \<Rightarrow> b)
        in (detected, if detected then 1 else 0))
      else (False, 0))"

section \<open>The probe\<close>

fun tally :: "ai_env \<Rightarrow> (pyval \<Rightarrow> pystr) \<Rightarrow> bool \<Rightarrow> sample list \<Rightarrow> (int \<times> int) outcome" where
  "tally env str_of live [] = Inr (0, 0)"
| "tally env str_of live (sm # sms) =
     bind (run_swarm_evaluation env str_of live sm) (\<lambda>(s_hit, _).
     let b_hit = fst (run_baseline_evaluation live sm) in
     bind (tally env str_of live sms) (\<lambda>(s, b).
     Inr (s + (if s_hit then 1 else 0), b + (if b_hit then 1 else 0))))"

text \<open>The hits and the rates in percent; without a sample the division raises.\<close>

definition probe :: "ai_env \<Rightarrow> (pyval \<Rightarrow> pystr) \<Rightarrow> bool \<Rightarrow> int \<Rightarrow> (int \<times> int \<times> rat \<times> rat) outcome" where
  "probe env str_of live n =
     (let samples = slice_to n curated_benchmark_suite; total = int (length samples) in
      bind (tally env str_of live samples) (\<lambda>(s, b).
      if total = 0 then raise_exn ZeroDivisionError (lit ''division by zero'')
      else Inr (s, b, rat_of_int s / rat_of_int total * 100, rat_of_int b / rat_of_int total * 100)))"

section \<open>What the probe measures\<close>

lemma simulated_hits:
  "list_all (\<lambda>sm. (case map_of simulated_comments (sm_id sm) of None \<Rightarrow> False
     | Some cs \<Rightarrow> length cs = 1 \<and> evaluate_detection (sm_ground_truth_defect sm) cs)) curated_benchmark_suite"
  by code_simp

lemma baseline_hits:
  "list_all (\<lambda>sm. fst (run_baseline_evaluation False sm) = (sm_id sm \<in> {sm_id sqli_raw, sm_id nonetype_deref}))
     curated_benchmark_suite"
  by code_simp

lemma offline_swarm:
  assumes "sm \<in> set curated_benchmark_suite"
  shows "run_swarm_evaluation env str_of False sm = Inr (True, 1)"
  using simulated_hits assms
  by (auto simp: run_swarm_evaluation_def list_all_iff Let_def split: option.splits)

definition offline_baseline :: "sample list \<Rightarrow> int" where
  "offline_baseline sms = int (length (filter (\<lambda>sm. sm_id sm \<in> {sm_id sqli_raw, sm_id nonetype_deref}) sms))"

lemma offline_tally:
  "set sms \<subseteq> set curated_benchmark_suite \<Longrightarrow>
     tally env str_of False sms = Inr (int (length sms), offline_baseline sms)"
proof (induction sms)
  case (Cons sm sms)
  then have "fst (run_baseline_evaluation False sm) = (sm_id sm \<in> {sm_id sqli_raw, sm_id nonetype_deref})"
    using baseline_hits by (simp add: list_all_iff)
  with Cons offline_swarm show ?case by (simp add: offline_baseline_def Let_def)
qed (simp add: offline_baseline_def)

lemma live_tally: "tally env str_of True sms = Inr (a, b) \<Longrightarrow> b = 0"
  by (induction sms arbitrary: a b) (auto simp: bind_Inr_iff run_baseline_evaluation_def Let_def)

lemma suite_counts: "length curated_benchmark_suite = 5" "offline_baseline curated_benchmark_suite = 2"
  by code_simp+

text \<open>
  What the probe reports is not measured: without \<open>--live\<close> the swarm catches every sample
  whatever the swarm, its models and its prompts are, so that the default run always prints 5 of 5 and
  100 percent against 2 of 5 and 40 percent for the baseline; with \<open>--live\<close> the baseline never runs and
  catches nothing. A number of samples that selects none ends in a division by zero.
\<close>

theorem probe_is_fixed:
  "probe env str_of False n = (let samples = slice_to n curated_benchmark_suite; k = int (length samples);
       b = offline_baseline samples in
     if samples = [] then raise_exn ZeroDivisionError (lit ''division by zero'')
     else Inr (k, b, 100, rat_of_int b / rat_of_int k * 100))
   \<and> probe env str_of False 5 = Inr (5, 2, 100, 40)
   \<and> (case probe env str_of True n of Inl e \<Rightarrow> True | Inr (s, b, swarm_rate, baseline_rate) \<Rightarrow> b = 0 \<and> baseline_rate = 0)"
proof (intro conjI)
  show fixed: "probe env str_of False n = (let samples = slice_to n curated_benchmark_suite; k = int (length samples);
       b = offline_baseline samples in
     if samples = [] then raise_exn ZeroDivisionError (lit ''division by zero'')
     else Inr (k, b, 100, rat_of_int b / rat_of_int k * 100))" for n
    by (simp add: probe_def Let_def offline_tally set_slice_to)
  have "slice_to 5 curated_benchmark_suite = curated_benchmark_suite"
    by (rule slice_to_all) (simp add: suite_counts)
  moreover have "curated_benchmark_suite \<noteq> []" by (simp add: curated_benchmark_suite_def)
  ultimately show "probe env str_of False 5 = Inr (5, 2, 100, 40)"
    by (simp add: fixed suite_counts)
  show "case probe env str_of True n of Inl e \<Rightarrow> True
      | Inr (s, b, swarm_rate, baseline_rate) \<Rightarrow> b = 0 \<and> baseline_rate = 0"
    by (auto simp: probe_def Let_def bind_Inr_iff dest: live_tally split: sum.split if_splits)
qed

end
