(* ===== verification/ReviewProbes.thy ===== *)
theory ReviewProbes
  imports Stats DefectProbe Indexer
begin

text \<open>
  Three small scripts around the review: \<open>scripts/test_fastcache_pr.py\<close>, which compares one prompt with the swarm on a pull
  request with two known defects, \<open>scripts/verify_ai.py\<close>, which checks that the model answers, and
  \<open>scripts/benchmark_indexer.py\<close>, which times the indexer. Model answers and measured times are arguments; printing
  is left out except where the printed text is the point (the masked key).
\<close>

section \<open>The pull request\<close>

definition pr_title :: pystr where
  "pr_title = lit ''perf: optimize get() concurrency using shared_lock for multiple readers''"

definition pr_body :: pystr where
  "pr_body = lines_text [
       ''This PR improves FastCache throughput under read-heavy workloads:'',
       ''- Replaces std::unique_lock with std::shared_lock in LRUCache::get() to allow concurrent readers.'',
       ''- Cleans up LRUCache::set() eviction routine to speed up cache writes.'']"

definition fastcache_diff :: pystr where
  "fastcache_diff = lines_text [
       ''--- a/src/Cache.cpp'',
       ''+++ b/src/Cache.cpp'',
       ''@@ -15,7 +15,7 @@ void LRUCache::set(std::string_view key, std::string_view value) {'',
       ''     if (items_map_.size() >= capacity_) {'',
       ''       // Cache is full. Remove least recently used (back of the list)'',
       ''       auto last = items_list_.back();'',
       ''-      items_map_.erase(last.first);'',
       ''+      // Direct pop for faster eviction path'',
       ''       items_list_.pop_back();'',
       ''     }'',
       ''   }'',
       ''@@ -28,7 +28,7 @@ void LRUCache::set(std::string_view key, std::string_view value) {'',
       '' '',
       '' std::optional<std::string> LRUCache::get(std::string_view key) {'',
       ''-  std::unique_lock<std::shared_mutex> lock(mutex_);'',
       ''+  std::shared_lock<std::shared_mutex> lock(mutex_);'',
       '' '',
       ''   auto it = items_map_.find(std::string(key));'',
       '' '',
       ''@@ -36,7 +36,7 @@ std::optional<std::string> LRUCache::get(std::string_view key) {'',
       ''     return std::nullopt;'',
       ''   }'',
       '' '',
       ''-  // Move the accessed item to the front of the list'',
       ''+  // Move the accessed item to the front of the list'',
       ''   items_list_.splice(items_list_.begin(), items_list_, it->second);'',
       '' '',
       ''   return it->second->second;'']"

definition fastcache_file_content :: pystr where
  "fastcache_file_content = join [NL] (map lit [
       ''#include \"Cache.h\"'',
       '''',
       ''LRUCache::LRUCache(size_t capacity) : capacity_(capacity) {}'',
       '''',
       ''void LRUCache::set(std::string_view key, std::string_view value) {'',
       ''  std::unique_lock<std::shared_mutex> lock(mutex_);'',
       '''',
       ''  auto it = items_map_.find(std::string(key));'',
       '''',
       ''  if (it != items_map_.end()) {'',
       ''    items_list_.erase(it->second);'',
       ''  } else {'',
       ''    if (items_map_.size() >= capacity_) {'',
       ''      auto last = items_list_.back();'',
       ''      items_list_.pop_back();'',
       ''    }'',
       ''  }'',
       '''',
       ''  items_list_.push_front({std::string(key), std::string(value)});'',
       ''  items_map_[std::string(key)] = items_list_.begin();'',
       ''}'',
       '''',
       ''std::optional<std::string> LRUCache::get(std::string_view key) {'',
       ''  std::shared_lock<std::shared_mutex> lock(mutex_);'',
       '''',
       ''  auto it = items_map_.find(std::string(key));'',
       '''',
       ''  if (it == items_map_.end()) {'',
       ''    return std::nullopt;'',
       ''  }'',
       '''',
       ''  items_list_.splice(items_list_.begin(), items_list_, it->second);'',
       '''',
       ''  return it->second->second;'',
       ''}'', []])"

section \<open>The two contestants\<close>

definition solo_prompt :: pystr where
  "solo_prompt = [NL] @ lit ''You are an expert code reviewer. Review the following Pull Request for ALTA/FastCache.'' @ [NL]
     @ lit ''PR TITLE: '' @ pr_title @ [NL] @ lit ''PR DESCRIPTION: '' @ pr_body @ [NL, NL] @ lit ''DIFF:'' @ [NL]
     @ fastcache_diff @ [NL, NL]
     @ lit ''Provide a code review summary, score from 0-100, and list any issues or suggestions.'' @ [NL]"

definition solo_request :: "settings \<Rightarrow> request" where
  "solo_request cfg = (get_completion_kwargs cfg (AI_MODEL_MAP cfg))
     \<lparr>rq_messages := [Say (lit ''system'') (lit ''You are a code review assistant.''), Say (lit ''user'') solo_prompt]\<rparr>"

definition run_solo_llm :: "(request \<Rightarrow> pystr option outcome) \<Rightarrow> settings \<Rightarrow> pystr outcome" where
  "run_solo_llm answer cfg = bind (answer (solo_request cfg)) (\<lambda>c. Inr (case c of None \<Rightarrow> [] | Some s \<Rightarrow> s))"

definition fastcache_files :: "pr_file list" where
  "fastcache_files = [\<lparr>pf_filename = Some (lit ''src/Cache.cpp''), pf_status = None, pf_changes = None,
     pf_patch = Some fastcache_diff, pf_content = Some fastcache_file_content\<rparr>]"

definition run_revix_swarm :: "ai_env \<Rightarrow> (pyval \<Rightarrow> pystr) \<Rightarrow> review_result outcome" where
  "run_revix_swarm env str_of = analyze_diff env str_of fastcache_files [(lit ''title'', PStr pr_title), (lit ''body'', PStr pr_body)]"

section \<open>Who found the defects\<close>

definition mentions_any :: "string list \<Rightarrow> pystr \<Rightarrow> bool" where
  "mentions_any terms t = list_ex (\<lambda>x. contains (lit x) t) terms"

definition check_detected_bugs :: "pystr \<Rightarrow> bool \<times> bool" where
  "check_detected_bugs review_text =
     (let t = lower review_text;
          has_splice_shared = mentions_any [''splice'', ''shared_lock''] t;
          flags_as_unsafe = mentions_any [''data race'', ''data-race'', ''race condition'', ''violates'',
              ''cannot truly run in parallel'', ''heap corruption'', ''not thread-safe'', ''unsafe'', ''dereference a dangling''] t
            \<and> \<not> mentions_any [''is safe under shared_lock'', ''conceptually sound''] t;
          bug1 = has_splice_shared \<and> (flags_as_unsafe \<or> mentions_any [''violates the mutex'', ''data race''] t);
          bug2 = mentions_any [''items_map'', ''erase'', ''dangling'', ''stale'', ''iterator''] t
            \<and> mentions_any [''leak'', ''missing'', ''pop_back'', ''memory'', ''uaf'', ''use-after-free''] t
      in (bug1, bug2))"

definition detection_score :: "bool \<times> bool \<Rightarrow> nat" where
  "detection_score v = (if fst v then 1 else 0) + (if snd v then 1 else 0)"

definition swarm_review_text :: "review_result \<Rightarrow> pystr" where
  "swarm_review_text r = res_summary r @ [NL] @ join [NL] (map (\<lambda>c. severity_text (rc_severity c) @ lit '' in '' @ rc_path c
     @ lit '':'' @ str_int (rc_line c) @ lit '' - '' @ rc_body c) (res_comments r))"

text \<open>The two scores, of the single prompt and of the swarm.\<close>

definition head_to_head :: "(request \<Rightarrow> pystr option outcome) \<Rightarrow> ai_env \<Rightarrow> (pyval \<Rightarrow> pystr) \<Rightarrow> (nat \<times> nat) outcome" where
  "head_to_head answer env str_of =
     bind (run_solo_llm answer (ai_cfg env)) (\<lambda>solo.
     bind (run_revix_swarm env str_of) (\<lambda>r.
     Inr (detection_score (check_detected_bugs solo), detection_score (check_detected_bugs (swarm_review_text r)))))"

section \<open>The connectivity check\<close>

definition masked_key :: "pystr \<Rightarrow> pystr" where
  "masked_key key = take 6 key @ lit ''...'' @ drop (length key - 4) key"

definition ping_request :: "settings \<Rightarrow> request" where
  "ping_request cfg = (get_completion_kwargs cfg (AI_MODEL_MAP cfg))
     \<lparr>rq_messages := [Say (lit ''user'') (lit ''Ping from Revix engine. Reply with 'PONG' and active status.'')], rq_max_tokens := 500\<rparr>"

text \<open>
  The printed key, if any, and the exit code; \<open>answer\<close> yields the content and the reasoning of the answer. An answer
  with neither makes \<open>strip\<close> run on the empty string.
\<close>

definition verify_ai :: "(request \<Rightarrow> (pystr option \<times> pystr option) outcome) \<Rightarrow> settings \<Rightarrow> pystr option \<times> pystr option \<times> int" where
  "verify_ai answer cfg = (case non_empty (AI_API_KEY cfg) of
     None \<Rightarrow> (None, None, 1)
   | Some key \<Rightarrow> (case answer (ping_request cfg) of
       Inl e \<Rightarrow> (Some (masked_key key), None, 1)
     | Inr (content, reasoning) \<Rightarrow> (Some (masked_key key),
         Some (strip (or_else content (or_else reasoning []))), 0)))"

section \<open>The indexer's latency\<close>

definition own_source :: "pystr \<Rightarrow> bool" where
  "own_source path \<longleftrightarrow> \<not> contains (lit ''venv'') path \<and> \<not> contains (lit ''.mypy_cache'') path"

record indexer_report =
  ir_p50 :: rat
  ir_p95 :: rat
  ir_p99 :: rat
  ir_max :: rat
  ir_avg :: rat
  ir_files :: nat
  ir_symbols :: nat
  ir_refs :: nat

text \<open>A file that cannot be read or indexed is passed over; \<open>elapsed\<close> is the time one call took.\<close>

fun index_all :: "(grammar \<Rightarrow> parser) \<Rightarrow> (pystr \<Rightarrow> rat) \<Rightarrow> (pystr \<times> pystr outcome) list \<Rightarrow> rat list \<times> nat \<times> nat" where
  "index_all parse elapsed [] = ([], 0, 0)"
| "index_all parse elapsed ((path, content) # files) =
     (case index_all parse elapsed files of (ms, syms, refs) \<Rightarrow>
      (case bind content (index_file parse path) of
         Inl e \<Rightarrow> (ms, syms, refs)
       | Inr (s, r) \<Rightarrow> (elapsed path # ms, length s + syms, length r + refs)))"

definition benchmark_indexer ::
    "(grammar \<Rightarrow> parser) \<Rightarrow> (pystr \<Rightarrow> rat) \<Rightarrow> (pystr \<times> pystr outcome) list \<Rightarrow> indexer_report option outcome" where
  "benchmark_indexer parse elapsed found =
     (let files = filter (\<lambda>f. own_source (fst f)) found in
      case index_all parse elapsed files of (ms, syms, refs) \<Rightarrow>
      if ms = [] then Inr None
      else bind (median ms) (\<lambda>p50. bind (quantiles ms 20) (\<lambda>q20. bind (quantiles ms 100) (\<lambda>q100.
        bind (max_of ms) (\<lambda>m. bind (fmean ms) (\<lambda>avg.
        Inr (Some \<lparr>ir_p50 = p50, ir_p95 = q20 ! 18, ir_p99 = q100 ! 98, ir_max = m, ir_avg = avg,
          ir_files = length ms, ir_symbols = syms, ir_refs = refs\<rparr>)))))))"

section \<open>What the comparison measures\<close>

lemma cpp_has_no_grammar: "languages (file_ext (lit ''src/Cache.cpp'')) = None"
  by code_simp

lemma cpp_reviewable: "is_reviewable_file (lit ''src/Cache.cpp'')"
  by code_simp

text \<open>
  The two contestants do not see the same pull request: the swarm's only chunk is the whole new file under its name, for every
  parser, configuration with a budget and model, since there is no grammar for C++; the diff, which alone
  shows the removed line of the second defect, goes into the single prompt only.
\<close>

theorem swarm_sees_no_diff:
  "build_review_chunks parse cfg fastcache_files = Inr [file_header (lit ''src/Cache.cpp'') @ [NL] @ fastcache_file_content]
   \<and> contains fastcache_diff solo_prompt
   \<and> run_revix_swarm env str_of = Inr (review_chunks env [file_header (lit ''src/Cache.cpp'') @ [NL] @ fastcache_file_content]
       (review_intent str_of [(lit ''title'', PStr pr_title), (lit ''body'', PStr pr_body)]))"
proof -
  have ne: "fastcache_file_content \<noteq> []" "lit ''src/Cache.cpp'' \<noteq> []" by (simp_all add: fastcache_file_content_def lit_def)
  have ranked: "ranked_files fastcache_files = fastcache_files"
    using cpp_reviewable by (simp add: ranked_files_def fastcache_files_def file_name_def py_sorted_rev_def)
  have "file_chunks parse (hd fastcache_files) = Inr (Some [file_header (lit ''src/Cache.cpp'') @ [NL] @ fastcache_file_content])" for parse
    using ne cpp_has_no_grammar
    by (simp add: file_chunks_def fastcache_files_def chunk_by_ast_def get_parser_def non_empty_def)
  then have chunks: "build_review_chunks parse cfg fastcache_files = Inr [file_header (lit ''src/Cache.cpp'') @ [NL] @ fastcache_file_content]" for parse cfg
    by (simp add: build_review_chunks_def ranked Let_def) (simp add: fastcache_files_def slice_to_def)
  moreover have "contains fastcache_diff solo_prompt"
    by (simp add: solo_prompt_def contains_append1 contains_append2)
  ultimately show ?thesis by (simp add: run_revix_swarm_def analyze_diff_def)
qed

text \<open>
  The verdict is by words: whatever else a review says, one with \<open>shared_lock\<close> and \<open>data race\<close> counts as having found the first
  defect (also one that denies a data race), one with \<open>iterator\<close> and \<open>memory\<close> the second.
\<close>

theorem verdict_by_words:
  assumes "contains (lit ''shared_lock'') (lower review)" "contains (lit ''data race'') (lower review)"
    and "contains (lit ''iterator'') (lower review)" "contains (lit ''memory'') (lower review)"
  shows "detection_score (check_detected_bugs review) = 2"
  using assms by (simp add: check_detected_bugs_def mentions_any_def detection_score_def Let_def)

text \<open>The printed key shows six characters and four; of a key of at most ten characters that is all of it.\<close>

lemma mask_hides_middle:
  "length a = 6 \<Longrightarrow> length b = 4 \<Longrightarrow> masked_key (a @ x @ b) = a @ lit ''...'' @ b"
  by (simp add: masked_key_def)

theorem short_key_is_printed:
  assumes "4 \<le> length key" "length key \<le> 10"
  shows "\<exists>u v w. key = u @ v @ w \<and> take 6 key = u @ v \<and> drop (length key - 4) key = v @ w"
proof -
  let ?k = "length key - 4"
  have le: "?k \<le> 6" using assms by simp
  have "take 6 key = take ?k key @ take (6 - ?k) (drop ?k key)"
    using le by (metis le_add_diff_inverse take_add)
  moreover have "drop ?k key = take (6 - ?k) (drop ?k key) @ drop 6 key"
    using le by (metis append_take_drop_id drop_drop le_add_diff_inverse2)
  moreover have "key = take ?k key @ drop ?k key" by simp
  ultimately show ?thesis by metis
qed

text \<open>The indexer benchmark needs two files: one measured file makes the quantiles raise.\<close>

theorem one_file_has_no_quantiles:
  assumes "filter (\<lambda>f. own_source (fst f)) found = [(path, Inr source)]" "index_file parse path source = Inr (s, r)"
  shows "\<exists>e. benchmark_indexer parse elapsed found = Inl e"
  using assms by (simp add: benchmark_indexer_def median_def quantiles_def statistics_error_def raise_exn_def Let_def)

end
