(* ===== verification/PostReview.thy ===== *)
theory PostReview
  imports DiffLines Findings
begin

text \<open>
  \<open>scripts/post_github_review.py\<close>: a stored review is posted to a pull request through the GitHub
  CLI. The parser of \<open>gh pr diff\<close> is proved exact on the diffs it is written for; the comments it lets
  through, the calls made and the exit code are characterised. What \<open>gh\<close> answers is an argument, which
  knows the calls before it; printing is left out.
\<close>

section \<open>The lines of the diff\<close>

text \<open>\<open>re.search(r"\+(\d+)(?:,(\d+))?", line)\<close>: the leftmost plus sign before a decimal digit.\<close>

definition second_count :: "pystr \<Rightarrow> pystr option" where
  "second_count r = (case r of [] \<Rightarrow> None
     | c # t \<Rightarrow> if c = 44 then map_option fst (digits1 t) else None)"

fun search_range :: "pystr \<Rightarrow> (pystr \<times> pystr option) option" where
  "search_range [] = None"
| "search_range (c # s) =
     (if c = 43 then (case digits1 s of Some (d, r) \<Rightarrow> Some (d, second_count r) | None \<Rightarrow> search_range s)
      else search_range s)"

definition new_range :: "pystr \<Rightarrow> (int \<times> int) option" where
  "new_range line = Option.bind (search_range line) (\<lambda>(d, k).
     Option.bind (py_int d) (\<lambda>start.
     Option.bind (case k of None \<Rightarrow> Some 1 | Some c \<Rightarrow> py_int c) (\<lambda>count.
     Some (start, count))))"

definition range_lines :: "pystr \<Rightarrow> int \<times> int \<Rightarrow> (pystr \<times> int) set" where
  "range_lines path r = set (map (\<lambda>n. (path, n)) [fst r..fst r + snd r - 1])"

definition diff_entry :: "pystr option \<times> (pystr \<times> int) set \<Rightarrow> pystr \<Rightarrow> pystr option \<times> (pystr \<times> int) set" where
  "diff_entry st line = (case st of (current, found) \<Rightarrow>
     if starts (lit ''+++ b/'') line then (Some (drop 6 line), found)
     else if starts (lit ''@@ '') line \<and> current \<noteq> None \<and> current \<noteq> Some []
     then (case new_range line of None \<Rightarrow> (current, found)
       | Some r \<Rightarrow> (current, found \<union> range_lines (the current) r))
     else (current, found))"

definition diff_lines_of :: "pystr \<Rightarrow> (pystr \<times> int) set" where
  "diff_lines_of stdout = snd (foldl diff_entry (None, {}) (split_on NL stdout))"

section \<open>Calling the command line tool\<close>

text \<open>A call sees its arguments and what the payload file holds then.\<close>

record gh_call =
  gc_args :: "pystr list"
  gc_payload :: "pydict option"

record shell =
  sh_calls :: "gh_call list"
  sh_payload :: "pydict option"

type_synonym gh = "gh_call list \<Rightarrow> gh_call \<Rightarrow> (int \<times> pystr) outcome"

definition run_gh :: "gh \<Rightarrow> pystr list \<Rightarrow> shell \<Rightarrow> (int \<times> pystr) outcome \<times> shell" where
  "run_gh gh args st = (let call = \<lparr>gc_args = args, gc_payload = sh_payload st\<rparr> in
     (gh (sh_calls st) call, st\<lparr>sh_calls := sh_calls st @ [call]\<rparr>))"

definition diff_args :: "pystr \<Rightarrow> int \<Rightarrow> pystr list" where
  "diff_args repo pr = [lit ''gh'', lit ''pr'', lit ''diff'', str_int pr, lit ''-R'', repo]"

definition get_diff_lines :: "gh \<Rightarrow> pystr \<Rightarrow> int \<Rightarrow> shell \<Rightarrow> (pystr \<times> int) set outcome \<times> shell" where
  "get_diff_lines gh repo pr st = (case run_gh gh (diff_args repo pr) st of (r, st') \<Rightarrow>
     (bind r (\<lambda>(code, out). Inr (if code \<noteq> 0 then {} else diff_lines_of out)), st'))"

section \<open>The payload\<close>

text \<open>Dynamic operations on the stored document: \<open>d.get(k, default)\<close>, a loop, a string method, \<open>x < 80\<close>.\<close>

definition get_or :: "pydict \<Rightarrow> string \<Rightarrow> pyval \<Rightarrow> pyval" where
  "get_or d k v = (case map_of d (lit k) of None \<Rightarrow> v | Some x \<Rightarrow> x)"

definition items_of :: "pyval \<Rightarrow> pyval list outcome" where
  "items_of v = (case v of PList xs \<Rightarrow> Inr xs | PStr s \<Rightarrow> Inr (map (\<lambda>c. PStr [c]) s)
     | PDict d \<Rightarrow> Inr (map (PStr \<circ> fst) d) | _ \<Rightarrow> raise_exn TypeError (lit ''object is not iterable''))"

definition text_of :: "pyval \<Rightarrow> pystr outcome" where
  "text_of v = (case v of PStr s \<Rightarrow> Inr s | _ \<Rightarrow> raise_exn AttributeError (lit ''object is no str''))"

definition getter :: "pyval \<Rightarrow> string \<Rightarrow> pyval \<Rightarrow> pyval outcome" where
  "getter v k dflt = (case v of PDict d \<Rightarrow> Inr (get_or d k dflt)
     | _ \<Rightarrow> raise_exn AttributeError (lit ''object has no attribute get''))"

definition below_80 :: "pyval \<Rightarrow> bool outcome" where
  "below_80 v = (case v of PInt n \<Rightarrow> Inr (n < 80) | PBool b \<Rightarrow> Inr True
     | PFloat (Finite m e) \<Rightarrow> Inr (if 0 \<le> e then m * 2 ^ nat e < 80 else m < 80 * 2 ^ nat (- e))
     | PFloat (Infinite negative) \<Rightarrow> Inr negative | PFloat NaN \<Rightarrow> Inr False
     | _ \<Rightarrow> raise_exn TypeError (lit ''not supported between instances''))"

text \<open>One row of the table of findings.\<close>

definition table_row :: "(pyval \<Rightarrow> pystr) \<Rightarrow> pyval \<Rightarrow> pystr outcome" where
  "table_row str_of c =
     bind (subscript c (lit ''severity'')) (\<lambda>sev.
     let icon = (if sev = PStr (lit ''CRITICAL'') then [128680]
       else if sev = PStr (lit ''WARNING'') then [9888, 65039] else [8505, 65039]) in
     bind (bind (subscript c (lit ''body'')) text_of) (\<lambda>body.
     bind (subscript c (lit ''path'')) (\<lambda>path.
     bind (subscript c (lit ''line'')) (\<lambda>line.
     Inr (lit ''| '' @ icon @ lit '' **'' @ show_field str_of sev @ lit ''** | `'' @ show_field str_of path @ lit '':''
       @ show_field str_of line @ lit ''` | '' @ slice_to 160 (replace [NL] (lit '' '') body) @ lit ''... |'')))))"

definition code_fence :: pystr where "code_fence = [96, 96, 96]"

definition bare_fix :: "pystr \<Rightarrow> pystr" where
  "bare_fix fix = replace (lit ''cpp'' @ [NL]) [] (strip_char 96 fix)"

text \<open>Four recommended fixes at most, numbered from 1.\<close>

definition fix_lines :: "(pyval \<Rightarrow> pystr) \<Rightarrow> nat \<times> pyval \<Rightarrow> pystr list outcome" where
  "fix_lines str_of ic = (case ic of (i, c) \<Rightarrow>
     bind (subscript c (lit ''path'')) (\<lambda>path.
     bind (subscript c (lit ''line'')) (\<lambda>line.
     bind (subscript c (lit ''severity'')) (\<lambda>sev.
     bind (subscript c (lit ''body'')) (\<lambda>body.
     bind (bind (subscript c (lit ''suggested_fix'')) text_of) (\<lambda>fix.
     Inr [lit ''#### '' @ str_int (int i) @ lit ''. `'' @ show_field str_of path @ lit '':'' @ show_field str_of line
            @ lit ''` ('' @ show_field str_of sev @ lit '')'',
          show_field str_of body @ [NL], code_fence @ lit ''cpp'', bare_fix fix, code_fence @ [NL]]))))))"

definition wants_fix :: "pyval \<Rightarrow> bool outcome" where
  "wants_fix c = bind (getter c ''suggested_fix'' PNone) (\<lambda>v. Inr (truthy v))"

definition with_fix :: "pyval list \<Rightarrow> pyval list outcome" where
  "with_fix cs = bind (each wants_fix cs) (\<lambda>bs. Inr (map snd (filter fst (zip bs cs))))"

definition review_body :: "(pyval \<Rightarrow> pystr) \<Rightarrow> pyval \<Rightarrow> pyval \<Rightarrow> pyval list \<Rightarrow> pystr outcome" where
  "review_body str_of score summary cs =
     bind (below_80 score) (\<lambda>low.
     let status = (if low then [10060] @ lit '' BLOCKING: REQUEST CHANGES'' else [9989] @ lit '' APPROVED'');
         head_lines = [lit ''### '' @ [128269] @ lit '' Revix Enterprise Swarm Code Review'',
           lit ''**Quality Score: `'' @ show_field str_of score @ lit ''/100`** '' @ [8212] @ lit '' **'' @ status @ lit ''**'',
           [], lit ''#### Executive Summary'', show_field str_of summary, [],
           lit ''### '' @ [128203] @ lit '' Full Review Findings Table'',
           lit ''| Severity | File:Line | Description |'', lit ''| :--- | :--- | :--- |''] in
     bind (each (table_row str_of) cs) (\<lambda>rows.
     bind (with_fix cs) (\<lambda>fixes.
     bind (each (fix_lines str_of) (enumerate 1 (slice_to 4 fixes))) (\<lambda>blocks.
     Inr (join [NL] (head_lines @ rows
       @ (if fixes = [] then [] else [[], lit ''### '' @ [128736, 65039] @ lit '' Key Recommended Fixes''] @ concat blocks)))))))"

text \<open>A member of a set has to be hashable.\<close>

definition hashable :: "pyval \<Rightarrow> unit outcome" where
  "hashable v = (case v of PList xs \<Rightarrow> raise_exn TypeError (lit ''unhashable type'')
     | PDict d \<Rightarrow> raise_exn TypeError (lit ''unhashable type'') | _ \<Rightarrow> Inr ())"

text \<open>A finding becomes an inline comment when its place is in the diff, or when no place is known.\<close>

definition inline_comment :: "(pyval \<Rightarrow> pystr) \<Rightarrow> (pyval \<times> int) set \<Rightarrow> pyval \<Rightarrow> pydict option outcome" where
  "inline_comment str_of valid c =
     bind (bind (subscript c (lit ''line'')) to_int) (\<lambda>line_num.
     bind (subscript c (lit ''path'')) (\<lambda>path.
     bind (hashable path) (\<lambda>_.
     if (path, line_num) \<in> valid \<or> valid = {} then
       bind (subscript c (lit ''severity'')) (\<lambda>sev.
       bind (subscript c (lit ''body'')) (\<lambda>body.
       bind (wants_fix c) (\<lambda>fixed.
       bind (if fixed then bind (bind (subscript c (lit ''suggested_fix'')) text_of) (\<lambda>fix.
           Inr ([NL, NL] @ code_fence @ lit ''suggestion'' @ [NL] @ strip (bare_fix fix) @ [NL] @ code_fence)) else Inr []) (\<lambda>suggestion.
       bind (getter c ''side'' (PStr (lit ''RIGHT''))) (\<lambda>side.
       Inr (Some [(lit ''path'', path), (lit ''line'', PInt line_num), (lit ''side'', side),
         (lit ''body'', PStr (lit ''**['' @ show_field str_of sev @ lit '']** '' @ show_field str_of body @ suggestion))]))))))
     else Inr None)))"

definition script_payload :: "(pyval \<Rightarrow> pystr) \<Rightarrow> pyval \<Rightarrow> pyval \<Rightarrow> pyval list \<Rightarrow> (pystr \<times> int) set \<Rightarrow> pydict outcome" where
  "script_payload str_of score summary cs valid =
     bind (review_body str_of score summary cs) (\<lambda>body.
     bind (each (inline_comment str_of ((\<lambda>(p, n). (PStr p, n)) ` valid)) cs) (\<lambda>found.
     Inr [(lit ''body'', PStr body), (lit ''event'', PStr (lit ''COMMENT'')),
       (lit ''comments'', PList (map PDict (concat (map (\<lambda>x. case x of None \<Rightarrow> [] | Some d \<Rightarrow> [d]) found))))]))"

section \<open>Posting\<close>

definition api_args :: "pystr \<Rightarrow> int \<Rightarrow> pystr \<Rightarrow> pystr list" where
  "api_args repo pr file = [lit ''gh'', lit ''api'', lit ''repos/'' @ repo @ lit ''/pulls/'' @ str_int pr @ lit ''/reviews'',
     lit ''--input'', file]"

text \<open>The exit code of the process: a failed fallback exits with 1.\<close>

definition submit :: "gh \<Rightarrow> pystr list \<Rightarrow> pydict \<Rightarrow> shell \<Rightarrow> int outcome \<times> shell" where
  "submit gh args payload st = (case run_gh gh args (st\<lparr>sh_payload := Some payload\<rparr>) of
     (Inl e, st1) \<Rightarrow> (Inl e, st1)
   | (Inr (code, _), st1) \<Rightarrow>
       if code = 0 then (Inr 0, st1)
       else (case run_gh gh args (st1\<lparr>sh_payload := Some (dict_set payload (lit ''comments'') (PList []))\<rparr>) of
           (Inl e, st2) \<Rightarrow> (Inl e, st2)
         | (Inr (code2, _), st2) \<Rightarrow> (Inr (if code2 = 0 then 0 else 1), st2)))"

definition post_with_gh :: "gh \<Rightarrow> (pyval \<Rightarrow> pystr) \<Rightarrow> pystr \<Rightarrow> pystr \<Rightarrow> int \<Rightarrow> pyval \<Rightarrow> shell \<Rightarrow> int outcome \<times> shell" where
  "post_with_gh gh str_of payload_file repo pr data st =
     (case bind (getter data ''score'' (PInt 0)) (\<lambda>score. bind (getter data ''summary'' (PStr [])) (\<lambda>summary.
        bind (getter data ''comments'' (PList [])) (\<lambda>comments. Inr (score, summary, comments)))) of
       Inl e \<Rightarrow> (Inl e, st)
     | Inr (score, summary, comments) \<Rightarrow> (case get_diff_lines gh repo pr st of
         (Inl e, st1) \<Rightarrow> (Inl e, st1)
       | (Inr valid, st1) \<Rightarrow> (case bind (items_of comments) (\<lambda>cs. script_payload str_of score summary cs valid) of
           Inl e \<Rightarrow> (Inl e, st1)
         | Inr payload \<Rightarrow> submit gh (api_args repo pr payload_file) payload st1)))"

text \<open>\<open>main\<close> with the arguments parsed: no stored review, exit code 1; else \<open>json.load\<close> of it.\<close>

definition post_main :: "gh \<Rightarrow> (pyval \<Rightarrow> pystr) \<Rightarrow> pystr \<Rightarrow> pyval outcome option \<Rightarrow> pystr \<Rightarrow> int \<Rightarrow> shell \<Rightarrow> int outcome \<times> shell" where
  "post_main gh str_of payload_file stored repo pr st = (case stored of None \<Rightarrow> (Inr 1, st)
     | Some r \<Rightarrow> (case r of Inl e \<Rightarrow> (Inl e, st) | Inr data \<Rightarrow> post_with_gh gh str_of payload_file repo pr data st))"

section \<open>Reading a diff\<close>

text \<open>
  A diff of several files: per file some heading lines, the name of the new file, and hunks. The heading of
  a hunk gives the length of its new side.
\<close>

record file_diff =
  fd_heading :: "pystr list"
  fd_path :: pystr
  fd_hunks :: "hunk list"

definition render_file :: "file_diff \<Rightarrow> pystr list" where
  "render_file f = fd_heading f @ [lit ''+++ b/'' @ fd_path f] @ concat (map render_hunk (fd_hunks f))"

definition render_diff :: "file_diff list \<Rightarrow> pystr" where
  "render_diff fs = concat (map (\<lambda>l. l @ [NL]) (concat (map render_file fs)))"

definition plain :: "pystr \<Rightarrow> bool" where
  "plain l \<longleftrightarrow> NL \<notin> set l \<and> \<not> starts (lit ''+++ b/'') l \<and> \<not> starts (lit ''@@ '') l"

definition new_length :: "hunk \<Rightarrow> int" where
  "new_length h = (case new_count h of None \<Rightarrow> 1 | Some n \<Rightarrow> n)"

definition shown_hunk :: "hunk \<Rightarrow> bool" where
  "shown_hunk h \<longleftrightarrow> 0 \<le> old_start h \<and> 0 \<le> new_start h \<and> (\<forall>n. old_count h = Some n \<longrightarrow> 0 \<le> n)
     \<and> new_length h = int (length (filter in_new (hunk_lines h)))
     \<and> NL \<notin> set (hunk_section h) \<and> list_all (\<lambda>l. plain (render_line l)) (hunk_lines h)"

definition shown_file :: "file_diff \<Rightarrow> bool" where
  "shown_file f \<longleftrightarrow> fd_path f \<noteq> [] \<and> NL \<notin> set (fd_path f) \<and> list_all plain (fd_heading f) \<and> list_all shown_hunk (fd_hunks f)"

text \<open>The lines of the new file a hunk shows, at the positions of its context and added lines.\<close>

definition shown_lines :: "hunk \<Rightarrow> int set" where
  "shown_lines h = {line_at h i |i. i < length (hunk_lines h) \<and> in_new (hunk_lines h ! i)}"

lemma new_positions:
  "{s + int (length (filter p (take i xs))) |i. i < length xs \<and> p (xs ! i)} = {s..<s + int (length (filter p xs))}"
proof (induction xs arbitrary: s)
  case (Cons x xs)
  let ?f = "\<lambda>s i. s + int (length (filter p (take i xs)))"
  let ?s = "if p x then s + 1 else s"
  have "{s + int (length (filter p (take i (x # xs)))) |i. i < length (x # xs) \<and> p ((x # xs) ! i)}
      = (if p x then {s} else {}) \<union> {?f ?s i |i. i < length xs \<and> p (xs ! i)}" (is "?lhs = ?rhs")
  proof (intro set_eqI iffI)
    fix n assume "n \<in> ?lhs"
    then obtain i where i: "n = s + int (length (filter p (take i (x # xs))))" "i < length (x # xs)" "p ((x # xs) ! i)"
      by blast
    then show "n \<in> ?rhs" by (cases i) auto
  next
    fix n assume "n \<in> ?rhs"
    then consider "p x" "n = s" | i where "n = ?f ?s i" "i < length xs" "p (xs ! i)"
      by (auto split: if_splits)
    then show "n \<in> ?lhs"
    proof cases
      case 1
      then show ?thesis by (intro CollectI exI [of _ 0]) simp
    next
      case 2
      then show ?thesis by (intro CollectI exI [of _ "Suc i"]) simp
    qed
  qed
  then show ?case by (simp only: Cons.IH) auto
qed simp

lemma shown_lines_interval:
  "shown_hunk h \<Longrightarrow> shown_lines h = {new_start h..<new_start h + new_length h}"
  using new_positions [of "new_start h" in_new "hunk_lines h"] by (simp add: shown_lines_def line_at_def shown_hunk_def)

lemma search_range_skip: "43 \<notin> set p \<Longrightarrow> search_range (p @ s) = search_range s"
  by (induction p) auto

lemma second_count_render:
  assumes "\<forall>n. k = Some n \<longrightarrow> 0 \<le> n" "r = 32 # t"
  shows "second_count (render_count k @ r) = map_option str_int k"
proof (cases k)
  case (Some n)
  then have "digits1 (str_int n @ r) = Some (str_int n, r)"
    using assms by (intro digits1_str_int) (auto simp: not_dec_low)
  with Some show ?thesis by (simp add: render_count_def second_count_def)
qed (simp add: assms(2) render_count_def second_count_def)

lemma str_int_no_plus: "0 \<le> n \<Longrightarrow> 43 \<notin> set (str_int n)"
  by (auto simp: str_int_def dest: digits_of_range)

lemma new_range_header:
  assumes "shown_hunk h"
  shows "new_range (render_header h) = Some (new_start h, new_length h)"
proof -
  have num: "0 \<le> old_start h" "0 \<le> new_start h" "\<forall>n. old_count h = Some n \<longrightarrow> 0 \<le> n"
    "\<forall>n. new_count h = Some n \<longrightarrow> 0 \<le> n"
    using assms by (auto simp: shown_hunk_def new_length_def)
  define rest where "rest = 32 # 64 # 64 # hunk_section h"
  have eq: "render_header h = (lit ''@@ -'' @ str_int (old_start h) @ render_count (old_count h) @ [32])
      @ 43 # str_int (new_start h) @ render_count (new_count h) @ rest"
    by (simp add: render_header_def rest_def lit_def)
  have "43 \<notin> set (lit ''@@ -'' @ str_int (old_start h) @ render_count (old_count h) @ [32])"
    using num str_int_no_plus by (auto simp: render_count_def lit_def split: option.splits)
  then have "search_range (render_header h) = search_range (43 # str_int (new_start h) @ render_count (new_count h) @ rest)"
    unfolding eq by (rule search_range_skip)
  moreover have "digits1 (str_int (new_start h) @ render_count (new_count h) @ rest)
      = Some (str_int (new_start h), render_count (new_count h) @ rest)"
    using num by (intro digits1_str_int) (auto simp: rest_def render_count_def not_dec_low split: option.splits)
  moreover have "second_count (render_count (new_count h) @ rest) = map_option str_int (new_count h)"
    using num by (intro second_count_render) (auto simp: rest_def)
  ultimately show ?thesis
    by (simp add: new_range_def py_int_str_int new_length_def split: option.split)
qed

lemma range_lines_eq: "range_lines path (s, k) = Pair path ` {s..<s + k}"
  by (auto simp: range_lines_def)

lemma diff_entry_plain: "plain l \<Longrightarrow> diff_entry st l = st"
  by (cases st) (simp add: diff_entry_def plain_def)

lemma diff_entry_plains: "list_all plain ls \<Longrightarrow> foldl diff_entry st ls = st"
  by (induction ls arbitrary: st) (simp_all add: diff_entry_plain)

lemma diff_entry_header:
  assumes "shown_hunk h" "path \<noteq> []"
  shows "diff_entry (Some path, found) (render_header h) = (Some path, found \<union> Pair path ` shown_lines h)"
proof -
  have "starts (lit ''@@ '') (render_header h)" "\<not> starts (lit ''+++ b/'') (render_header h)"
    by (simp_all add: render_header_def lit_def starts_def)
  then show ?thesis
    using assms by (simp add: diff_entry_def new_range_header range_lines_eq shown_lines_interval)
qed

lemma diff_entry_hunks:
  assumes "list_all shown_hunk hs" "path \<noteq> []"
  shows "foldl diff_entry (Some path, found) (concat (map render_hunk hs))
    = (Some path, found \<union> (\<Union>h \<in> set hs. Pair path ` shown_lines h))"
  using assms(1)
proof (induction hs arbitrary: found)
  case (Cons h hs)
  then have "list_all plain (map render_line (hunk_lines h))" by (simp add: shown_hunk_def list_all_iff)
  with Cons assms(2) show ?case
    by (simp add: render_hunk_def diff_entry_header diff_entry_plains Un_assoc)
qed simp

definition shown_places :: "file_diff \<Rightarrow> (pystr \<times> int) set" where
  "shown_places f = (\<Union>h \<in> set (fd_hunks f). Pair (fd_path f) ` shown_lines h)"

lemma diff_entry_file:
  assumes "shown_file f"
  shows "foldl diff_entry (cur, found) (render_file f) = (Some (fd_path f), found \<union> shown_places f)"
proof -
  have "diff_entry (cur, found) (lit ''+++ b/'' @ fd_path f) = (Some (fd_path f), found)"
    by (simp add: diff_entry_def) (simp add: lit_def)
  then show ?thesis
    using assms diff_entry_hunks [of "fd_hunks f" "fd_path f" found]
    by (simp add: render_file_def shown_file_def diff_entry_plains shown_places_def)
qed

lemma diff_entry_files:
  "list_all shown_file fs \<Longrightarrow> snd (foldl diff_entry (cur, found) (concat (map render_file fs))) = found \<union> (\<Union>f \<in> set fs. shown_places f)"
  by (induction fs arbitrary: cur found) (simp_all add: diff_entry_file Un_assoc)

lemma split_on_line: "c \<notin> set l \<Longrightarrow> split_on c (l @ c # s) = l # split_on c s"
  by (induction l) simp_all

lemma split_on_lines: "(\<And>l. l \<in> set ls \<Longrightarrow> c \<notin> set l) \<Longrightarrow> split_on c (concat (map (\<lambda>l. l @ [c]) ls)) = ls @ [[]]"
proof (induction ls)
  case (Cons l ls)
  then show ?case using split_on_line [of c l] by auto
qed simp

lemma str_int_no_break: "NL \<notin> set (str_int n)"
  using one_line_str_int [of n] is_line_break_NL unfolding one_line_def list_all_iff by blast

lemma render_file_lines:
  assumes "shown_file f" "l \<in> set (render_file f)"
  shows "NL \<notin> set l"
proof -
  have "NL \<notin> set (render_header h)" if "shown_hunk h" for h
    using that str_int_no_break by (auto simp: render_header_def shown_hunk_def render_count_def lit_def split: option.splits)
  with assms show ?thesis
    by (auto simp: render_file_def shown_file_def render_hunk_def list_all_iff plain_def shown_hunk_def lit_def)
qed

text \<open>
  C38. The script knows exactly the lines the diff shows: of any diff of any number of files in unified
  format, with \<open>gh\<close> answering it, \<open>get_diff_lines\<close> returns the lines of each new file that stand in its hunks, context
  and additions, and no other; so a comment on any of them, and on no other line, can be placed.
\<close>

theorem get_diff_lines_exact:
  assumes "list_all shown_file fs"
  shows "diff_lines_of (render_diff fs) = (\<Union>f \<in> set fs. shown_places f)"
proof -
  have "split_on NL (render_diff fs) = concat (map render_file fs) @ [[]]"
    unfolding render_diff_def using assms by (intro split_on_lines) (auto simp: list_all_iff dest: render_file_lines)
  moreover have "diff_entry st [] = st" for st by (rule diff_entry_plain) (simp add: plain_def starts_def lit_def)
  ultimately show ?thesis using diff_entry_files [OF assms, of None "{}"] by (simp add: diff_lines_of_def)
qed

text \<open>
  The side condition matters: an added source line that itself begins with \<open>++ b/\<close> is read as the name of a new file,
  and the hunks after it are attributed to that name. Here line 12 of \<open>a.c\<close> becomes line 12 of \<open>x\<close>.
\<close>

definition one_line_hunk :: "int \<Rightarrow> int \<Rightarrow> pystr \<Rightarrow> hunk" where
  "one_line_hunk m n s = \<lparr>old_start = m, old_count = None, new_start = n, new_count = None, hunk_section = [],
     hunk_lines = [Add s]\<rparr>"

definition tricky_lines :: "pystr list" where
  "tricky_lines = [lit ''+++ b/a.c'', render_header (one_line_hunk 1 1 []), render_line (Add (lit ''++ b/x'')),
     render_header (one_line_hunk 11 12 [])]"

theorem added_line_taken_for_file_name:
  "diff_lines_of (concat (map (\<lambda>l. l @ [NL]) tricky_lines)) = {(lit ''a.c'', 1), (lit ''x'', 12)}"
proof -
  have shown: "shown_hunk (one_line_hunk m n (lit ''y''))" if "0 \<le> m" "0 \<le> n" for m n
    using that by (simp add: one_line_hunk_def shown_hunk_def new_length_def plain_def starts_def lit_def)
  have header: "render_header (one_line_hunk m n s) = render_header (one_line_hunk m n t)" for m n s t
    by (simp add: render_header_def one_line_hunk_def)
  have range: "new_range (render_header (one_line_hunk 1 1 [])) = Some (1, 1)"
    "new_range (render_header (one_line_hunk 11 12 [])) = Some (12, 1)"
    using new_range_header [OF shown, of 1 1] new_range_header [OF shown, of 11 12] header [of _ _ "[]" "lit ''y''"]
    by (simp_all add: one_line_hunk_def new_length_def)
  have entry: "diff_entry (Some p, found) (render_header h) = (Some p, found \<union> range_lines p r)"
    if "new_range (render_header h) = Some r" "p \<noteq> []" for p found h r
  proof -
    have "starts (lit ''@@ '') (render_header h)" "\<not> starts (lit ''+++ b/'') (render_header h)"
      by (simp_all add: render_header_def lit_def starts_def)
    with that show ?thesis by (simp add: diff_entry_def)
  qed
  have name: "diff_entry (cur, found) (lit ''+++ b/'' @ p) = (Some p, found)" for cur found p
    by (simp add: diff_entry_def) (simp add: lit_def)
  have lines: "tricky_lines = [lit ''+++ b/'' @ lit ''a.c'', render_header (one_line_hunk 1 1 []),
      lit ''+++ b/'' @ lit ''x'', render_header (one_line_hunk 11 12 [])]"
    by (simp add: tricky_lines_def lit_def)
  have "NL \<notin> set l" if "l \<in> set tricky_lines" for l
    using that str_int_no_break by (auto simp: tricky_lines_def one_line_hunk_def render_header_def render_count_def lit_def)
  then have "split_on NL (concat (map (\<lambda>l. l @ [NL]) tricky_lines)) = tricky_lines @ [[]]"
    by (rule split_on_lines)
  moreover have "diff_entry st [] = st" for st by (rule diff_entry_plain) (simp add: plain_def starts_def lit_def)
  moreover have "lit ''a.c'' \<noteq> []" "lit ''x'' \<noteq> []" by (simp_all add: lit_def)
  ultimately show ?thesis
    by (simp add: diff_lines_of_def lines name entry range) (auto simp: range_lines_def)
qed

section \<open>Posting a finished review\<close>

lemma each_Inr_ex: "(\<And>x. x \<in> set xs \<Longrightarrow> \<exists>y. f x = Inr y) \<Longrightarrow> \<exists>ys. each f xs = Inr ys"
proof (induction xs)
  case (Cons x xs)
  then obtain y ys where "f x = Inr y" "each f xs = Inr ys" by (metis list.set_intros)
  then show ?case by simp
qed simp

definition fixable :: "review_comment \<Rightarrow> bool" where
  "fixable c \<longleftrightarrow> rc_suggested_fix c \<noteq> None \<and> rc_suggested_fix c \<noteq> Some []"

lemma dump_fields [simp]:
  "subscript (dump_comment c) (lit ''path'') = Inr (PStr (rc_path c))"
  "subscript (dump_comment c) (lit ''line'') = Inr (PInt (rc_line c))"
  "subscript (dump_comment c) (lit ''body'') = Inr (PStr (rc_body c))"
  "subscript (dump_comment c) (lit ''severity'') = Inr (PStr (severity_text (rc_severity c)))"
  "subscript (dump_comment c) (lit ''suggested_fix'') = Inr (str_or_none (rc_suggested_fix c))"
  "getter (dump_comment c) ''side'' v = Inr (PStr (side_text (rc_side c)))"
  "getter (dump_comment c) ''suggested_fix'' v = Inr (str_or_none (rc_suggested_fix c))"
  by (simp_all add: dump_comment_def subscript_def dict_item_def getter_def get_or_def lit_def)

lemma wants_fix_dump [simp]: "wants_fix (dump_comment c) = Inr (fixable c)"
  by (auto simp: wants_fix_def fixable_def str_or_none_def split: option.split)

lemma with_fix_dump: "with_fix (map dump_comment cs) = Inr (map dump_comment (filter fixable cs))"
proof -
  have "each wants_fix (map dump_comment cs) = Inr (map fixable cs)"
    by (induction cs) simp_all
  moreover have "map snd (filter fst (zip (map fixable cs) (map dump_comment cs))) = map dump_comment (filter fixable cs)"
    by (induction cs) simp_all
  ultimately show ?thesis by (simp add: with_fix_def)
qed

lemma table_row_dump: "\<exists>row. table_row str_of (dump_comment c) = Inr row"
  by (simp add: table_row_def Let_def text_of_def)

lemma fix_lines_dump: "fixable c \<Longrightarrow> \<exists>ls. fix_lines str_of (i, dump_comment c) = Inr ls"
  by (auto simp: fix_lines_def text_of_def str_or_none_def fixable_def split: option.split)

lemma review_body_dump: "\<exists>body. review_body str_of (PInt n) v (map dump_comment cs) = Inr body"
proof -
  obtain rows where rows: "each (table_row str_of) (map dump_comment cs) = Inr rows"
    using each_Inr_ex [of "map dump_comment cs" "table_row str_of"] table_row_dump by auto
  have all: "\<exists>ls. fix_lines str_of ic = Inr ls"
    if "ic \<in> set (enumerate 1 (slice_to 4 (map dump_comment (filter fixable cs))))" for ic
  proof -
    from that have "snd ic \<in> set (map snd (enumerate 1 (slice_to 4 (map dump_comment (filter fixable cs)))))"
      by (metis image_eqI set_map)
    then have "snd ic \<in> set (slice_to 4 (map dump_comment (filter fixable cs)))" by simp
    then have "snd ic \<in> set (map dump_comment (filter fixable cs))" using set_slice_to by (rule subsetD [rotated])
    then obtain c where "snd ic = dump_comment c" "fixable c" by auto
    then show ?thesis using fix_lines_dump by (metis prod.collapse)
  qed
  obtain blocks
    where "each (fix_lines str_of) (enumerate 1 (slice_to 4 (map dump_comment (filter fixable cs)))) = Inr blocks"
    using each_Inr_ex [of "enumerate 1 (slice_to 4 (map dump_comment (filter fixable cs)))" "fix_lines str_of"] all by blast
  then show ?thesis by (simp add: review_body_def below_80_def rows with_fix_dump Let_def)
qed

text \<open>What GitHub is sent for one finding, and which findings have a place.\<close>

definition inline_json :: "review_comment \<Rightarrow> pydict" where
  "inline_json c = [(lit ''path'', PStr (rc_path c)), (lit ''line'', PInt (rc_line c)),
     (lit ''side'', PStr (side_text (rc_side c))),
     (lit ''body'', PStr (lit ''**['' @ severity_text (rc_severity c) @ lit '']** '' @ rc_body c
       @ (if fixable c then [NL, NL] @ code_fence @ lit ''suggestion'' @ [NL]
            @ strip (bare_fix (the (rc_suggested_fix c))) @ [NL] @ code_fence else [])))]"

definition placed :: "(pystr \<times> int) set \<Rightarrow> review_comment \<Rightarrow> bool" where
  "placed valid c \<longleftrightarrow> valid = {} \<or> (rc_path c, rc_line c) \<in> valid"

lemma inline_comment_dump:
  "inline_comment str_of ((\<lambda>(p, n). (PStr p, n)) ` valid) (dump_comment c)
     = Inr (if placed valid c then Some (inline_json c) else None)"
proof -
  have "(PStr (rc_path c), rc_line c) \<in> (\<lambda>(p, n). (PStr p, n)) ` valid \<longleftrightarrow> (rc_path c, rc_line c) \<in> valid"
    by force
  then show ?thesis
    by (auto simp: inline_comment_def hashable_def placed_def inline_json_def text_of_def fixable_def str_or_none_def
        show_field_def split: option.split)
qed

lemma script_payload_dump:
  "\<exists>body. script_payload str_of (PInt n) v (map dump_comment cs) valid
     = Inr [(lit ''body'', PStr body), (lit ''event'', PStr (lit ''COMMENT'')),
         (lit ''comments'', PList (map (PDict \<circ> inline_json) (filter (placed valid) cs)))]"
proof -
  obtain body where "review_body str_of (PInt n) v (map dump_comment cs) = Inr body" using review_body_dump by blast
  moreover have "each (inline_comment str_of ((\<lambda>(p, n). (PStr p, n)) ` valid)) (map dump_comment cs)
      = Inr (map (\<lambda>c. if placed valid c then Some (inline_json c) else None) cs)"
    by (induction cs) (simp_all add: inline_comment_dump)
  moreover have "map PDict (concat (map (\<lambda>x. case x of None \<Rightarrow> [] | Some d \<Rightarrow> [d])
      (map (\<lambda>c. if placed valid c then Some (inline_json c) else None) cs))) = map (PDict \<circ> inline_json) (filter (placed valid) cs)"
    by (induction cs) simp_all
  ultimately show ?thesis by (simp add: script_payload_def)
qed

definition review_json :: "pystr \<Rightarrow> pyval list \<Rightarrow> pydict" where
  "review_json body cs = [(lit ''body'', PStr body), (lit ''event'', PStr (lit ''COMMENT'')), (lit ''comments'', PList cs)]"

lemma review_json_without: "dict_set (review_json body cs) (lit ''comments'') (PList []) = review_json body []"
  by (simp add: review_json_def) (simp add: lit_def)

definition succeeds :: "gh \<Rightarrow> gh_call list \<Rightarrow> gh_call \<Rightarrow> bool" where
  "succeeds gh calls c \<longleftrightarrow> (case gh calls c of Inl e \<Rightarrow> False | Inr (code, _) \<Rightarrow> code = 0)"

definition places_told :: "gh \<Rightarrow> gh_call list \<Rightarrow> gh_call \<Rightarrow> (pystr \<times> int) set" where
  "places_told gh calls c = (case gh calls c of Inl e \<Rightarrow> {} | Inr (code, out) \<Rightarrow> if code \<noteq> 0 then {} else diff_lines_of out)"

lemma submit_calls:
  assumes answers: "\<And>calls c. \<exists>code out. gh calls c = Inr (code, out)"
    and st: "sh_calls st = calls"
    and posts: "\<And>cs. post cs = \<lparr>gc_args = args, gc_payload = Some (review_json body cs)\<rparr>"
  shows "sh_calls (snd (submit gh args (review_json body cs) st))
      = calls @ [post cs] @ (if succeeds gh calls (post cs) then [] else [post []])
    \<and> fst (submit gh args (review_json body cs) st) = Inr (if succeeds gh calls (post cs)
        \<or> succeeds gh (calls @ [post cs]) (post []) then 0 else 1)"
proof -
  obtain code out where first: "gh calls (post cs) = Inr (code, out)" using answers by blast
  obtain code2 out2 where second: "gh (calls @ [post cs]) (post []) = Inr (code2, out2)" using answers by blast
  show ?thesis
    using first second st
    by (simp add: submit_def run_gh_def Let_def posts [symmetric] review_json_without succeeds_def)
qed

text \<open>
  C39. Posting a finished review: for every review result, whatever \<open>gh\<close> answers, the script asks for the diff, posts
  one review whose inline comments are the findings that stand on a line of the diff, in their order and each with its
  suggestion, and only if that call fails posts the same body once more without comments; it exits with 0
  exactly when one of the two was accepted. (When the diff cannot be had, no line is known and every finding is sent inline.)
\<close>

theorem posted_review:
  assumes answers: "\<And>calls c. \<exists>code out. gh calls c = Inr (code, out)"
  shows "\<exists>body. let result = post_with_gh gh str_of file repo pr (PDict (dump_result r)) st;
      ask = \<lparr>gc_args = diff_args repo pr, gc_payload = sh_payload st\<rparr>;
      valid = places_told gh (sh_calls st) ask;
      post = (\<lambda>cs. \<lparr>gc_args = api_args repo pr file, gc_payload = Some (review_json body cs)\<rparr>);
      inline = map (PDict \<circ> inline_json) (filter (placed valid) (res_comments r));
      calls = sh_calls st @ [ask]
    in sh_calls (snd result) = calls @ [post inline] @ (if succeeds gh calls (post inline) then [] else [post []])
      \<and> fst result = Inr (if succeeds gh calls (post inline) \<or> succeeds gh (calls @ [post inline]) (post []) then 0 else 1)"
proof -
  define ask where "ask = \<lparr>gc_args = diff_args repo pr, gc_payload = sh_payload st\<rparr>"
  define valid where "valid = places_told gh (sh_calls st) ask"
  define st1 where "st1 = st\<lparr>sh_calls := sh_calls st @ [ask]\<rparr>"
  obtain code out where ans: "gh (sh_calls st) ask = Inr (code, out)" using answers by blast
  have told: "get_diff_lines gh repo pr st = (Inr valid, st1)"
    by (simp add: get_diff_lines_def run_gh_def Let_def ask_def [symmetric] ans valid_def places_told_def st1_def)
  obtain body where payload: "script_payload str_of (PInt (res_score r)) (PStr (res_summary r))
      (map dump_comment (res_comments r)) valid
      = Inr (review_json body (map (PDict \<circ> inline_json) (filter (placed valid) (res_comments r))))"
    using script_payload_dump unfolding review_json_def by blast
  have fields: "getter (PDict (dump_result r)) ''score'' (PInt 0) = Inr (PInt (res_score r))"
    "getter (PDict (dump_result r)) ''summary'' (PStr []) = Inr (PStr (res_summary r))"
    "getter (PDict (dump_result r)) ''comments'' (PList []) = Inr (PList (map dump_comment (res_comments r)))"
    by (simp_all add: getter_def get_or_def dump_result_def lit_def)
  have "post_with_gh gh str_of file repo pr (PDict (dump_result r)) st
      = submit gh (api_args repo pr file) (review_json body (map (PDict \<circ> inline_json) (filter (placed valid) (res_comments r)))) st1"
    by (simp add: post_with_gh_def fields told payload items_of_def)
  then show ?thesis
    using submit_calls [OF answers, of st1 "sh_calls st @ [ask]"
        "\<lambda>cs. \<lparr>gc_args = api_args repo pr file, gc_payload = Some (review_json body cs)\<rparr>"]
    by (intro exI [of _ body]) (simp add: Let_def st1_def ask_def [symmetric] valid_def [symmetric])
qed

text \<open>
  What is done to a suggested fix can damage it: \<open>cpp\<close> before a line break is dropped wherever it stands, and the line
  after it becomes part of a comment.
\<close>

theorem fix_loses_a_line_break:
  "bare_fix (lit ''// see lru.cpp'' @ [NL] @ lit ''x = 1;'') = lit ''// see lru.x = 1;''"
  by code_simp

section \<open>The theorems on an example\<close>

definition demo_file :: file_diff where
  "demo_file = \<lparr>fd_heading = [lit ''--- a/c.py''], fd_path = lit ''c.py'', fd_hunks = [\<lparr>old_start = 4, old_count = Some 2,
     new_start = 4, new_count = Some 3, hunk_section = [], hunk_lines = [Ctx (lit ''a''), Del (lit ''b''), Add (lit ''b2''),
       Add (lit ''@@ x'')]\<rparr>]\<rparr>"

theorem get_diff_lines_exact_witness: "diff_lines_of (render_diff [demo_file]) = shown_places demo_file"
  using get_diff_lines_exact [of "[demo_file]"]
  by (simp add: demo_file_def shown_file_def shown_hunk_def new_length_def plain_def starts_def lit_def)

text \<open>A tool that gives an empty diff and refuses every review.\<close>

definition refusing :: gh where
  "refusing calls c = Inr (if calls = [] then 0 else 1, [])"

theorem posted_review_witness:
  "let result = post_with_gh refusing (\<lambda>_. []) (lit ''payload.json'') (lit ''o/r'') 7
       (PDict (dump_result \<lparr>res_summary = lit ''ok'', res_score = 90, res_comments = [], res_agent_reports = []\<rparr>))
       \<lparr>sh_calls = [], sh_payload = None\<rparr>
   in fst result = Inr 1 \<and> length (sh_calls (snd result)) = 3"
  using posted_review [of refusing "\<lambda>_. []" "lit ''payload.json''" "lit ''o/r''" 7
      "\<lparr>res_summary = lit ''ok'', res_score = 90, res_comments = [], res_agent_reports = []\<rparr>"
      "\<lparr>sh_calls = [], sh_payload = None\<rparr>"]
  by (auto simp: refusing_def succeeds_def Let_def)

end
