(* ===== verification/TokenBench.thy ===== *)
theory TokenBench
  imports Stats Swarm
begin

text \<open>
  \<open>scripts/benchmark_tokens.py\<close>: the prompt tokens of diff-scoped chunking against sending whole files, over the files
  of past commits. The answers of \<open>git\<close>, the tokenizer and the model's reported usage are arguments; the figures are
  rational and their layout on the terminal is left out. The lemmas say what the printed totals, the table by touched
  share and the aggregate are, and what the touched share really counts.
\<close>

section \<open>The corpus\<close>

type_synonym git = "pystr list \<Rightarrow> pystr"

definition supported :: "pystr \<Rightarrow> bool" where
  "supported path \<longleftrightarrow> ends (lit ''.py'') path \<or> ends (lit ''.js'') path \<or> ends (lit ''.go'') path"

record corpus_file =
  cf_commit :: pystr
  cf_path :: pystr
  cf_source :: pystr
  cf_patch :: pystr

definition git_show :: "pystr \<Rightarrow> pystr \<Rightarrow> pystr list" where
  "git_show commit path = [lit ''git'', lit ''show'', commit @ lit '':'' @ path]"

definition git_diff :: "pystr \<Rightarrow> pystr \<Rightarrow> pystr list" where
  "git_diff commit path = [lit ''git'', lit ''diff'', lit ''--unified=3'', commit @ lit ''^'', commit, lit ''--'', path]"

text \<open>The files of one commit; \<open>picked\<close> counts those taken.\<close>

fun pick_files :: "git \<Rightarrow> int \<Rightarrow> pystr \<Rightarrow> int \<Rightarrow> pystr list \<Rightarrow> corpus_file list" where
  "pick_files git max_files commit picked [] = []"
| "pick_files git max_files commit picked (path # paths) =
     (if \<not> supported path \<or> max_files \<le> picked then pick_files git max_files commit picked paths
      else let source = git (git_show commit path) in
        if strip source = [] then pick_files git max_files commit picked paths
        else let patch = git (git_diff commit path) in
          if \<not> contains (lit ''@@'') patch then pick_files git max_files commit picked paths
          else \<lparr>cf_commit = slice_to 8 commit, cf_path = path, cf_source = source, cf_patch = patch\<rparr>
            # pick_files git max_files commit (picked + 1) paths)"

definition collect :: "git \<Rightarrow> int \<Rightarrow> int \<Rightarrow> corpus_file list" where
  "collect git max_commits max_files =
     concat (map (\<lambda>commit. pick_files git max_files commit 0
         (words_of (git [lit ''git'', lit ''diff-tree'', lit ''--no-commit-id'', lit ''--name-only'', lit ''-r'', commit])))
       (words_of (git [lit ''git'', lit ''rev-list'', 45 # str_int max_commits, lit ''HEAD''])))"

section \<open>The cost of a file\<close>

definition bench_intent :: pystr where
  "bench_intent = lit ''PR INTENT:'' @ [NL] @ lit ''Refactor and bug-fix pass across the touched modules. ''
     @ lit ''Review for correctness, security and performance regressions.''"

definition bench_messages :: "pystr \<Rightarrow> (pystr \<times> pystr) list" where
  "bench_messages chunk = [(lit ''system'', review_agent_prompt),
     (lit ''user'', bench_intent @ [NL, NL] @ lit ''CODE:'' @ [NL] @ chunk)]"

type_synonym token_counter = "(pystr \<times> pystr) list \<Rightarrow> int"

definition call_cost :: "token_counter \<Rightarrow> int \<Rightarrow> pystr \<Rightarrow> int" where
  "call_cost tokens call_overhead chunk = call_overhead + tokens (bench_messages chunk)"

record token_sample =
  ts_commit :: pystr
  ts_path :: pystr
  ts_baseline :: int
  ts_scoped :: int
  ts_chunks :: nat
  ts_touched_share :: rat

definition file_lines :: "pystr \<Rightarrow> nat" where
  "file_lines source = max (length (filter (\<lambda>c. c = NL) source)) 1"

text \<open>A file without chunks is passed over.\<close>

definition measure_file :: "(grammar \<Rightarrow> parser) \<Rightarrow> token_counter \<Rightarrow> int \<Rightarrow> corpus_file \<Rightarrow> token_sample list outcome" where
  "measure_file parse tokens call_overhead f =
     bind (chunk_by_ast parse (cf_path f) (cf_source f) (cf_patch f)) (\<lambda>chunks.
     if chunks = [] then Inr []
     else Inr [\<lparr>ts_commit = cf_commit f, ts_path = cf_path f,
       ts_baseline = call_cost tokens call_overhead (lit ''FILE: '' @ cf_path f @ [NL] @ cf_source f),
       ts_scoped = sum_list (map (call_cost tokens call_overhead) chunks), ts_chunks = length chunks,
       ts_touched_share = of_nat (card (parse_changed_lines (cf_patch f))) / of_nat (file_lines (cf_source f))\<rparr>])"

section \<open>The figures\<close>

definition baseline_total :: "token_sample list \<Rightarrow> int" where
  "baseline_total ss = sum_list (map ts_baseline ss)"

definition scoped_total :: "token_sample list \<Rightarrow> int" where
  "scoped_total ss = sum_list (map ts_scoped ss)"

text \<open>\<open>100 * (1 - scoped / baseline)\<close>.\<close>

definition reduction :: "int \<Rightarrow> int \<Rightarrow> rat outcome" where
  "reduction scoped baseline = (if baseline = 0 then raise_exn ZeroDivisionError (lit ''division by zero'')
     else Inr (100 * (1 - of_int scoped / of_int baseline)))"

definition share_buckets :: "(pystr \<times> rat \<times> rat) list" where
  "share_buckets = [(lit ''< 5%'', 0, 5 / 100), (lit ''5-15%'', 5 / 100, 15 / 100), (lit ''15-40%'', 15 / 100, 40 / 100),
     (lit ''>= 40%'', 40 / 100, 10 ^ 9)]"

definition in_bucket :: "pystr \<times> rat \<times> rat \<Rightarrow> token_sample \<Rightarrow> bool" where
  "in_bucket b s = (case b of (label, lo, hi) \<Rightarrow> lo \<le> ts_touched_share s \<and> ts_touched_share s < hi)"

record bucket_row =
  br_label :: pystr
  br_files :: nat
  br_baseline :: int
  br_scoped :: int
  br_reduction :: rat

definition bucket_rows :: "token_sample list \<Rightarrow> pystr \<times> rat \<times> rat \<Rightarrow> bucket_row list outcome" where
  "bucket_rows ss b = (let rows = filter (in_bucket b) ss in
     if rows = [] then Inr []
     else bind (reduction (scoped_total rows) (baseline_total rows)) (\<lambda>pct.
       Inr [\<lparr>br_label = fst b, br_files = length rows, br_baseline = baseline_total rows, br_scoped = scoped_total rows,
             br_reduction = pct\<rparr>]))"

text \<open>\<open>sorted(...)[-5:]\<close>, printed from the end.\<close>

definition worst_five :: "token_sample list \<Rightarrow> token_sample list" where
  "worst_five ss = (let ordered = py_sorted (\<lambda>s. ts_scoped s - ts_baseline s) ss in rev (drop (length ordered - 5) ordered))"

record token_report =
  tr_files :: nat
  tr_baseline :: int
  tr_scoped :: int
  tr_reduction :: rat
  tr_median :: rat
  tr_mean :: rat
  tr_best :: rat
  tr_worst :: rat
  tr_cost_more :: nat
  tr_mean_calls :: rat
  tr_buckets :: "bucket_row list"
  tr_worst_five :: "(rat \<times> token_sample) list"

definition figures :: "token_sample list \<Rightarrow> token_report outcome" where
  "figures ss =
     bind (each (\<lambda>s. reduction (ts_scoped s) (ts_baseline s)) ss) (\<lambda>per_file.
     bind (reduction (scoped_total ss) (baseline_total ss)) (\<lambda>agg.
     bind (median per_file) (\<lambda>med.
     bind (fmean per_file) (\<lambda>mean.
     bind (max_of per_file) (\<lambda>best.
     bind (min_of per_file) (\<lambda>worst.
     bind (fmean (map (\<lambda>s. of_nat (ts_chunks s)) ss)) (\<lambda>calls.
     bind (each (bucket_rows ss) share_buckets) (\<lambda>buckets.
     bind (each (\<lambda>s. bind (reduction (ts_scoped s) (ts_baseline s)) (\<lambda>pct. Inr (pct, s))) (worst_five ss)) (\<lambda>bad.
     Inr \<lparr>tr_files = length ss, tr_baseline = baseline_total ss, tr_scoped = scoped_total ss, tr_reduction = agg,
       tr_median = med, tr_mean = mean, tr_best = best, tr_worst = worst,
       tr_cost_more = length (filter (\<lambda>s. ts_baseline s \<le> ts_scoped s) ss), tr_mean_calls = calls,
       tr_buckets = concat buckets, tr_worst_five = bad\<rparr>)))))))))"

text \<open>No usable commit: exit code 1, nothing measured.\<close>

definition token_benchmark :: "(grammar \<Rightarrow> parser) \<Rightarrow> token_counter \<Rightarrow> int \<Rightarrow> corpus_file list \<Rightarrow> token_report option outcome" where
  "token_benchmark parse tokens call_overhead corpus =
     (if corpus = [] then Inr None
      else bind (each (measure_file parse tokens call_overhead) corpus) (\<lambda>found.
        bind (figures (concat found)) (\<lambda>r. Inr (Some r))))"

section \<open>Validation against the provider\<close>

text \<open>
  The deltas in percent for the first files: a failed call is passed over, a usage of zero raises. \<open>live\<close> is the
  reported usage. Then the mean and the largest absolute delta, if there is any.
\<close>

fun live_deltas :: "(grammar \<Rightarrow> parser) \<Rightarrow> token_counter \<Rightarrow> ((pystr \<times> pystr) list \<Rightarrow> int outcome) \<Rightarrow> corpus_file list \<Rightarrow> rat list outcome" where
  "live_deltas parse tokens live [] = Inr []"
| "live_deltas parse tokens live (f # fs) =
     bind (chunk_by_ast parse (cf_path f) (cf_source f) (cf_patch f)) (\<lambda>chunks.
     case chunks of [] \<Rightarrow> live_deltas parse tokens live fs
     | first # _ \<Rightarrow> (let msgs = bench_messages first; counted = tokens msgs in
         case live msgs of Inl e \<Rightarrow> live_deltas parse tokens live fs
         | Inr actual \<Rightarrow> if actual = 0 then raise_exn ZeroDivisionError (lit ''division by zero'')
             else bind (live_deltas parse tokens live fs) (\<lambda>ds.
               Inr (100 * (of_int actual - of_int counted) / of_int actual # ds))))"

definition validate_live :: "(grammar \<Rightarrow> parser) \<Rightarrow> token_counter \<Rightarrow> ((pystr \<times> pystr) list \<Rightarrow> int outcome) \<Rightarrow> pystr option
    \<Rightarrow> corpus_file list \<Rightarrow> int \<Rightarrow> (rat \<times> rat) option outcome" where
  "validate_live parse tokens live key corpus n =
     (if key = None \<or> key = Some [] then Inr None
      else bind (live_deltas parse tokens live (slice_to n corpus)) (\<lambda>deltas.
        if deltas = [] then Inr None
        else bind (fmean deltas) (\<lambda>m. bind (max_of (map abs deltas)) (\<lambda>worst. Inr (Some (m, worst))))))"

section \<open>What the figures are\<close>

text \<open>Every share is in exactly one row of the table.\<close>

lemma buckets_partition:
  assumes "0 \<le> ts_touched_share s" "ts_touched_share s < 10 ^ 9"
  shows "length (filter (\<lambda>b. in_bucket b s) share_buckets) = 1"
  using assms by (auto simp: share_buckets_def in_bucket_def)

lemma bucket_sums:
  fixes w :: "token_sample \<Rightarrow> int"
  assumes "\<And>s. s \<in> set ss \<Longrightarrow> length (filter (\<lambda>b. in_bucket b s) bs) = 1"
  shows "sum_list (map (\<lambda>b. sum_list (map w (filter (in_bucket b) ss))) bs) = sum_list (map w ss)"
  using assms
proof (induction ss)
  case (Cons s ss)
  have "sum_list (map (\<lambda>b. sum_list (map w (filter (in_bucket b) (s # ss)))) bs)
      = sum_list (map (\<lambda>b. (if in_bucket b s then w s else 0) + sum_list (map w (filter (in_bucket b) ss))) bs)"
    by (rule arg_cong [where f = sum_list]) simp
  also have "\<dots> = sum_list (map (\<lambda>b. if in_bucket b s then w s else 0) bs)
      + sum_list (map (\<lambda>b. sum_list (map w (filter (in_bucket b) ss))) bs)" by (rule sum_list_addf)
  also have "sum_list (map (\<lambda>b. if in_bucket b s then w s else 0) bs) = int (length (filter (\<lambda>b. in_bucket b s) bs)) * w s"
    by (induction bs) (simp_all add: algebra_simps)
  finally show ?case using Cons by simp
qed simp

lemma bucket_rows_sums:
  assumes "bucket_rows ss b = Inr rows"
  shows "sum_list (map (int \<circ> br_files) rows) = int (length (filter (in_bucket b) ss))"
    "sum_list (map br_baseline rows) = baseline_total (filter (in_bucket b) ss)"
    "sum_list (map br_scoped rows) = scoped_total (filter (in_bucket b) ss)"
  using assms by (auto simp: bucket_rows_def Let_def bind_Inr_iff baseline_total_def scoped_total_def split: if_splits)

lemma each_sums:
  assumes "each f bs = Inr rows" and "\<And>b rs. f b = Inr rs \<Longrightarrow> sum_list (map (g :: 'r \<Rightarrow> int) rs) = h b"
  shows "sum_list (map g (concat rows)) = sum_list (map h bs)"
  using assms by (induction bs arbitrary: rows) (auto simp: bind_Inr_iff)

lemma table_sums:
  assumes rows: "each (bucket_rows ss) share_buckets = Inr rows"
    and one: "\<And>s. s \<in> set ss \<Longrightarrow> length (filter (\<lambda>b. in_bucket b s) share_buckets) = 1"
  shows "sum_list (map (int \<circ> br_files) (concat rows)) = int (length ss)"
    "sum_list (map br_baseline (concat rows)) = baseline_total ss"
    "sum_list (map br_scoped (concat rows)) = scoped_total ss"
proof -
  have counted: "int (length (filter P xs)) = sum_list (map (\<lambda>_. 1) (filter P xs))" for P and xs :: "token_sample list"
    by (induction xs) auto
  have "sum_list (map (int \<circ> br_files) (concat rows)) = sum_list (map (\<lambda>b. sum_list (map (\<lambda>_. 1) (filter (in_bucket b) ss))) share_buckets)"
    by (rule each_sums [OF rows]) (simp only: bucket_rows_sums(1) counted)
  also have "\<dots> = sum_list (map (\<lambda>_. 1) ss)" by (rule bucket_sums [OF one])
  also have "\<dots> = int (length ss)" by (induction ss) auto
  finally show "sum_list (map (int \<circ> br_files) (concat rows)) = int (length ss)" .
  have "sum_list (map br_baseline (concat rows)) = sum_list (map (\<lambda>b. sum_list (map ts_baseline (filter (in_bucket b) ss))) share_buckets)"
    by (rule each_sums [OF rows]) (simp only: bucket_rows_sums(2) baseline_total_def)
  then show "sum_list (map br_baseline (concat rows)) = baseline_total ss"
    by (simp only: bucket_sums [OF one] baseline_total_def)
  have "sum_list (map br_scoped (concat rows)) = sum_list (map (\<lambda>b. sum_list (map ts_scoped (filter (in_bucket b) ss))) share_buckets)"
    by (rule each_sums [OF rows]) (simp only: bucket_rows_sums(3) scoped_total_def)
  then show "sum_list (map br_scoped (concat rows)) = scoped_total ss"
    by (simp only: bucket_sums [OF one] scoped_total_def)
qed

text \<open>The reduction over all files is between the best and the worst of them.\<close>

lemma reduction_Inr: "reduction a b = Inr r \<longleftrightarrow> b \<noteq> 0 \<and> r = 100 * (1 - of_int a / of_int b)"
  by (auto simp: reduction_def)

lemma reduction_le_iff:
  "0 < b \<Longrightarrow> 100 * (1 - of_int a / of_int b) \<le> (r :: rat) \<longleftrightarrow> (100 - r) * of_int b \<le> 100 * of_int a"
  "0 < b \<Longrightarrow> (r :: rat) \<le> 100 * (1 - of_int a / of_int b) \<longleftrightarrow> 100 * of_int a \<le> (100 - r) * of_int b"
  by (simp_all add: field_simps)

lemma sums_scaled:
  fixes c :: rat
  shows "(\<And>s. s \<in> set ss \<Longrightarrow> 100 * of_int (f s) \<le> c * of_int (g s)) \<Longrightarrow>
      100 * of_int (sum_list (map f ss)) \<le> c * of_int (sum_list (map g ss))"
    "(\<And>s. s \<in> set ss \<Longrightarrow> c * of_int (g s) \<le> 100 * of_int (f s)) \<Longrightarrow>
      c * of_int (sum_list (map g ss)) \<le> 100 * of_int (sum_list (map f ss))"
  by (induction ss) (simp_all add: distrib_left add_mono)

lemma aggregate_between:
  fixes w b :: rat
  assumes "ss \<noteq> []" and pos: "\<And>s. s \<in> set ss \<Longrightarrow> 0 < ts_baseline s"
    and each: "\<And>s. s \<in> set ss \<Longrightarrow> w \<le> 100 * (1 - of_int (ts_scoped s) / of_int (ts_baseline s))
      \<and> 100 * (1 - of_int (ts_scoped s) / of_int (ts_baseline s)) \<le> b"
  shows "0 < baseline_total ss"
    "w \<le> 100 * (1 - of_int (scoped_total ss) / of_int (baseline_total ss))"
    "100 * (1 - of_int (scoped_total ss) / of_int (baseline_total ss)) \<le> b"
proof -
  show base: "0 < baseline_total ss"
  proof (cases ss)
    case (Cons s rest)
    with pos have "0 \<le> sum_list (map ts_baseline rest)" by (intro sum_list_nonneg) (auto intro: less_imp_le)
    with Cons pos show ?thesis by (simp add: baseline_total_def add_pos_nonneg)
  qed (use assms(1) in simp)
  have "100 * of_int (scoped_total ss) \<le> (100 - w) * of_int (baseline_total ss)"
    unfolding scoped_total_def baseline_total_def using pos each by (intro sums_scaled) (simp add: reduction_le_iff [symmetric])
  with base show "w \<le> 100 * (1 - of_int (scoped_total ss) / of_int (baseline_total ss))" by (simp only: reduction_le_iff)
  have "(100 - b) * of_int (baseline_total ss) \<le> 100 * of_int (scoped_total ss)"
    unfolding scoped_total_def baseline_total_def using pos each by (intro sums_scaled) (simp add: reduction_le_iff [symmetric])
  with base show "100 * (1 - of_int (scoped_total ss) / of_int (baseline_total ss)) \<le> b" by (simp only: reduction_le_iff)
qed

text \<open>The samples the run is about.\<close>

definition samples_of :: "(grammar \<Rightarrow> parser) \<Rightarrow> token_counter \<Rightarrow> int \<Rightarrow> corpus_file list \<Rightarrow> token_sample list outcome" where
  "samples_of parse tokens call_overhead corpus =
     bind (each (measure_file parse tokens call_overhead) corpus) (\<lambda>found. Inr (concat found))"

lemma card_changed_lines: "card (parse_changed_lines patch) \<le> length (splitlines patch)"
proof -
  have "finite C \<Longrightarrow> finite (fst (foldl changed_step (C, n) ls)) \<and> card (fst (foldl changed_step (C, n) ls)) \<le> card C + length ls" for C n ls
  proof (induction ls arbitrary: C n)
    case (Cons l ls)
    obtain C' n' where step: "changed_step (C, n) l = (C', n')" by fastforce
    then have "C' = C \<or> C' = insert n C"
      by (auto simp: changed_step_def split: option.splits list.splits if_splits)
    with Cons.prems have "finite C'" "card C' \<le> Suc (card C)" by (auto simp: card_insert_if)
    with Cons.IH [OF this(1), of n'] step show ?case by auto
  qed simp
  from this [of "{}" 0 "splitlines patch"] show ?thesis by (simp add: parse_changed_lines_def)
qed

lemma measured_share:
  assumes "measure_file parse tokens call_overhead f = Inr ss" "s \<in> set ss" "length (splitlines (cf_patch f)) < 10 ^ 9"
  shows "0 \<le> ts_touched_share s \<and> ts_touched_share s < 10 ^ 9"
proof -
  from assms(1,2) have s: "ts_touched_share s = of_nat (card (parse_changed_lines (cf_patch f))) / of_nat (file_lines (cf_source f))"
    by (auto simp: measure_file_def bind_Inr_iff split: if_splits)
  have "(of_nat (card (parse_changed_lines (cf_patch f))) :: rat) < 10 ^ 9"
    using card_changed_lines [of "cf_patch f"] assms(3) by (metis of_nat_less_iff of_nat_numeral of_nat_power order.strict_trans1)
  moreover have "1 \<le> (of_nat (file_lines (cf_source f)) :: rat)" by (simp add: file_lines_def)
  ultimately show ?thesis unfolding s by (auto simp: divide_less_eq intro: less_le_trans)
qed

lemma each_measured:
  assumes "each (measure_file parse tokens call_overhead) corpus = Inr found" "s \<in> set (concat found)"
  shows "\<exists>f ss. f \<in> set corpus \<and> measure_file parse tokens call_overhead f = Inr ss \<and> s \<in> set ss"
proof -
  from assms(2) obtain ss where "ss \<in> set found" "s \<in> set ss" by auto
  with each_member [OF assms(1)] show ?thesis by blast
qed

lemma measured_baseline:
  assumes "measure_file parse tokens call_overhead f = Inr ss" "s \<in> set ss" "\<And>m. 0 < call_overhead + tokens m"
  shows "0 < ts_baseline s"
  using assms by (auto simp: measure_file_def bind_Inr_iff call_cost_def split: if_splits)

lemma figures_report:
  assumes "figures ss = Inr r"
    and pos: "\<And>s. s \<in> set ss \<Longrightarrow> 0 < ts_baseline s"
    and share: "\<And>s. s \<in> set ss \<Longrightarrow> 0 \<le> ts_touched_share s \<and> ts_touched_share s < 10 ^ 9"
  shows "tr_files r = length ss" "tr_baseline r = baseline_total ss" "tr_scoped r = scoped_total ss"
    "sum_list (map (int \<circ> br_files) (tr_buckets r)) = int (tr_files r)"
    "sum_list (map br_baseline (tr_buckets r)) = tr_baseline r"
    "sum_list (map br_scoped (tr_buckets r)) = tr_scoped r"
    "tr_worst r \<le> tr_reduction r \<and> tr_reduction r \<le> tr_best r"
    "tr_cost_more r = length (filter (\<lambda>s. 100 * (1 - of_int (ts_scoped s) / of_int (ts_baseline s)) \<le> (0::rat)) ss)"
proof -
  from assms(1) obtain per_file agg med mean best worst calls buckets bad
    where per_file: "each (\<lambda>s. reduction (ts_scoped s) (ts_baseline s)) ss = Inr per_file"
      and agg: "reduction (scoped_total ss) (baseline_total ss) = Inr agg"
      and best: "max_of per_file = Inr best" and worst: "min_of per_file = Inr worst"
      and buckets: "each (bucket_rows ss) share_buckets = Inr buckets"
      and r: "r = \<lparr>tr_files = length ss, tr_baseline = baseline_total ss, tr_scoped = scoped_total ss, tr_reduction = agg,
         tr_median = med, tr_mean = mean, tr_best = best, tr_worst = worst,
         tr_cost_more = length (filter (\<lambda>s. ts_baseline s \<le> ts_scoped s) ss), tr_mean_calls = calls,
         tr_buckets = concat buckets, tr_worst_five = bad\<rparr>"
    by (auto simp: figures_def bind_Inr_iff)
  show "tr_files r = length ss" "tr_baseline r = baseline_total ss" "tr_scoped r = scoped_total ss" by (simp_all add: r)
  have one: "length (filter (\<lambda>b. in_bucket b s) share_buckets) = 1" if "s \<in> set ss" for s
    using buckets_partition share [OF that] by blast
  show "sum_list (map (int \<circ> br_files) (tr_buckets r)) = int (tr_files r)"
    "sum_list (map br_baseline (tr_buckets r)) = tr_baseline r" "sum_list (map br_scoped (tr_buckets r)) = tr_scoped r"
    using table_sums [OF buckets one] by (simp_all add: r)
  have elems: "per_file = map (\<lambda>s. 100 * (1 - of_int (ts_scoped s) / of_int (ts_baseline s))) ss"
    using per_file by (induction ss arbitrary: per_file) (auto simp: bind_Inr_iff reduction_Inr)
  have between: "worst \<le> 100 * (1 - of_int (ts_scoped s) / of_int (ts_baseline s))
      \<and> 100 * (1 - of_int (ts_scoped s) / of_int (ts_baseline s)) \<le> best" if "s \<in> set ss" for s
    using max_of_Inr [OF best] min_of_Inr [OF worst] that unfolding elems by auto
  have "ss \<noteq> []" using best by (auto simp: elems max_of_def)
  from aggregate_between [OF this pos between] agg
  show "tr_worst r \<le> tr_reduction r \<and> tr_reduction r \<le> tr_best r" by (simp add: r reduction_Inr)
  have "100 * (1 - of_int (ts_scoped s) / of_int (ts_baseline s)) \<le> (0::rat) \<longleftrightarrow> ts_baseline s \<le> ts_scoped s"
    if "s \<in> set ss" for s
    using reduction_le_iff(1) [OF pos [OF that], of "ts_scoped s" 0] by (simp flip: of_int_mult)
  then have "filter (\<lambda>s. 100 * (1 - of_int (ts_scoped s) / of_int (ts_baseline s)) \<le> (0::rat)) ss
      = filter (\<lambda>s. ts_baseline s \<le> ts_scoped s) ss"
    by (rule filter_cong [OF refl])
  then show "tr_cost_more r = length (filter (\<lambda>s. 100 * (1 - of_int (ts_scoped s) / of_int (ts_baseline s)) \<le> (0::rat)) ss)"
    by (simp add: r)
qed

text \<open>
  The figures add up: of every run that ends with a report, with any tokenizer whose calls cost something and patches
  of less than a billion lines, the rows by touched share account for every measured file, every baseline
  token and every scoped token exactly once; the aggregate reduction is between the worst and the best per-file reduction;
  and the files counted as costing more are those without a positive reduction.
\<close>

theorem token_report_adds_up:
  assumes "token_benchmark parse tokens call_overhead corpus = Inr (Some r)"
    and "\<And>m. 0 < call_overhead + tokens m"
    and "\<And>f. f \<in> set corpus \<Longrightarrow> length (splitlines (cf_patch f)) < 10 ^ 9"
  shows "\<exists>ss. samples_of parse tokens call_overhead corpus = Inr ss \<and> tr_files r = length ss
    \<and> tr_baseline r = baseline_total ss \<and> tr_scoped r = scoped_total ss
    \<and> sum_list (map (int \<circ> br_files) (tr_buckets r)) = int (tr_files r)
    \<and> sum_list (map br_baseline (tr_buckets r)) = tr_baseline r
    \<and> sum_list (map br_scoped (tr_buckets r)) = tr_scoped r
    \<and> tr_worst r \<le> tr_reduction r \<and> tr_reduction r \<le> tr_best r
    \<and> tr_cost_more r = length (filter (\<lambda>s. 100 * (1 - of_int (ts_scoped s) / of_int (ts_baseline s)) \<le> (0::rat)) ss)"
proof -
  from assms(1) obtain found where found: "each (measure_file parse tokens call_overhead) corpus = Inr found"
    and figs: "figures (concat found) = Inr r"
    by (auto simp: token_benchmark_def bind_Inr_iff split: if_splits)
  have pos: "0 < ts_baseline s" if "s \<in> set (concat found)" for s
    using each_measured [OF found that] measured_baseline assms(2) by metis
  have share: "0 \<le> ts_touched_share s \<and> ts_touched_share s < 10 ^ 9" if "s \<in> set (concat found)" for s
    using each_measured [OF found that] measured_share assms(3) by metis
  from figures_report [OF figs pos share] show ?thesis
    by (intro exI [of _ "concat found"]) (simp add: samples_of_def found)
qed

text \<open>
  What \<open>git diff\<close> prints for one file, in front of the hunks: the two lines that name the old and the new file begin with
  a minus and a plus, and the scan for changed lines takes them for an edit of line 0. The share of a file the benchmark
  prints is one line too high for every file; a patch of the pull request interface has no such lines.
\<close>

definition git_patch :: "pystr \<Rightarrow> pystr \<Rightarrow> hunk list \<Rightarrow> pystr" where
  "git_patch path index hs = concat (map (\<lambda>l. l @ [NL]) [lit ''diff --git a/'' @ path @ lit '' b/'' @ path, lit ''index '' @ index,
     lit ''--- a/'' @ path, lit ''+++ b/'' @ path]) @ render_patch hs"

theorem git_header_counted_as_a_line:
  assumes "list_all hunk_ok hs" "list_all (\<lambda>h. 1 \<le> new_start h) hs" "one_line path" "one_line index"
  shows "parse_changed_lines (git_patch path index hs) = insert 0 (parse_changed_lines (render_patch hs))
    \<and> card (parse_changed_lines (git_patch path index hs)) = card (parse_changed_lines (render_patch hs)) + 1"
proof -
  let ?head = "[lit ''diff --git a/'' @ path @ lit '' b/'' @ path, lit ''index '' @ index, lit ''--- a/'' @ path, lit ''+++ b/'' @ path]"
  have ok: "\<forall>h \<in> set hs. hunk_ok h" using assms(1) by (simp add: list_all_iff)
  have heads: "list_all one_line ?head"
    using assms(3,4) by (simp add: lit_def is_line_break_def)
  have lines: "one_line l" if "l \<in> set (?head @ concat (map render_hunk hs))" for l
  proof (cases "l \<in> set ?head")
    case True
    with heads show ?thesis unfolding list_all_iff by blast
  next
    case False
    with that obtain h where "h \<in> set hs" "l \<in> set (render_hunk h)" by auto
    with ok show ?thesis by (blast intro: one_line_render)
  qed
  have "git_patch path index hs = concat (map (\<lambda>l. l @ [NL]) (?head @ concat (map render_hunk hs)))"
    by (simp add: git_patch_def render_patch_def)
  then have split: "splitlines (git_patch path index hs) = ?head @ concat (map render_hunk hs)"
    using splitlines_unlines [OF lines] by (rule ssubst)
  have none: "hunk_start (c # s) = None" if "c \<noteq> 64" for c s
    using that by (simp add: hunk_start_def expect_def starts_def lit_def)
  have head: "foldl changed_step ({}, 0) ?head = ({0}, 1)"
    by (simp add: changed_step_def lit_def none)
  have touched: "parse_changed_lines (git_patch path index hs) = insert 0 (\<Union>h \<in> set hs. touched_lines h)"
    unfolding parse_changed_lines_def split foldl_append head using changed_lines_hunks [OF ok, of "{0}" 1] by simp
  have plain: "parse_changed_lines (render_patch hs) = (\<Union>h \<in> set hs. touched_lines h)"
    using ok by (rule parse_changed_lines_rendered)
  have "0 \<notin> (\<Union>h \<in> set hs. touched_lines h)"
    using assms(2) by (auto simp: touched_lines_def line_at_def list_all_iff)
  moreover have "finite (\<Union>h \<in> set hs. touched_lines h)" by (auto simp: touched_lines_def)
  ultimately show ?thesis using touched plain by simp
qed

section \<open>The theorems on an example\<close>

definition bench_file :: corpus_file where
  "bench_file = \<lparr>cf_commit = lit ''abc'', cf_path = lit ''m.rs'', cf_source = lit ''x'', cf_patch = []\<rparr>"

lemma bench_file_measured:
  "measure_file parse (\<lambda>_. 3) 1 bench_file = Inr [\<lparr>ts_commit = lit ''abc'', ts_path = lit ''m.rs'', ts_baseline = 4,
     ts_scoped = 4, ts_chunks = 1, ts_touched_share = 0\<rparr>]"
proof -
  have "languages (file_ext (lit ''m.rs'')) = None" by code_simp
  then have "chunk_by_ast parse (lit ''m.rs'') (lit ''x'') [] = Inr [file_header (lit ''m.rs'') @ [NL] @ lit ''x'']"
    by (simp add: chunk_by_ast_def get_parser_def)
  moreover have "parse_changed_lines [] = {}" by (simp add: parse_changed_lines_def splitlines_def)
  ultimately show ?thesis by (simp add: measure_file_def bench_file_def call_cost_def)
qed

definition constant_parser :: parser where
  "constant_parser src = Node \<lparr>n_type = lit ''module'', n_start_byte = 0, n_end_byte = length src, n_start_row = 0, n_end_row = 0,
     n_field = None, n_has_error = False\<rparr> []"

theorem token_report_adds_up_witness:
  "\<exists>r. token_benchmark (\<lambda>_. constant_parser) (\<lambda>_. 3) 1 [bench_file] = Inr (Some r) \<and> tr_worst r \<le> tr_reduction r"
proof -
  obtain r where r: "token_benchmark (\<lambda>_. constant_parser) (\<lambda>_. 3) 1 [bench_file] = Inr (Some r)"
    by (simp add: token_benchmark_def bench_file_measured figures_def reduction_def baseline_total_def scoped_total_def
        median_def fmean_def max_of_def min_of_def share_buckets_def bucket_rows_def in_bucket_def worst_five_def Let_def
        py_sorted_def)
  moreover have "splitlines (cf_patch bench_file) = []" by (simp add: bench_file_def splitlines_def)
  ultimately show ?thesis using token_report_adds_up [OF r] by auto
qed

end
