(* ===== verification/QueueBench.thy ===== *)
theory QueueBench
  imports Stats QueueGuarantees
begin

text \<open>
  \<open>scripts/benchmark_queue.py\<close>: the time from enqueueing to claiming, measured on the real queue. The measuring
  loops are a transition system over the database of \<open>JobQueue\<close>: worker loops that claim, the enqueuer, and the
  stop signal, in any order; the report is a function of the measured times. Times of a dwell are in microseconds;
  printing is left out.
\<close>

section \<open>Preparing the queue\<close>

definition bench_repo :: pystr where
  "bench_repo = lit ''benchmark/queue''"

text \<open>
  \<open>_reset\<close>: the jobs of the benchmark go, and with them, by the foreign key, their reviews. The heartbeat
  table has no foreign key.
\<close>

definition reset_bench :: "db \<Rightarrow> db" where
  "reset_bench d = d\<lparr>jobs := sql_delete (\<lambda>j. j_repo_full_name j = bench_repo) (jobs d),
     review_records := sql_delete (\<lambda>r. list_ex (\<lambda>j. j_id j = rr_job_id r \<and> j_repo_full_name j = bench_repo) (jobs d))
       (review_records d)\<rparr>"

text \<open>The batches of at most 500 that are enqueued together.\<close>

function batches_from :: "nat \<Rightarrow> nat \<Rightarrow> nat list list" where
  "batches_from start n = (if start < n then [start..<min (start + 500) n] # batches_from (start + 500) n else [])"
  by pat_completeness auto
termination
  by (relation "measure (\<lambda>(start, n). n - start)") auto

declare batches_from.simps [simp del]

definition bench_sha :: "pystr \<Rightarrow> int \<Rightarrow> nat \<Rightarrow> pystr" where
  "bench_sha tag micros i = tag @ lit ''_'' @ str_int micros @ lit ''_'' @ str_int (int i)"

lemma batches_cover: "concat (batches_from start n) = [start..<n]"
proof (induction start n rule: batches_from.induct)
  case (1 start n)
  show ?case
  proof (cases "start < n")
    case True
    have "[start..<n] = [start..<min (start + 500) n] @ [start + 500..<n]"
    proof (cases "start + 500 \<le> n")
      case True
      then show ?thesis using upt_add_eq_append [of start "start + 500" "n - (start + 500)"] by (simp add: min_def)
    qed (simp add: min_def)
    with 1 True show ?thesis by (subst batches_from.simps) simp
  qed (simp add: batches_from.simps)
qed

section \<open>The measuring loops\<close>

text \<open>A loop looks at the stop signal and the target, asks the queue, rests after an empty answer, or has ended.\<close>

datatype drain_phase = Looking | Asking | Resting | Ended

record bench =
  qb_db :: db
  qb_dwells :: "(uuid \<times> int) list"
  qb_stop :: bool
  qb_loops :: "nat \<Rightarrow> drain_phase"

definition bench_worker :: "nat \<Rightarrow> pystr" where
  "bench_worker w = lit ''bench-'' @ str_int (int w)"

definition turn :: "nat \<Rightarrow> drain_phase \<Rightarrow> bench \<Rightarrow> bench" where
  "turn w ph s = s\<lparr>qb_loops := (qb_loops s)(w := ph)\<rparr>"

definition look :: "nat \<Rightarrow> nat \<Rightarrow> bench \<Rightarrow> bench" where
  "look target w s = turn w (if \<not> qb_stop s \<and> length (qb_dwells s) < target then Asking else Ended) s"

text \<open>The dwell is the local time after the claim less the time of creation.\<close>

definition ask :: "int \<Rightarrow> int \<Rightarrow> (uuid \<Rightarrow> bool) \<Rightarrow> nat \<Rightarrow> bench \<Rightarrow> bench" where
  "ask now local_time locked w s = (case claim_job now (bench_worker w) locked (qb_db s) of
     (None, d') \<Rightarrow> turn w Resting (s\<lparr>qb_db := d'\<rparr>)
   | (Some j, d') \<Rightarrow> turn w Looking (s\<lparr>qb_db := d', qb_dwells := qb_dwells s @ [(j_id j, local_time - j_created_at j)]\<rparr>))"

definition enqueue_one :: "int \<Rightarrow> uuid \<Rightarrow> pystr \<Rightarrow> int \<Rightarrow> nat \<Rightarrow> bench \<Rightarrow> bench" where
  "enqueue_one now new_id tag micros i s =
     s\<lparr>qb_db := snd (enqueue_if_new now new_id (bench_sha tag micros i) bench_repo (int i) 123 None (qb_db s))\<rparr>"

datatype bench_event = Loop nat | Enqueuer | Stopper

inductive bench_step :: "nat \<Rightarrow> nat \<Rightarrow> bench \<Rightarrow> bench_event \<Rightarrow> bench \<Rightarrow> bool" for workers target where
  looks: "w < workers \<Longrightarrow> qb_loops s w = Looking \<Longrightarrow> bench_step workers target s (Loop w) (look target w s)"
| asks: "w < workers \<Longrightarrow> qb_loops s w = Asking \<Longrightarrow> bench_step workers target s (Loop w) (ask now local_time locked w s)"
| wakes: "w < workers \<Longrightarrow> qb_loops s w = Resting \<Longrightarrow> bench_step workers target s (Loop w) (turn w Looking s)"
| enqueues: "new_id \<notin> j_id ` set (jobs (qb_db s)) \<Longrightarrow>
     bench_step workers target s Enqueuer (enqueue_one now new_id tag micros i s)"
| stops: "bench_step workers target s Stopper (s\<lparr>qb_stop := True\<rparr>)"

text \<open>Both regimes start from a reset queue; the cold one enqueues before its loops do their first step.\<close>

definition bench_start :: "bench \<Rightarrow> bool" where
  "bench_start s \<longleftrightarrow> (\<exists>d. distinct (map j_id (jobs d)) \<and> qb_db s = reset_bench d) \<and> qb_dwells s = [] \<and> \<not> qb_stop s
     \<and> (\<forall>w. qb_loops s w = Looking)"

section \<open>What is measured\<close>

definition asking :: "nat \<Rightarrow> bench \<Rightarrow> nat" where
  "asking workers s = card {w. w < workers \<and> qb_loops s w = Asking}"

definition bench_ok :: "nat \<Rightarrow> nat \<Rightarrow> bench \<Rightarrow> bool" where
  "bench_ok workers target s \<longleftrightarrow> distinct (map j_id (jobs (qb_db s)))
     \<and> distinct (map fst (qb_dwells s))
     \<and> (\<forall>i \<in> fst ` set (qb_dwells s). \<exists>j \<in> set (jobs (qb_db s)). j_id j = i \<and> j_status j = Processing)
     \<and> length (qb_dwells s) + asking workers s \<le> target + (workers - 1)"

lemma asking_turn:
  assumes "w < workers"
  shows "asking workers (turn w ph s) = (if ph = Asking then asking workers s + (if qb_loops s w = Asking then 0 else 1)
     else asking workers s - (if qb_loops s w = Asking then 1 else 0))"
proof -
  let ?A = "{v. v < workers \<and> qb_loops s v = Asking}"
  have "{v. v < workers \<and> qb_loops (turn w ph s) v = Asking} = (if ph = Asking then insert w ?A else ?A - {w})"
    using assms by (auto simp: turn_def)
  then show ?thesis using assms by (simp add: asking_def card_Diff_singleton_if card_insert_if insert_absorb)
qed

lemma asking_bounds:
  "w < workers \<Longrightarrow> qb_loops s w = Asking \<Longrightarrow> 1 \<le> asking workers s"
  "w < workers \<Longrightarrow> qb_loops s w \<noteq> Asking \<Longrightarrow> asking workers s \<le> workers - 1"
proof -
  let ?A = "{v. v < workers \<and> qb_loops s v = Asking}"
  show "1 \<le> asking workers s" if "w < workers" "qb_loops s w = Asking"
  proof -
    from that have "?A \<noteq> {}" by blast
    then show ?thesis by (simp add: asking_def card_gt_0_iff Suc_le_eq)
  qed
  show "asking workers s \<le> workers - 1" if "w < workers" "qb_loops s w \<noteq> Asking"
  proof -
    have "?A \<subseteq> {..<workers} - {w}" using that by auto
    then have "card ?A \<le> card ({..<workers} - {w})" by (intro card_mono) auto
    with that show ?thesis by (simp add: asking_def)
  qed
qed

lemma turn_fields [simp]:
  "qb_db (turn w ph s) = qb_db s" "qb_dwells (turn w ph s) = qb_dwells s" "qb_stop (turn w ph s) = qb_stop s"
  by (simp_all add: turn_def)

lemma asking_same [simp]:
  "asking workers (s\<lparr>qb_db := d\<rparr>) = asking workers s" "asking workers (s\<lparr>qb_dwells := ds\<rparr>) = asking workers s"
  "asking workers (s\<lparr>qb_stop := b\<rparr>) = asking workers s"
  by (simp_all add: asking_def)

lemma claim_fresh_job:
  assumes keys: "distinct (map j_id (jobs d))" and claim: "claim_job now v locked d = (Some j, d')"
  obtains j0 where "j0 \<in> set (jobs d)" "j_id j0 = j_id j" "j_status j0 = Pending"
    "distinct (map j_id (jobs d'))" "j \<in> set (jobs d')" "j_status j = Processing"
    "\<And>k. k \<in> set (jobs d) \<Longrightarrow> j_id k \<noteq> j_id j \<Longrightarrow> k \<in> set (jobs d')"
proof -
  from claim obtain j0 where j0: "next_claim now locked (jobs d) = Some j0" and j: "j = claimed now v j0"
    and d': "jobs d' = sql_update (\<lambda>r. j_id r = j_id j0) (claimed now v) (jobs d)"
    by (auto simp: claim_job_def split: option.splits)
  note picked = next_claim_Some [OF j0]
  have "j \<in> set (jobs d')" unfolding d' j using picked(1) by (simp add: sql_update_hit)
  moreover have "distinct (map j_id (jobs d'))" unfolding d' using keys by (simp add: map_sql_update)
  moreover have "k \<in> set (jobs d')" if "k \<in> set (jobs d)" "j_id k \<noteq> j_id j" for k
    unfolding d' using that j by (simp add: sql_update_miss)
  ultimately show thesis using picked j by (intro that [of j0]) (auto simp: claimable_def)
qed

lemma look_ok:
  assumes "bench_ok workers target s" "w < workers" "qb_loops s w = Looking"
  shows "bench_ok workers target (look target w s)"
proof -
  have "asking workers s \<le> workers - 1" using assms(2,3) asking_bounds(2) by simp
  with assms show ?thesis by (auto simp: look_def bench_ok_def asking_turn)
qed

lemma ask_ok:
  assumes ok: "bench_ok workers target s" and w: "w < workers" "qb_loops s w = Asking"
  shows "bench_ok workers target (ask now local_time locked w s)"
proof (cases "claim_job now (bench_worker w) locked (qb_db s)")
  case (Pair row d')
  have one: "1 \<le> asking workers s" by (rule asking_bounds(1) [OF w])
  show ?thesis
  proof (cases row)
    case None
    with Pair have "d' = qb_db s" by (simp add: claim_job_def split: option.splits)
    with Pair None ok w one show ?thesis by (auto simp: ask_def bench_ok_def asking_turn)
  next
    case (Some j)
    have keys: "distinct (map j_id (jobs (qb_db s)))" using ok by (simp add: bench_ok_def)
    from claim_fresh_job [OF keys Pair [unfolded Some]] obtain j0 where j0: "j0 \<in> set (jobs (qb_db s))"
      "j_id j0 = j_id j" "j_status j0 = Pending" and d': "distinct (map j_id (jobs d'))" "j \<in> set (jobs d')"
      "j_status j = Processing" and others: "\<And>k. k \<in> set (jobs (qb_db s)) \<Longrightarrow> j_id k \<noteq> j_id j \<Longrightarrow> k \<in> set (jobs d')"
      by metis
    have fresh: "j_id j \<notin> fst ` set (qb_dwells s)"
    proof
      assume "j_id j \<in> fst ` set (qb_dwells s)"
      with ok obtain k where "k \<in> set (jobs (qb_db s))" "j_id k = j_id j" "j_status k = Processing"
        unfolding bench_ok_def by blast
      with j0 key_unique [OF keys, of k j0] show False by auto
    qed
    have kept: "\<exists>k \<in> set (jobs d'). j_id k = i \<and> j_status k = Processing" if "i \<in> fst ` set (qb_dwells s)" for i
    proof -
      from ok that obtain k where "k \<in> set (jobs (qb_db s))" "j_id k = i" "j_status k = Processing"
        unfolding bench_ok_def by blast
      moreover from calculation(2) fresh that have "j_id k \<noteq> j_id j" by metis
      ultimately show ?thesis using others by blast
    qed
    have result: "ask now local_time locked w s = turn w Looking (s\<lparr>qb_db := d',
        qb_dwells := qb_dwells s @ [(j_id j, local_time - j_created_at j)]\<rparr>)"
      by (simp add: ask_def Pair Some)
    show ?thesis
      using ok d' fresh kept w one unfolding result bench_ok_def by (auto simp: asking_turn)
  qed
qed

lemma enqueue_one_ok:
  assumes "bench_ok workers target s" "new_id \<notin> j_id ` set (jobs (qb_db s))"
  shows "bench_ok workers target (enqueue_one now new_id tag micros i s)"
  using assms by (auto simp: enqueue_one_def enqueue_if_new_def bench_ok_def new_job_def)

lemma bench_step_ok: "bench_ok workers target s \<Longrightarrow> bench_step workers target s e t \<Longrightarrow> bench_ok workers target t"
proof (erule bench_step.cases, goal_cases)
  case (1 w s')
  then show ?case using look_ok by blast
next
  case (2 w s' now local_time locked)
  then show ?case using ask_ok by blast
next
  case (3 w s')
  then show ?case by (auto simp: bench_ok_def asking_turn)
next
  case (4 new_id s' now tag micros i)
  then show ?case using enqueue_one_ok by blast
next
  case (5 s')
  then show ?case by (simp add: bench_ok_def)
qed

lemma bench_start_ok: "bench_start s \<Longrightarrow> bench_ok workers target s"
  by (auto simp: bench_start_def bench_ok_def asking_def reset_bench_def distinct_map_sql_delete)

interpretation measuring: safe_system bench_start "bench_step workers target" "bench_ok workers target" for workers target
  by unfold_locales (blast intro: bench_start_ok bench_step_ok)+

text \<open>
  C40. Each job is measured once: however the worker loops, the enqueuer and the stop signal interleave, no job's dwell is
  recorded twice, every measured job is still \<open>processing\<close>, and the loops overshoot the number of samples asked
  for by less than the number of loops.
\<close>

theorem each_job_measured_once:
  assumes "reachable bench_start (bench_step workers target) s"
  shows "distinct (map fst (qb_dwells s))
    \<and> (\<forall>i \<in> fst ` set (qb_dwells s). \<exists>j \<in> set (jobs (qb_db s)). j_id j = i \<and> j_status j = Processing)
    \<and> length (qb_dwells s) \<le> target + (workers - 1)"
  using measuring.inv_reachable [OF assms] by (simp add: bench_ok_def)

section \<open>The two regimes\<close>

text \<open>Only the loops move.\<close>

definition loop_step :: "nat \<Rightarrow> nat \<Rightarrow> bench \<Rightarrow> bench_event \<Rightarrow> bench \<Rightarrow> bool" where
  "loop_step workers target s e t \<longleftrightarrow> bench_step workers target s e t \<and> (\<exists>w. e = Loop w)"

text \<open>
  \<open>_enqueue\<close>: one after another the batches, each in whatever order the connections answer.
\<close>

inductive enqueues_all :: "pystr \<Rightarrow> nat list \<Rightarrow> bench \<Rightarrow> bench \<Rightarrow> bool" for tag where
  none_left: "enqueues_all tag [] s s"
| next_one: "new_id \<notin> j_id ` set (jobs (qb_db s)) \<Longrightarrow> enqueues_all tag is (enqueue_one now new_id tag micros i s) t \<Longrightarrow>
     enqueues_all tag (i # is) s t"

definition enqueue_order :: "nat \<Rightarrow> nat list \<Rightarrow> bool" where
  "enqueue_order n is \<longleftrightarrow> (\<exists>orders. is = concat orders
     \<and> list_all2 (\<lambda>order batch. mset order = mset batch) orders (batches_from 0 n))"

text \<open>The coroutine of a regime looks every 50 ms while too few jobs are claimed and its deadline is not reached.\<close>

definition waiting :: "nat \<Rightarrow> int \<Rightarrow> int \<Rightarrow> bench \<Rightarrow> bool" where
  "waiting target deadline clock s \<longleftrightarrow> length (qb_dwells s) < target \<and> clock < deadline"

inductive watched :: "nat \<Rightarrow> nat \<Rightarrow> int \<Rightarrow> bench \<Rightarrow> int \<Rightarrow> bench \<Rightarrow> bool" for workers target deadline where
  over: "\<not> waiting target deadline clock s \<Longrightarrow> watched workers target deadline s clock s"
| waits: "waiting target deadline clock s \<Longrightarrow> run (loop_step workers target) s es s1 \<Longrightarrow>
     watched workers target deadline s1 ended t \<Longrightarrow> watched workers target deadline s ended t"

definition gathered :: "nat \<Rightarrow> bench \<Rightarrow> bool" where
  "gathered workers s \<longleftrightarrow> (\<forall>w < workers. qb_loops s w = Ended)"

definition fresh_bench :: "db \<Rightarrow> bench" where
  "fresh_bench d = \<lparr>qb_db = reset_bench d, qb_dwells = [], qb_stop = False, qb_loops = (\<lambda>_. Looking)\<rparr>"

text \<open>
  \<open>cold_burst\<close>: reset, enqueue everything, then start the loops, watch them for at most two minutes, stop and
  gather them. \<open>clock\<close> is the time at which the watching ended, \<open>begun\<close> that at which it began.
\<close>

definition cold_burst :: "nat \<Rightarrow> nat \<Rightarrow> db \<Rightarrow> int \<Rightarrow> int \<Rightarrow> bench \<Rightarrow> bool" where
  "cold_burst n workers d begun clock t \<longleftrightarrow> (\<exists>is s1 s2 es.
     enqueue_order n is \<and> enqueues_all (lit ''cold'') is (fresh_bench d) s1
     \<and> watched workers n (begun + seconds 120) s1 clock s2
     \<and> run (loop_step workers n) (s2\<lparr>qb_stop := True\<rparr>) es t \<and> gathered workers t)"

text \<open>\<open>warm_steady\<close>: the loops poll the empty queue first, and go on while the jobs are enqueued.\<close>

inductive enqueues_among :: "nat \<Rightarrow> nat \<Rightarrow> pystr \<Rightarrow> nat list \<Rightarrow> bench \<Rightarrow> bench \<Rightarrow> bool" for workers target tag where
  all_in: "run (loop_step workers target) s es t \<Longrightarrow> enqueues_among workers target tag [] s t"
| one_in: "run (loop_step workers target) s es s1 \<Longrightarrow> new_id \<notin> j_id ` set (jobs (qb_db s1)) \<Longrightarrow>
     enqueues_among workers target tag is (enqueue_one now new_id tag micros i s1) t \<Longrightarrow>
     enqueues_among workers target tag (i # is) s t"

definition warm_steady :: "nat \<Rightarrow> nat \<Rightarrow> db \<Rightarrow> int \<Rightarrow> int \<Rightarrow> bench \<Rightarrow> bool" where
  "warm_steady n workers d begun clock t \<longleftrightarrow> (\<exists>is s1 s2 es.
     enqueue_order n is \<and> enqueues_among workers n (lit ''warm'') is (fresh_bench d) s1
     \<and> watched workers n (begun + seconds 180) s1 clock s2
     \<and> run (loop_step workers n) (s2\<lparr>qb_stop := True\<rparr>) es t \<and> gathered workers t)"

text \<open>Both are runs of the transition system, in which at most one job per number comes in.\<close>

definition bounded_run :: "nat \<Rightarrow> nat \<Rightarrow> nat \<Rightarrow> bench \<Rightarrow> bench \<Rightarrow> bool" where
  "bounded_run workers target k s t \<longleftrightarrow> (\<exists>es. run (bench_step workers target) s es t)
     \<and> length (jobs (qb_db t)) \<le> length (jobs (qb_db s)) + k \<and> length (qb_dwells s) \<le> length (qb_dwells t)"

lemma bounded_run_refl: "bounded_run workers target 0 s s"
  by (auto simp: bounded_run_def intro: run_nil)

lemma bounded_run_trans:
  assumes "bounded_run workers target k s t" "bounded_run workers target l t u"
  shows "bounded_run workers target (k + l) s u"
proof -
  from assms obtain es es' where "run (bench_step workers target) s es t" "run (bench_step workers target) t es' u"
    by (auto simp: bounded_run_def)
  then have "run (bench_step workers target) s (es @ es') u" by (auto simp: run_append)
  with assms show ?thesis by (auto simp: bounded_run_def)
qed

lemma claim_length: "claim_job now w locked d = (row, d') \<Longrightarrow> length (jobs d') = length (jobs d)"
  by (auto simp: claim_job_def sql_update_def split: option.splits)

lemma bounded_step:
  assumes "bench_step workers target s e t"
  shows "bounded_run workers target (if e = Enqueuer then 1 else 0) s t"
proof -
  have "run (bench_step workers target) s [e] t" using assms by (blast intro: run_cons run_nil)
  moreover have "length (jobs (qb_db t)) \<le> length (jobs (qb_db s)) + (if e = Enqueuer then 1 else 0)
      \<and> length (qb_dwells s) \<le> length (qb_dwells t)"
    using assms
  proof cases
    case (asks w now local_time locked)
    then show ?thesis
      by (cases "claim_job now (bench_worker w) locked (qb_db s)") (auto simp: ask_def claim_length split: option.splits)
  qed (auto simp: look_def enqueue_one_def enqueue_if_new_def)
  ultimately show ?thesis by (auto simp: bounded_run_def)
qed

lemma bounded_loops: "run (loop_step workers target) s es t \<Longrightarrow> bounded_run workers target 0 s t"
proof (induction rule: run.induct)
  case (run_cons s e s1 es t)
  then have "bounded_run workers target 0 s s1" using bounded_step by (fastforce simp: loop_step_def)
  from bounded_run_trans [OF this run_cons.IH] show ?case by simp
qed (rule bounded_run_refl)

lemma bounded_enqueue:
  "new_id \<notin> j_id ` set (jobs (qb_db s)) \<Longrightarrow> bounded_run workers target 1 s (enqueue_one now new_id tag micros i s)"
  using bounded_step [OF bench_step.enqueues] by fastforce

lemma bounded_enqueues_all: "enqueues_all tag is s t \<Longrightarrow> bounded_run workers target (length is) s t"
proof (induction rule: enqueues_all.induct)
  case (next_one new_id s "is" now micros i t)
  from bounded_run_trans [OF bounded_enqueue [OF next_one.hyps(1)] next_one.IH] show ?case by simp
qed (simp add: bounded_run_refl)

lemma bounded_enqueues_among:
  "enqueues_among workers target tag is s t \<Longrightarrow> bounded_run workers target (length is) s t"
proof (induction rule: enqueues_among.induct)
  case (one_in s es s1 new_id "is" now micros i t)
  from bounded_run_trans [OF bounded_loops [OF one_in.hyps(1)] bounded_run_trans [OF bounded_enqueue [OF one_in.hyps(2)] one_in.IH]]
  show ?case by simp
qed (simp add: bounded_loops)

lemma bounded_watched:
  "watched workers target deadline s clock t \<Longrightarrow> bounded_run workers target 0 s t \<and> \<not> waiting target deadline clock t"
proof (induction rule: watched.induct)
  case (waits clock s es s1 ended t)
  then show ?case using bounded_run_trans [OF bounded_loops [OF waits.hyps(2)]] by fastforce
qed (simp add: bounded_run_refl)

lemma batch_order_length: "list_all2 (\<lambda>order batch. mset order = mset batch) orders bs \<Longrightarrow> length (concat orders) = length (concat bs)"
  by (induction rule: list_all2_induct) (auto dest: mset_eq_length)

lemma enqueue_order_length:
  assumes "enqueue_order n is" shows "length is = n"
proof -
  obtain orders where is_orders: "is = concat orders"
    "list_all2 (\<lambda>order batch. mset order = mset batch) orders (batches_from 0 n)"
    using assms by (auto simp: enqueue_order_def)
  have "length is = length (concat (batches_from 0 n))" unfolding is_orders(1) by (rule batch_order_length [OF is_orders(2)])
  then show ?thesis by (simp only: batches_cover length_upt)
qed

lemma regime_bounds:
  assumes "bounded_run workers n n (fresh_bench d) s1" "watched workers n deadline s1 clock s2"
    and "run (loop_step workers n) (s2\<lparr>qb_stop := True\<rparr>) es t" "distinct (map j_id (jobs d))"
  shows "bench_ok workers n t" "clock < deadline \<Longrightarrow> n \<le> length (qb_dwells t)"
    "length (jobs (qb_db t)) \<le> length (jobs (reset_bench d)) + n"
proof -
  note w = bounded_watched [OF assms(2), THEN conjunct1] bounded_watched [OF assms(2), THEN conjunct2]
  have stop: "bounded_run workers n 0 s2 (s2\<lparr>qb_stop := True\<rparr>)" using bounded_step [OF bench_step.stops] by fastforce
  note tail = bounded_run_trans [OF stop bounded_loops [OF assms(3)]]
  note whole = bounded_run_trans [OF assms(1) bounded_run_trans [OF w(1) tail]]
  have "bench_start (fresh_bench d)" using assms(4) by (auto simp: bench_start_def fresh_bench_def)
  then have "bench_ok workers n (fresh_bench d)" by (rule bench_start_ok)
  with whole measuring.inv_run show "bench_ok workers n t" by (auto simp: bounded_run_def)
  show "n \<le> length (qb_dwells t)" if "clock < deadline"
    using w(2) tail that by (auto simp: waiting_def bounded_run_def)
  show "length (jobs (qb_db t)) \<le> length (jobs (reset_bench d)) + n"
    using whole by (simp add: bounded_run_def fresh_bench_def)
qed

text \<open>
  A regime measures what it says: it never records a job twice nor more than the number asked for and one less than the
  loops, it falls short only when its deadline passed, and when the database holds no jobs but the benchmark's it measures
  exactly the number asked for.
\<close>

theorem regimes_measure_all:
  assumes "cold_burst n workers d begun clock t \<or> warm_steady n workers d begun' clock t"
    and "distinct (map j_id (jobs d))" "clock < begun + seconds 120" "clock < begun' + seconds 180"
  shows "distinct (map fst (qb_dwells t)) \<and> n \<le> length (qb_dwells t) \<and> length (qb_dwells t) \<le> n + (workers - 1)
    \<and> (list_all (\<lambda>j. j_repo_full_name j = bench_repo) (jobs d) \<longrightarrow> length (qb_dwells t) = n)"
proof -
  obtain s1 s2 es deadline where s1: "bounded_run workers n n (fresh_bench d) s1"
    and s2: "watched workers n deadline s1 clock s2" "clock < deadline"
    and t: "run (loop_step workers n) (s2\<lparr>qb_stop := True\<rparr>) es t"
    using assms(1,3,4) bounded_enqueues_all bounded_enqueues_among enqueue_order_length
    unfolding cold_burst_def warm_steady_def by metis
  note fin = regime_bounds [OF s1 s2(1) t assms(2)]
  have "length (qb_dwells t) \<le> length (jobs (qb_db t))"
  proof -
    have "fst ` set (qb_dwells t) \<subseteq> j_id ` set (jobs (qb_db t))"
      using fin(1) unfolding bench_ok_def by (metis (no_types, lifting) image_eqI subsetI)
    then have "card (fst ` set (qb_dwells t)) \<le> card (set (map j_id (jobs (qb_db t))))" by (intro card_mono) auto
    with fin(1) show ?thesis
      by (metis bench_ok_def distinct_card length_map list.set_map)
  qed
  moreover have "jobs (reset_bench d) = []" if "list_all (\<lambda>j. j_repo_full_name j = bench_repo) (jobs d)"
    using that by (auto simp: reset_bench_def sql_delete_def list_all_iff filter_empty_conv)
  ultimately show ?thesis using fin s2(2) by (fastforce simp: bench_ok_def)
qed

text \<open>Once the stop signal is set the loops end: each needs at most three more steps, so gathering them returns.\<close>

fun steps_left :: "drain_phase \<Rightarrow> nat" where
  "steps_left Ended = 0"
| "steps_left Looking = 1"
| "steps_left Resting = 2"
| "steps_left Asking = 3"

lemma stopped_step:
  assumes "loop_step workers target s e t" "qb_stop s"
  shows "qb_stop t \<and> (\<Sum>w < workers. steps_left (qb_loops t w)) < (\<Sum>w < workers. steps_left (qb_loops s w))"
proof -
  have less: "(\<Sum>w < workers. steps_left ((f(v := ph)) w)) < (\<Sum>w < workers. steps_left (f w))"
    if "v < workers" "steps_left ph < steps_left (f v)" for f :: "nat \<Rightarrow> drain_phase" and v ph
    using that by (intro sum_strict_mono_ex1) auto
  from assms(1) have "bench_step workers target s e t" "\<exists>w. e = Loop w" by (simp_all add: loop_step_def)
  then show ?thesis
  proof cases
    case (asks w now local_time locked)
    then show ?thesis using assms(2) less [of w] by (auto simp: ask_def turn_def split: prod.split option.split)
  qed (use assms(2) less in \<open>auto simp: look_def turn_def\<close>)
qed

lemma stopped_loops_end:
  "run (loop_step workers target) s es t \<Longrightarrow> qb_stop s \<Longrightarrow> length es \<le> (\<Sum>w < workers. steps_left (qb_loops s w))"
proof (induction rule: run.induct)
  case (run_cons s e s1 es t)
  then show ?case using stopped_step [OF run_cons.hyps(1)] by fastforce
qed simp

section \<open>The report\<close>

record dwell_report =
  dr_samples :: nat
  dr_p50 :: rat
  dr_p95 :: rat
  dr_p99 :: rat
  dr_max :: rat
  dr_mean :: rat

definition milliseconds :: "int \<Rightarrow> rat" where
  "milliseconds micros = of_int micros / 1000"

text \<open>Without a sample there is nothing to report.\<close>

definition dwell_report :: "int list \<Rightarrow> dwell_report option" where
  "dwell_report dwells = (let ms = map milliseconds dwells in
     if ms = [] then None
     else Some \<lparr>dr_samples = length ms, dr_p50 = nearest_rank ms (50 / 100), dr_p95 = nearest_rank ms (95 / 100),
       dr_p99 = nearest_rank ms (99 / 100), dr_max = Max (set ms), dr_mean = sum_list ms / of_nat (length ms)\<rparr>)"

definition claims_per_second :: "nat \<Rightarrow> rat \<Rightarrow> rat option" where
  "claims_per_second n drain_s = (if 0 < drain_s \<and> 0 < n then Some (of_nat n / drain_s) else None)"

text \<open>The share of the samples at or below a value.\<close>

definition share_below :: "int list \<Rightarrow> rat \<Rightarrow> rat" where
  "share_below dwells v = of_nat (length (filter (\<lambda>x. x \<le> v) (map milliseconds dwells))) / of_nat (length dwells)"

text \<open>
  The reported latencies are what they are called: they increase from the median to the maximum, at least 50, 95 and 99
  percent of the jobs waited no longer than the value printed for it, each is the dwell of a job that was measured, and the mean
  is between the shortest and the longest.
\<close>

theorem dwell_report_percentiles:
  assumes "dwell_report dwells = Some r"
  shows "dr_samples r = length dwells
    \<and> dr_p50 r \<le> dr_p95 r \<and> dr_p95 r \<le> dr_p99 r \<and> dr_p99 r \<le> dr_max r
    \<and> 50 / 100 \<le> share_below dwells (dr_p50 r) \<and> 95 / 100 \<le> share_below dwells (dr_p95 r)
    \<and> 99 / 100 \<le> share_below dwells (dr_p99 r)
    \<and> {dr_p50 r, dr_p95 r, dr_p99 r, dr_max r} \<subseteq> milliseconds ` set dwells
    \<and> Min (milliseconds ` set dwells) \<le> dr_mean r \<and> dr_mean r \<le> dr_max r"
proof -
  let ?ms = "map milliseconds dwells"
  from assms have ne: "?ms \<noteq> []"
    and r: "r = \<lparr>dr_samples = length ?ms, dr_p50 = nearest_rank ?ms (50 / 100), dr_p95 = nearest_rank ?ms (95 / 100),
       dr_p99 = nearest_rank ?ms (99 / 100), dr_max = Max (set ?ms), dr_mean = sum_list ?ms / of_nat (length ?ms)\<rparr>"
    by (auto simp: dwell_report_def Let_def split: if_splits)
  have share: "p \<le> share_below dwells (nearest_rank ?ms p)" if "0 \<le> p" "p \<le> 1" for p
    using nearest_rank_splits(1) [OF ne that] ne by (simp add: share_below_def le_divide_eq)
  have mem: "nearest_rank ?ms p \<in> milliseconds ` set dwells" for p
    using nearest_rank_in [OF ne, of p] by simp
  then have top: "nearest_rank ?ms p \<le> Max (set ?ms)" for p by simp
  have mean: "Min (set ?ms) * of_nat (length ?ms) \<le> sum_list ?ms" "sum_list ?ms \<le> Max (set ?ms) * of_nat (length ?ms)"
    using sum_list_between [of ?ms "Min (set ?ms)" "\<lambda>x. x" "Max (set ?ms)"] by simp_all
  have "Max (set ?ms) \<in> set ?ms" using ne by (intro Max_in) auto
  then show ?thesis
    using share [of "50 / 100"] share [of "95 / 100"] share [of "99 / 100"] mem top mean ne
      nearest_rank_mono [OF ne, of "50 / 100" "95 / 100"] nearest_rank_mono [OF ne, of "95 / 100" "99 / 100"]
    unfolding r by (simp add: le_divide_eq divide_le_eq mult.commute)
qed

theorem dwell_report_percentiles_witness: "\<exists>r. dwell_report [3000, 1000, 2000] = Some r \<and> dr_p50 r \<le> dr_max r"
proof -
  have "dwell_report [3000, 1000, 2000] \<noteq> None" by (simp add: dwell_report_def Let_def)
  then obtain r where "dwell_report [3000, 1000, 2000] = Some r" by blast
  with dwell_report_percentiles [OF this] show ?thesis by auto
qed

text \<open>
  The note on the pool: with \<open>DB_POOL_MIN_SIZE\<close> set as it says, the pool is larger than the number of loops.
\<close>

definition pool_too_small :: "settings \<Rightarrow> int \<Rightarrow> bool" where
  "pool_too_small cfg loops \<longleftrightarrow> db_pool_max_size cfg < loops"

lemma pool_note_helps: "\<not> pool_too_small (cfg\<lparr>DB_POOL_MIN_SIZE := loops + 20\<rparr>) loops"
  using db_pool_max_size_ge(1) [of "cfg\<lparr>DB_POOL_MIN_SIZE := loops + 20\<rparr>"] by (simp add: pool_too_small_def)

section \<open>Other people's jobs\<close>

text \<open>
  The benchmark resets only its own jobs, but its loops claim whatever is next: a pending job of a real pull request is taken, counted
  as a sample, uses up one of its attempts and is left in \<open>processing\<close>, for nobody to work on.
\<close>

definition bench_begin :: bench where
  "bench_begin = \<lparr>qb_db = reset_bench q1, qb_dwells = [], qb_stop = False, qb_loops = (\<lambda>_. Looking)\<rparr>"

lemma q1_not_bench: "reset_bench q1 = q1"
  by (simp add: reset_bench_def q1_def demo_rows upgrade_def bench_repo_def sql_delete_def lit_def)

lemma bench_begin_ok: "bench_start bench_begin"
  by (auto simp: bench_start_def bench_begin_def q1_def upgrade_def intro!: exI [of _ q1])

definition bench_first :: bench where
  "bench_first = ask 0 7 (\<lambda>_. False) 0 (look 10 0 bench_begin)"

lemma bench_first_reached: "reachable bench_start (bench_step 2 10) bench_first"
proof -
  have "reachable bench_start (bench_step 2 10) bench_begin" by (rule reachable_init [where init = bench_start]) (rule bench_begin_ok)
  moreover have "bench_step 2 10 bench_begin (Loop 0) (look 10 0 bench_begin)"
    by (rule bench_step.looks) (simp_all add: bench_begin_def)
  moreover have "bench_step 2 10 (look 10 0 bench_begin) (Loop 0) bench_first"
    unfolding bench_first_def by (rule bench_step.asks) (simp_all add: look_def turn_def bench_begin_def)
  ultimately show ?thesis by (meson reachable_step [where step = "bench_step 2 10"])
qed

theorem bench_takes_real_jobs:
  "qb_dwells bench_first = [(1, 7)] \<and> map j_repo_full_name (jobs (qb_db bench_first)) = [lit ''o/r'']
   \<and> map j_status (jobs (qb_db bench_first)) = [Processing] \<and> map j_attempt_count (jobs (qb_db bench_first)) = [1]"
proof -
  have start: "bench_begin = \<lparr>qb_db = q1, qb_dwells = [], qb_stop = False, qb_loops = (\<lambda>_. Looking)\<rparr>"
    by (simp only: bench_begin_def q1_not_bench)
  show ?thesis
    unfolding bench_first_def start
    by (simp add: look_def ask_def claim_job_def next_claim_def claimable_def q1_def demo_rows upgrade_def py_sorted_def
        claimed_def sql_update_def)
qed

theorem each_job_measured_once_witness: "distinct (map fst (qb_dwells bench_first)) \<and> length (qb_dwells bench_first) \<le> 11"
  using each_job_measured_once [OF bench_first_reached] by simp

end
