(* ===== verification/WalBench.thy ===== *)
theory WalBench
  imports Stats JobQueue
begin

text \<open>
  \<open>scripts/benchmark_wal.py\<close>: how much of the write-ahead log the unlogged heartbeat table saves. The two workloads are
  statements on probe tables; what the server logs for them, and how long they take, is measured by it and is an argument of the
  report. Rates and shares are rational; the layout of the printed table is left out.
\<close>

section \<open>The workloads\<close>

text \<open>
  \<open>_heartbeat_workload\<close>: every round touches each job once, with the statement of \<open>claim_job\<close>. The number of
  executed statements is counted along.
\<close>

fun touch_all :: "int \<Rightarrow> uuid list \<Rightarrow> heartbeat list \<times> nat \<Rightarrow> heartbeat list \<times> nat" where
  "touch_all now [] st = st"
| "touch_all now (i # ids) (rows, n) = touch_all now ids (upsert_heartbeat now i (lit ''worker-bench'') rows, n + 1)"

fun heartbeat_workload :: "int \<Rightarrow> uuid list \<Rightarrow> nat \<Rightarrow> heartbeat list \<times> nat \<Rightarrow> heartbeat list \<times> nat" where
  "heartbeat_workload now ids 0 st = st"
| "heartbeat_workload now ids (Suc rounds) st = heartbeat_workload now ids rounds (touch_all now ids st)"

text \<open>
  \<open>_job_lifecycle_workload\<close>: insert, claim and finalize, by the commit of the row; \<open>shas\<close> are the generated commits.
\<close>

record probe_job =
  pj_commit_sha :: pystr
  pj_pr_number :: int
  pj_status :: job_status
  pj_worker_id :: "pystr option"
  pj_attempt_count :: int
  pj_fence_token :: int
  pj_finished :: bool

definition probe_inserted :: "pystr \<Rightarrow> nat \<Rightarrow> probe_job" where
  "probe_inserted sha i = \<lparr>pj_commit_sha = sha, pj_pr_number = int i, pj_status = Pending, pj_worker_id = None,
     pj_attempt_count = 0, pj_fence_token = 0, pj_finished = False\<rparr>"

definition probe_claimed :: "probe_job \<Rightarrow> probe_job" where
  "probe_claimed j = j\<lparr>pj_status := Processing, pj_worker_id := Some (lit ''worker-bench''), pj_attempt_count := pj_attempt_count j + 1\<rparr>"

definition probe_finished :: "probe_job \<Rightarrow> probe_job" where
  "probe_finished j = j\<lparr>pj_status := Success, pj_finished := True\<rparr>"

definition lifecycle_once :: "nat \<Rightarrow> pystr \<Rightarrow> probe_job list \<Rightarrow> probe_job list" where
  "lifecycle_once i sha rows =
     sql_update (\<lambda>j. pj_commit_sha j = sha) probe_finished
       (sql_update (\<lambda>j. pj_commit_sha j = sha) probe_claimed (rows @ [probe_inserted sha i]))"

fun lifecycle_workload :: "(nat \<Rightarrow> pystr) \<Rightarrow> nat \<Rightarrow> probe_job list \<Rightarrow> probe_job list" where
  "lifecycle_workload shas 0 rows = rows"
| "lifecycle_workload shas (Suc n) rows = lifecycle_once n (shas n) (lifecycle_workload shas n rows)"

section \<open>The report\<close>

definition heartbeat_rounds :: "int \<Rightarrow> int" where
  "heartbeat_rounds ops = max (ops div 100) 1"

definition total_heartbeats :: "int \<Rightarrow> int" where
  "total_heartbeats ops = heartbeat_rounds ops * 100"

definition idle_rate :: "int \<Rightarrow> rat \<Rightarrow> rat" where
  "idle_rate advanced elapsed = (if elapsed = 0 then 0 else of_int advanced / elapsed)"

text \<open>The floor of the idle server is taken off, and nothing below zero is reported.\<close>

definition net :: "rat \<Rightarrow> int \<Rightarrow> rat \<Rightarrow> rat" where
  "net idle raw elapsed = max (of_int raw - idle * elapsed) 0"

definition durations :: "int list" where
  "durations = [60, 300, 900, 1800]"

definition beats_of :: "int \<Rightarrow> int \<Rightarrow> int" where
  "beats_of interval duration = max (duration div interval) 1"

definition eliminated_share :: "rat \<Rightarrow> rat \<Rightarrow> rat \<Rightarrow> int \<Rightarrow> rat" where
  "eliminated_share hb_logged hb_unlogged job_bytes beats =
     (let hb_bytes = of_int beats * hb_logged; whole = hb_bytes + job_bytes in
      if whole = 0 then 0 else (hb_bytes - of_int beats * hb_unlogged) / whole * 100)"

record wal_row =
  wr_duration :: int
  wr_beats :: int
  wr_total :: rat
  wr_share :: rat

record wal_report =
  wl_logged :: rat
  wl_unlogged :: rat
  wl_job :: rat
  wl_drop :: "rat option"
  wl_rows :: "wal_row list"

definition wal_row_of :: "int \<Rightarrow> rat \<Rightarrow> rat \<Rightarrow> rat \<Rightarrow> int \<Rightarrow> wal_row" where
  "wal_row_of interval hb_logged hb_unlogged job_bytes duration =
     (let beats = beats_of interval duration in
      \<lparr>wr_duration = duration, wr_beats = beats, wr_total = of_int beats * hb_logged + job_bytes,
       wr_share = eliminated_share hb_logged hb_unlogged job_bytes beats\<rparr>)"

text \<open>Each measurement is the bytes the log advanced and the seconds it took. Dividing by no jobs, or by an interval of zero, raises.\<close>

definition wal_report :: "int \<Rightarrow> int \<Rightarrow> int \<Rightarrow> int \<times> rat \<Rightarrow> int \<times> rat \<Rightarrow> int \<times> rat \<Rightarrow> int \<times> rat \<Rightarrow> wal_report outcome" where
  "wal_report ops n_jobs interval idle logged unlogged lifecycle =
     (let rate = idle_rate (fst idle) (snd idle); hbs = of_int (total_heartbeats ops);
          l = net rate (fst logged) (snd logged) / hbs; u = net rate (fst unlogged) (snd unlogged) / hbs in
      if n_jobs = 0 \<or> interval = 0 then raise_exn ZeroDivisionError (lit ''division by zero'')
      else let j = net rate (fst lifecycle) (snd lifecycle) / of_int n_jobs in
        Inr \<lparr>wl_logged = l, wl_unlogged = u, wl_job = j, wl_drop = (if 0 < l then Some ((1 - u / l) * 100) else None),
          wl_rows = map (wal_row_of interval l u j) durations\<rparr>)"

section \<open>What the workloads do\<close>

lemma touch_all_keys:
  "set (map hb_job_id (fst (touch_all now ids (rows, n)))) = set (map hb_job_id rows) \<union> set ids
   \<and> (distinct (map hb_job_id rows) \<longrightarrow> distinct (map hb_job_id (fst (touch_all now ids (rows, n)))))
   \<and> snd (touch_all now ids (rows, n)) = n + length ids"
proof (induction ids arbitrary: rows n)
  case (Cons i ids)
  have keys: "map hb_job_id (upsert_heartbeat now i w rows) =
      (if i \<in> set (map hb_job_id rows) then map hb_job_id rows else map hb_job_id rows @ [i])" for w
    by (auto simp: upsert_heartbeat_def list_ex_iff map_sql_update)
  have "set (map hb_job_id (upsert_heartbeat now i w rows)) = insert i (set (map hb_job_id rows))" for w
    unfolding keys by auto
  moreover have "distinct (map hb_job_id rows) \<longrightarrow> distinct (map hb_job_id (upsert_heartbeat now i w rows))" for w
    unfolding keys by auto
  ultimately show ?case using Cons.IH [of "upsert_heartbeat now i (lit ''worker-bench'') rows" "n + 1"] by auto
qed simp

lemma heartbeat_workload_keys:
  "0 < rounds \<Longrightarrow> set (map hb_job_id (fst (heartbeat_workload now ids rounds (rows, n)))) = set (map hb_job_id rows) \<union> set ids"
  "distinct (map hb_job_id rows) \<Longrightarrow> distinct (map hb_job_id (fst (heartbeat_workload now ids rounds (rows, n))))"
  "snd (heartbeat_workload now ids rounds (rows, n)) = n + rounds * length ids"
proof -
  show "snd (heartbeat_workload now ids rounds (rows, n)) = n + rounds * length ids"
    using touch_all_keys by (induction rounds arbitrary: rows n) (simp_all, metis (no_types, lifting) add.assoc prod.collapse)
  show "distinct (map hb_job_id rows) \<Longrightarrow> distinct (map hb_job_id (fst (heartbeat_workload now ids rounds (rows, n))))"
    using touch_all_keys by (induction rounds arbitrary: rows n) (simp_all, metis prod.collapse)
  show "0 < rounds \<Longrightarrow> set (map hb_job_id (fst (heartbeat_workload now ids rounds (rows, n)))) = set (map hb_job_id rows) \<union> set ids"
  proof (induction rounds arbitrary: rows n)
    case (Suc rounds)
    obtain rows' n' where t: "touch_all now ids (rows, n) = (rows', n')" by fastforce
    with touch_all_keys [of now ids rows n] have "set (map hb_job_id rows') = set (map hb_job_id rows) \<union> set ids" by simp
    with Suc.IH [of rows' n'] t show ?case by (cases rounds) auto
  qed simp
qed

text \<open>Every lifecycle of a new commit adds one finished row and touches no other.\<close>

lemma lifecycle_once_new:
  assumes "sha \<notin> pj_commit_sha ` set rows"
  shows "lifecycle_once i sha rows = rows @ [probe_finished (probe_claimed (probe_inserted sha i))]"
proof -
  have none: "sql_update (\<lambda>j. pj_commit_sha j = sha) f rows = rows" for f
    using assms by (intro sql_update_none) auto
  have app: "sql_update p f (xs @ ys) = sql_update p f xs @ sql_update p f ys" for p and f :: "probe_job \<Rightarrow> probe_job" and xs ys
    by (simp add: sql_update_def)
  show ?thesis
    by (simp add: lifecycle_once_def app none sql_update_Cons) (simp add: probe_inserted_def probe_claimed_def)
qed

lemma lifecycle_workload_rows:
  assumes "inj shas" "shas ` UNIV \<inter> pj_commit_sha ` set rows = {}"
  shows "lifecycle_workload shas n rows = rows @ map (\<lambda>i. probe_finished (probe_claimed (probe_inserted (shas i) i))) [0..<n]"
proof (induction n)
  case (Suc n)
  have "shas n \<notin> pj_commit_sha ` set (rows @ map (\<lambda>i. probe_finished (probe_claimed (probe_inserted (shas i) i))) [0..<n])"
    using assms by (auto simp: probe_finished_def probe_claimed_def probe_inserted_def inj_eq)
  with Suc show ?case by (simp add: lifecycle_once_new)
qed simp

section \<open>What the shares say\<close>

lemma share_mono:
  assumes "0 \<le> u" "u \<le> l" "0 \<le> j" "1 \<le> b" "b \<le> c"
  shows "0 \<le> eliminated_share l u j b" "eliminated_share l u j b \<le> eliminated_share l u j c"
    "eliminated_share l u j b \<le> 100" "0 < l \<Longrightarrow> eliminated_share l u j b \<le> (1 - u / l) * 100"
proof -
  have share: "eliminated_share l u j n = (if l = 0 then 0 else of_int n * (l - u) / (of_int n * l + j) * 100)" if "1 \<le> n" for n
  proof (cases "l = 0")
    case True
    with assms show ?thesis by (simp add: eliminated_share_def)
  next
    case False
    with assms that have "0 < of_int n * l + j" by (intro add_pos_nonneg mult_pos_pos) auto
    with False show ?thesis by (simp add: eliminated_share_def Let_def algebra_simps)
  qed
  have pos: "0 < of_int n * l + j" if "1 \<le> n" "l \<noteq> 0" for n :: int
    using assms that by (intro add_pos_nonneg mult_pos_pos) auto
  have b: "1 \<le> b" "1 \<le> c" using assms by auto
  show "0 \<le> eliminated_share l u j b"
    unfolding share [OF b(1)] using assms pos [OF b(1)] by (auto intro!: divide_nonneg_pos mult_nonneg_nonneg)
  have "of_int b * (l - u) * (of_int c * l + j) \<le> of_int c * (l - u) * (of_int b * l + j)"
  proof -
    have "of_int b * ((l - u) * j) \<le> of_int c * ((l - u) * j)" using assms by (intro mult_right_mono) auto
    then show ?thesis by (simp add: algebra_simps)
  qed
  then show "eliminated_share l u j b \<le> eliminated_share l u j c"
    using pos [of b] pos [of c] b by (auto simp: share b divide_le_eq le_divide_eq frac_le_eq divide_nonpos_pos diff_frac_eq)
  have "of_int b * (l - u) \<le> of_int b * l + j"
  proof -
    have "0 \<le> of_int b * u" using assms(1) b(1) by simp
    with assms(3) show ?thesis by (simp add: algebra_simps)
  qed
  then show "eliminated_share l u j b \<le> 100"
    using pos [of b] b by (simp add: share divide_le_eq)
  show "eliminated_share l u j b \<le> (1 - u / l) * 100" if "0 < l"
  proof -
    have "of_int b * (l - u) * l \<le> (l - u) * (of_int b * l + j)" using assms by (simp add: algebra_simps mult_left_mono)
    then have "of_int b * (l - u) / (of_int b * l + j) \<le> (l - u) / l"
      using pos [of b] b that by (simp add: frac_le_eq divide_le_eq le_divide_eq diff_frac_eq divide_nonpos_pos)
    also have "(l - u) / l = 1 - u / l" using that by (simp add: diff_divide_distrib)
    finally have "of_int b * (l - u) / (of_int b * l + j) * 100 \<le> (1 - u / l) * 100" by (rule mult_right_mono) simp
    moreover have "eliminated_share l u j b = of_int b * (l - u) / (of_int b * l + j) * 100" using that by (simp add: share b)
    ultimately show ?thesis by (simp only:)
  qed
qed

lemma beats_grow: "0 < interval \<Longrightarrow> d \<le> d' \<Longrightarrow> 1 \<le> beats_of interval d \<and> beats_of interval d \<le> beats_of interval d'"
  unfolding beats_of_def using zdiv_mono1 [of d d' interval] by (simp add: max_def)

text \<open>
  The printed shares are consistent: of a run that ends with a report, with a positive interval and number of jobs and an unlogged
  table that logs no more than the logged one, the share of the log that is eliminated grows with the duration of the job, is between 0 and
  100 percent, and never exceeds the percentage removed per heartbeat; and every number of heartbeats it assumes is at least one.
\<close>

theorem wal_shares_grow:
  assumes "wal_report ops n_jobs interval idle logged unlogged lifecycle = Inr r"
    and "0 < interval" "0 < n_jobs" "wl_unlogged r \<le> wl_logged r"
  shows "sorted (map wr_share (wl_rows r)) \<and> map wr_duration (wl_rows r) = durations
    \<and> list_all (\<lambda>row. 0 \<le> wr_share row \<and> wr_share row \<le> 100 \<and> 1 \<le> wr_beats row
        \<and> (case wl_drop r of None \<Rightarrow> True | Some dropped \<Rightarrow> wr_share row \<le> dropped)) (wl_rows r)"
proof -
  define l u j where "l = wl_logged r" and "u = wl_unlogged r" and "j = wl_job r"
  have hbs: "0 < total_heartbeats ops" by (simp add: total_heartbeats_def heartbeat_rounds_def)
  have net: "0 \<le> net a b c" for a b c by (simp add: net_def)
  from assms(1-3) have r: "wl_rows r = map (wal_row_of interval l u j) durations"
    "wl_drop r = (if 0 < l then Some ((1 - u / l) * 100) else None)" and nonneg: "0 \<le> u" "0 \<le> j"
    using hbs net by (auto simp: wal_report_def Let_def l_def u_def j_def split: if_splits intro!: divide_nonneg_pos)
  have le: "u \<le> l" using assms(4) by (simp add: l_def u_def)
  note facts = share_mono [OF nonneg(1) le nonneg(2)]
  note grow = beats_grow [OF assms(2)]
  have row: "0 \<le> eliminated_share l u j (beats_of interval d) \<and> eliminated_share l u j (beats_of interval d) \<le> 100
      \<and> 1 \<le> beats_of interval d \<and> (0 < l \<longrightarrow> eliminated_share l u j (beats_of interval d) \<le> (1 - u / l) * 100)" for d
    using facts [of "beats_of interval d" "beats_of interval d"] grow [of d d] by auto
  have mono: "eliminated_share l u j (beats_of interval d) \<le> eliminated_share l u j (beats_of interval d')" if "d \<le> d'" for d d'
    using facts(2) grow [OF that] by auto
  have "sorted (map wr_share (wl_rows r))"
    unfolding r by (auto simp: wal_row_of_def Let_def durations_def intro: mono)
  moreover have "map wr_duration (wl_rows r) = durations" by (simp add: r wal_row_of_def Let_def o_def)
  moreover have "list_all (\<lambda>row. 0 \<le> wr_share row \<and> wr_share row \<le> 100 \<and> 1 \<le> wr_beats row
      \<and> (case wl_drop r of None \<Rightarrow> True | Some dropped \<Rightarrow> wr_share row \<le> dropped)) (wl_rows r)"
    using row by (auto simp: r wal_row_of_def Let_def list_all_iff)
  ultimately show ?thesis by blast
qed

text \<open>
  What is measured: the workload executes as many statements as the report divides by, and leaves one heartbeat per job.
\<close>

lemma heartbeats_measured:
  assumes "distinct ids" "length ids = 100"
  shows "int (snd (heartbeat_workload now ids (nat (heartbeat_rounds ops)) ([], 0))) = total_heartbeats ops
    \<and> set (map hb_job_id (fst (heartbeat_workload now ids (nat (heartbeat_rounds ops)) ([], 0)))) = set ids
    \<and> distinct (map hb_job_id (fst (heartbeat_workload now ids (nat (heartbeat_rounds ops)) ([], 0))))"
proof -
  have "0 < nat (heartbeat_rounds ops)" "int (nat (heartbeat_rounds ops)) = heartbeat_rounds ops"
    by (simp_all add: heartbeat_rounds_def)
  then show ?thesis
    using heartbeat_workload_keys(1) [of "nat (heartbeat_rounds ops)" now ids "[]" 0]
      heartbeat_workload_keys(2) [of "[]" now ids "nat (heartbeat_rounds ops)" 0]
      heartbeat_workload_keys(3) [of now ids "nat (heartbeat_rounds ops)" "[]" 0] assms
    by (simp add: total_heartbeats_def)
qed

theorem wal_shares_grow_witness:
  "\<exists>r. wal_report 2000 500 30 (0, 5) (240000, 2) (0, 2) (600000, 3) = Inr r \<and> sorted (map wr_share (wl_rows r))"
proof -
  define r where "r = (case wal_report 2000 500 30 (0, 5) (240000, 2) (0, 2) (600000, 3) of Inr x \<Rightarrow> x | Inl e \<Rightarrow> undefined)"
  have r: "wal_report 2000 500 30 (0, 5) (240000, 2) (0, 2) (600000, 3) = Inr r" "wl_unlogged r \<le> wl_logged r"
    by (simp_all add: r_def wal_report_def Let_def net_def idle_rate_def total_heartbeats_def heartbeat_rounds_def)
  from wal_shares_grow [OF r(1) _ _ r(2)] show ?thesis using r(1) by auto
qed

end
