(* ===== verification/Deployment.thy ===== *)
theory Deployment
  imports JobLifecycle WorkerLoop Webhook
begin

text \<open>
  The parts together: web processes that receive deliveries and worker processes with their loops, jobs, heartbeats
  and reconciliation rounds share one database, and any of them may crash. The deployment steps at the grain of
  one transaction. Its invariant is that of the queue, of every worker's slots, and of the tokens in the workers'
  hands; every method of the program (a job, a heartbeat, a round, a shutdown, a delivery) is shown to be a
  sequence of steps of the deployment, as long as what the others do in between is one too.
\<close>

section \<open>Deployments\<close>

record deployment =
  dp_db :: db
  dp_workers :: "pystr \<Rightarrow> worker option"

definition token_of :: "job \<Rightarrow> uuid \<times> int" where
  "token_of j = (j_id j, j_fence_token j)"

text \<open>The tokens of the jobs a worker runs; a web process has none.\<close>

definition hand :: "deployment \<Rightarrow> pystr \<Rightarrow> (uuid \<times> int) set" where
  "hand s i = (case dp_workers s i of None \<Rightarrow> {} | Some wk \<Rightarrow> token_of ` set (wk_tasks wk))"

definition hands :: "deployment \<Rightarrow> (uuid \<times> int) set" where
  "hands s = (\<Union>i. hand s i)"

definition same_queue :: "db \<Rightarrow> db \<Rightarrow> bool" where
  "same_queue d d' \<longleftrightarrow> jobs d' = jobs d \<and> worker_heartbeats d' = worker_heartbeats d \<and> review_records d' = review_records d"

definition concurrency :: "settings \<Rightarrow> nat" where
  "concurrency cfg = nat (WORKER_CONCURRENCY cfg)"

datatype deployment_event = Started pystr | Turned pystr worker_event | Worked queue_event | Elsewhere | Left pystr

text \<open>
  A worker starts; its loop turns; its claim commits and is answered, or fails before or after its commit; somebody
  carries out an operation of the queue, settling jobs only with tokens in one hand; other tables change; a worker
  leaves or crashes.
\<close>

inductive deployment_step :: "(uuid \<Rightarrow> pystr) \<Rightarrow> settings \<Rightarrow> deployment \<Rightarrow> deployment_event \<Rightarrow> deployment \<Rightarrow> bool"
  for u cfg where
  starts: "dp_workers s i = None \<Longrightarrow> deployment_step u cfg s (Started i)
     (s\<lparr>dp_workers := (dp_workers s)(i \<mapsto> new_worker i (concurrency cfg))\<rparr>)"
| turns: "dp_workers s i = Some wk \<Longrightarrow> worker_step wk e wk' \<Longrightarrow> (\<And>r. e \<noteq> ClaimAnswered r) \<Longrightarrow>
     deployment_step u cfg s (Turned i e) (s\<lparr>dp_workers := (dp_workers s)(i \<mapsto> wk')\<rparr>)"
| claims: "dp_workers s i = Some wk \<Longrightarrow> wk_phase wk = Claiming \<Longrightarrow> claim_job now i locked (dp_db s) = (row, d') \<Longrightarrow>
     deployment_step u cfg s (Turned i (ClaimAnswered (Inr row)))
       (s\<lparr>dp_db := d', dp_workers := (dp_workers s)(i \<mapsto> claim_answered (Inr row) wk)\<rparr>)"
| claim_fails: "dp_workers s i = Some wk \<Longrightarrow> wk_phase wk = Claiming \<Longrightarrow>
     d' = dp_db s \<or> claim_job now i locked (dp_db s) = (row, d') \<Longrightarrow>
     deployment_step u cfg s (Turned i (ClaimAnswered (Inl e)))
       (s\<lparr>dp_db := d', dp_workers := (dp_workers s)(i \<mapsto> claim_answered (Inl e) wk)\<rparr>)"
| works: "queue_step u cfg (dp_db s) e d' \<Longrightarrow> allowed (hand s i) e \<Longrightarrow> (\<And>w row. e \<noteq> Claimed w row) \<Longrightarrow>
     deployment_step u cfg s (Worked e) (s\<lparr>dp_db := d'\<rparr>)"
| elsewhere: "same_queue (dp_db s) d' \<Longrightarrow> deployment_step u cfg s Elsewhere (s\<lparr>dp_db := d'\<rparr>)"
| leaves: "deployment_step u cfg s (Left i) (s\<lparr>dp_workers := (dp_workers s)(i := None)\<rparr>)"

definition new_deployment :: "deployment \<Rightarrow> bool" where
  "new_deployment s \<longleftrightarrow> s = \<lparr>dp_db = upgrade, dp_workers = (\<lambda>i. None)\<rparr>"

abbreviation deployed :: "(uuid \<Rightarrow> pystr) \<Rightarrow> settings \<Rightarrow> deployment \<Rightarrow> bool" where
  "deployed u cfg s \<equiv> reachable new_deployment (deployment_step u cfg) s"

section \<open>The invariant\<close>

text \<open>The slots of every worker add up, and every token is in one hand only, once.\<close>

definition worker_ok :: "settings \<Rightarrow> worker \<Rightarrow> bool" where
  "worker_ok cfg wk \<longleftrightarrow> slots_ok (concurrency cfg) wk \<and> distinct (map token_of (wk_tasks wk))"

definition deployment_ok :: "settings \<Rightarrow> deployment \<Rightarrow> bool" where
  "deployment_ok cfg s \<longleftrightarrow> client_ok (dp_db s, hands s)
     \<and> (\<forall>i wk. dp_workers s i = Some wk \<longrightarrow> worker_ok cfg wk)
     \<and> (\<forall>i j. i \<noteq> j \<longrightarrow> hand s i \<inter> hand s j = {})"

lemma hand_upd: "hand (s\<lparr>dp_workers := (dp_workers s)(i := x)\<rparr>) k =
    (if k = i then (case x of None \<Rightarrow> {} | Some wk \<Rightarrow> token_of ` set (wk_tasks wk)) else hand s k)"
  "hand (s\<lparr>dp_db := d\<rparr>) k = hand s k"
  "hand (s\<lparr>dp_db := d, dp_workers := (dp_workers s)(i := x)\<rparr>) k =
    (if k = i then (case x of None \<Rightarrow> {} | Some wk \<Rightarrow> token_of ` set (wk_tasks wk)) else hand s k)"
  by (auto simp: hand_def)

lemma hand_Some: "dp_workers s i = Some wk \<Longrightarrow> hand s i = token_of ` set (wk_tasks wk)"
  by (simp add: hand_def)

lemma hand_subset: "hand s i \<subseteq> hands s"
  by (auto simp: hands_def)

lemma client_ok_fewer: "client_ok (d, tokens) \<Longrightarrow> tokens' \<subseteq> tokens \<Longrightarrow> client_ok (d, tokens')"
  by (auto simp: client_ok_def)

text \<open>A token a claim hands out is in nobody's hand before: its row was pending.\<close>

lemma claimed_token_new:
  assumes "client_ok (d, tokens)" "claim_job now w locked d = (Some row, d')"
  shows "token_of row \<notin> tokens"
proof
  assume "token_of row \<in> tokens"
  have db: "db_ok d" using assms(1) by (simp add: client_ok_def)
  have "queue_step undefined undefined d (Claimed w (Some row)) d'" using assms(2) by (rule queue_step.claims)
  from claim_step_row [OF db this] obtain now' j where
    j: "j \<in> set (jobs d)" "j_status j = Pending" "row = claimed now' w j" by metis
  then have "holds_fence (fst (token_of row)) (snd (token_of row)) j" by (simp add: token_of_def holds_fence_def)
  with client_tokenD(1) [OF assms(1) _ j(1)] \<open>token_of row \<in> tokens\<close> j(2) show False by (metis prod.collapse)
qed

text \<open>Every step that keeps the workers' other tasks keeps the hands.\<close>

lemma tasks_of_turns:
  "wk_tasks (acquired wk) = wk_tasks wk" "wk_tasks (next_turn wk) = wk_tasks wk" "wk_tasks (stop wk) = wk_tasks wk"
  "wk_tasks (claim_answered (Inl e) wk) = wk_tasks wk" "wk_tasks (claim_answered (Inr None) wk) = wk_tasks wk"
  "wk_tasks (claim_answered (Inr (Some row)) wk) = wk_tasks wk @ [row]"
  "wk_tasks (job_ended row wk) = remove1 row (wk_tasks wk)"
  by (simp_all add: worker_ops)

lemma turn_tasks:
  assumes "worker_step wk e wk'" "\<And>r. e \<noteq> ClaimAnswered r"
  shows "set (wk_tasks wk') \<subseteq> set (wk_tasks wk) \<and> (distinct (map token_of (wk_tasks wk)) \<longrightarrow> distinct (map token_of (wk_tasks wk')))"
proof -
  have "distinct (map token_of (remove1 j js))" if "distinct (map token_of js)" for j js
    using that by (simp add: distinct_map distinct_remove1 inj_on_diff)
  with assms show ?thesis
    by (cases rule: worker_stepE) (auto simp: tasks_of_turns dest: set_remove1_subset [THEN subsetD])
qed

lemma deployment_ok_db:
  assumes "deployment_ok cfg s" "client_ok (d', hands s)"
  shows "deployment_ok cfg (s\<lparr>dp_db := d'\<rparr>)"
  using assms by (simp add: deployment_ok_def hands_def hand_upd)

lemma deployment_ok_worker:
  assumes ok: "deployment_ok cfg s" and d': "client_ok (d', hands s)"
    and wk: "\<And>wk'. x = Some wk' \<Longrightarrow> worker_ok cfg wk' \<and> token_of ` set (wk_tasks wk') \<subseteq> hand s i"
  shows "deployment_ok cfg (s\<lparr>dp_db := d', dp_workers := (dp_workers s)(i := x)\<rparr>)"
proof -
  let ?s = "s\<lparr>dp_db := d', dp_workers := (dp_workers s)(i := x)\<rparr>"
  have sub: "hand ?s k \<subseteq> hand s k" for k using wk by (cases x) (auto simp: hand_upd)
  then have "hands ?s \<subseteq> hands s" unfolding hands_def by blast
  with d' have "client_ok (dp_db ?s, hands ?s)" by (simp add: client_ok_fewer)
  moreover have "worker_ok cfg wk'" if "dp_workers ?s k = Some wk'" for k wk'
    using that wk ok by (auto simp: deployment_ok_def split: if_splits)
  moreover have "hand ?s k \<inter> hand ?s l = {}" if "k \<noteq> l" for k l
    using ok that sub [of k] sub [of l] unfolding deployment_ok_def by blast
  ultimately show ?thesis unfolding deployment_ok_def by blast
qed

lemma deployment_ok_claim:
  assumes ok: "deployment_ok cfg s" and wk: "dp_workers s i = Some wk" "wk_phase wk = Claiming"
    and claim: "claim_job now i locked (dp_db s) = (Some row, d')" and d': "client_ok (d', insert (token_of row) (hands s))"
  shows "deployment_ok cfg (s\<lparr>dp_db := d', dp_workers := (dp_workers s)(i \<mapsto> claim_answered (Inr (Some row)) wk)\<rparr>)"
proof -
  let ?wk = "claim_answered (Inr (Some row)) wk"
  let ?s = "s\<lparr>dp_db := d', dp_workers := (dp_workers s)(i \<mapsto> ?wk)\<rparr>"
  have new: "token_of row \<notin> hands s"
    using claimed_token_new [OF _ claim] ok by (auto simp: deployment_ok_def)
  have hand: "hand ?s k = (if k = i then insert (token_of row) (hand s i) else hand s k)" for k
    by (simp add: hand_upd tasks_of_turns hand_Some [OF wk(1)])
  have "hands ?s \<subseteq> insert (token_of row) (hands s)" by (auto simp: hands_def hand split: if_splits)
  with d' have "client_ok (dp_db ?s, hands ?s)" by (simp add: client_ok_fewer)
  moreover have "worker_ok cfg ?wk"
  proof -
    have old: "worker_ok cfg wk" using ok wk(1) by (simp add: deployment_ok_def)
    have "worker_step wk (ClaimAnswered (Inr (Some row))) ?wk" using wk(2) by (simp add: worker_step_simps)
    with old have "slots_ok (concurrency cfg) ?wk" by (auto simp: worker_ok_def intro: slots.inv_step)
    moreover have "token_of row \<notin> token_of ` set (wk_tasks wk)"
      using new hand_subset [of s i] hand_Some [OF wk(1)] by blast
    ultimately show ?thesis using old by (simp add: worker_ok_def tasks_of_turns)
  qed
  then have "worker_ok cfg wk'" if "dp_workers ?s k = Some wk'" for k wk'
    using that ok by (auto simp: deployment_ok_def split: if_splits)
  moreover have "hand ?s k \<inter> hand ?s l = {}" if "k \<noteq> l" for k l
    using ok that new hand_subset [of s k] hand_subset [of s l] unfolding deployment_ok_def hand by auto
  ultimately show ?thesis unfolding deployment_ok_def by blast
qed

text \<open>What a step does to the queue is an operation by a client that holds the tokens in all hands, or nothing.\<close>

lemma client_of_step:
  assumes "queue_step u cfg (dp_db s) e d'" "allowed (hand s i) e"
  shows "client_step u cfg (dp_db s, hands s) e (d', hands s \<union> handed_out e)"
proof -
  have "allowed (hands s) e"
    using assms(2) hand_subset [of s i] by (auto simp: allowed_def split: queue_event.splits)
  with assms(1) show ?thesis by (simp add: client_step_def)
qed

definition queue_run :: "(uuid \<Rightarrow> pystr) \<Rightarrow> settings \<Rightarrow> deployment \<Rightarrow> db \<Rightarrow> bool" where
  "queue_run u cfg s d' \<longleftrightarrow> same_queue (dp_db s) d'
     \<or> (\<exists>e. client_step u cfg (dp_db s, hands s) e (d', hands s \<union> handed_out e))"

lemma deployment_step_queue: "deployment_step u cfg s e s' \<Longrightarrow> queue_run u cfg s (dp_db s')"
proof (induction rule: deployment_step.induct)
  case (claims s i wk now locked row d')
  from queue_step.claims [OF this(3)] client_of_step [of u cfg s "Claimed i row" d' i]
  show ?case by (auto simp: queue_run_def allowed_def)
next
  case (claim_fails s i wk d' now locked row e)
  from this(3) queue_step.claims [of now i locked "dp_db s" row d' u cfg] client_of_step [of u cfg s "Claimed i row" d' i]
  show ?case by (auto simp: queue_run_def allowed_def same_queue_def)
next
  case (works s e d' i)
  from client_of_step [OF this(1,2)] show ?case by (auto simp: queue_run_def)
qed (simp_all add: queue_run_def same_queue_def)

lemma queue_run_ok:
  assumes "client_ok (dp_db s, hands s)" "queue_run u cfg s d'"
  shows "client_ok (d', hands s)" "entry_step\<^sup>*\<^sup>* (phase_of sha (dp_db s)) (phase_of sha d')"
proof -
  have same: "client_ok (d', hands s)" if "same_queue (dp_db s) d'"
    using that assms(1) db_ok_other_tables [of d' "dp_db s"]
    by (simp add: same_queue_def client_ok_def three_attempts_def token_ok_def)
  from assms(2) show "client_ok (d', hands s)"
    unfolding queue_run_def
  proof (elim disjE exE)
    fix e assume "client_step u cfg (dp_db s, hands s) e (d', hands s \<union> handed_out e)"
    from client_step_ok [OF assms(1) this] show ?thesis by (rule client_ok_fewer) simp
  qed (rule same)
  from assms(2) show "entry_step\<^sup>*\<^sup>* (phase_of sha (dp_db s)) (phase_of sha d')"
    unfolding queue_run_def
  proof (elim disjE exE)
    assume "same_queue (dp_db s) d'"
    then show ?thesis by (simp add: same_queue_def phase_of_same)
  next
    fix e assume "client_step u cfg (dp_db s, hands s) e (d', hands s \<union> handed_out e)"
    from client_step_phase [OF assms(1) this] show ?thesis by simp
  qed
qed

lemma deployment_ok_step:
  assumes "deployment_ok cfg s" "deployment_step u cfg s e s'"
  shows "deployment_ok cfg s'"
proof -
  have now: "client_ok (dp_db s, hands s)" using assms(1) by (simp add: deployment_ok_def)
  have after: "client_ok (dp_db s', hands s)" by (rule queue_run_ok(1) [OF now deployment_step_queue [OF assms(2)]])
  have set_worker: "deployment_ok cfg (s\<lparr>dp_workers := (dp_workers s)(i := x)\<rparr>)"
    if "\<And>wk'. x = Some wk' \<Longrightarrow> worker_ok cfg wk' \<and> token_of ` set (wk_tasks wk') \<subseteq> hand s i" for i x
    using deployment_ok_worker [OF assms(1) now that] by simp
  have worker: "worker_ok cfg wk" if "dp_workers s i = Some wk" for i wk
    using that assms(1) by (simp add: deployment_ok_def)
  have turn: "worker_ok cfg wk' \<and> token_of ` set (wk_tasks wk') \<subseteq> hand s i"
    if "dp_workers s i = Some wk" "worker_step wk e wk'" "\<And>r. e \<noteq> ClaimAnswered r" for i wk e wk'
  proof -
    have old: "slots_ok (concurrency cfg) wk" "distinct (map token_of (wk_tasks wk))"
      using worker [OF that(1)] by (simp_all add: worker_ok_def)
    from slots.inv_step [OF old(1) that(2)] turn_tasks [OF that(2,3)] old(2) show ?thesis
      by (simp add: worker_ok_def hand_Some [OF that(1)] image_mono)
  qed
  have answered: "deployment_ok cfg (s\<lparr>dp_db := dp_db s', dp_workers := (dp_workers s)(i \<mapsto> claim_answered r wk)\<rparr>)"
    if wk: "dp_workers s i = Some wk" "wk_phase wk = Claiming" and r: "r = Inr None \<or> (\<exists>e. r = Inl e)" for i wk r
  proof (rule deployment_ok_worker [OF assms(1) after])
    have step: "worker_step wk (ClaimAnswered r) (claim_answered r wk)" using wk(2) by (simp add: worker_step_simps)
    have old: "slots_ok (concurrency cfg) wk" "distinct (map token_of (wk_tasks wk))"
      using worker [OF wk(1)] by (simp_all add: worker_ok_def)
    have "wk_tasks (claim_answered r wk) = wk_tasks wk" using r by (auto simp: tasks_of_turns)
    with slots.inv_step [OF old(1) step] old(2)
    show "worker_ok cfg wk' \<and> token_of ` set (wk_tasks wk') \<subseteq> hand s i" if "Some (claim_answered r wk) = Some wk'" for wk'
      using that by (auto simp: worker_ok_def hand_Some [OF wk(1)])
  qed
  from assms(2) show ?thesis
  proof cases
    case (starts i)
    have "slots_ok (concurrency cfg) (new_worker i (concurrency cfg))" by (rule slots.inv_init) (rule refl)
    then have "worker_ok cfg (new_worker i (concurrency cfg))" by (simp add: worker_ok_def new_worker_def)
    then show ?thesis unfolding starts(2) by (intro set_worker) (auto simp: new_worker_def)
  next
    case (turns i wk e' wk')
    from turn [OF turns(3-5)] show ?thesis unfolding turns(2) by (intro set_worker) auto
  next
    case (claims i wk now locked row d')
    show ?thesis
    proof (cases row)
      case None
      with answered [OF claims(3,4), of "Inr None"] claims(2) show ?thesis by simp
    next
      case (Some r)
      note claim = claims(5) [unfolded Some]
      have "client_step u cfg (dp_db s, hands s) (Claimed i (Some r)) (d', hands s \<union> handed_out (Claimed i (Some r)))"
        by (rule client_of_step [OF queue_step.claims [OF claim], of i]) (simp add: allowed_def)
      from client_step_ok [OF now this] have "client_ok (d', insert (token_of r) (hands s))"
        by (simp add: handed_out_def token_of_def)
      from deployment_ok_claim [OF assms(1) claims(3,4) claim this] show ?thesis by (simp add: claims(2) Some)
    qed
  next
    case (claim_fails i wk d' now locked row e')
    with answered [OF claim_fails(3,4), of "Inl e'"] show ?thesis by simp
  next
    case (leaves i)
    then show ?thesis using set_worker [of None i] by simp
  qed (use after deployment_ok_db [OF assms(1)] in auto)
qed

interpretation deployment: simulation new_deployment "deployment_step u cfg" "deployment_ok cfg"
  "\<lambda>s. phase_of sha (dp_db s)" "\<lambda>p. p = Absent" entry_step for u cfg sha
proof
  show "deployment_ok cfg s" if "new_deployment s" for s
    using that lifecycle.inv_init [of "(upgrade, {})"]
    by (simp add: deployment_ok_def new_deployment_def hands_def hand_def)
  show "deployment_ok cfg t" if "deployment_ok cfg s" "deployment_step u cfg s e t" for s e t
    using that by (rule deployment_ok_step)
  show "phase_of sha (dp_db s) = Absent" if "new_deployment s" for s
    using that by (simp add: new_deployment_def phase_of_def upgrade_def)
  show "entry_step\<^sup>*\<^sup>* (phase_of sha (dp_db s)) (phase_of sha (dp_db t))"
    if "deployment_ok cfg s" "deployment_step u cfg s e t" for s e t
    using queue_run_ok(2) [OF _ deployment_step_queue [OF that(2)]] that(1) by (simp add: deployment_ok_def)
qed

lemma queue_run_evolves:
  assumes "client_ok (dp_db s, hands s)" "queue_run u cfg s d'"
  shows "db_evolves (dp_db s) d'"
  using assms(2) unfolding queue_run_def
proof (elim disjE exE)
  fix e assume "client_step u cfg (dp_db s, hands s) e (d', hands s \<union> handed_out e)"
  then have "queue_step u cfg (dp_db s) e d'" by (simp add: client_step_def)
  with assms(1) show ?thesis by (simp add: client_ok_def step_evolves)
qed (simp add: same_queue_def db_evolves_same_jobs)

interpretation evolving: ordered_system new_deployment "deployment_step u cfg" "deployment_ok cfg"
  "\<lambda>s s'. db_evolves (dp_db s) (dp_db s')" for u cfg
proof
  show "db_evolves (dp_db s) (dp_db t)" if "deployment_ok cfg s" "deployment_step u cfg s e t" for s e t
    using queue_run_evolves [OF _ deployment_step_queue [OF that(2)]] that(1) by (simp add: deployment_ok_def)
qed (auto intro: db_evolves_refl db_evolves_trans)

section \<open>Methods are sequences of steps\<close>

text \<open>
  From the database before to the database after a method: wherever the deployment stood, as long as the tokens
  were in the hand of worker \<open>i\<close>, it can take steps to the database after, and the tokens are still there. The same
  is relied on for what the others do between two transactions.
\<close>

definition steps_to :: "(uuid \<Rightarrow> pystr) \<Rightarrow> settings \<Rightarrow> deployment \<Rightarrow> deployment \<Rightarrow> bool" where
  "steps_to u cfg s s' \<longleftrightarrow> (\<exists>es. run (deployment_step u cfg) s es s')"

definition within :: "(uuid \<Rightarrow> pystr) \<Rightarrow> settings \<Rightarrow> pystr \<Rightarrow> (uuid \<times> int) set \<Rightarrow> db \<Rightarrow> db \<Rightarrow> bool" where
  "within u cfg i own d d' \<longleftrightarrow> (\<forall>s. dp_db s = d \<longrightarrow> own \<subseteq> hand s i \<longrightarrow>
     (\<exists>s'. steps_to u cfg s s' \<and> dp_db s' = d' \<and> own \<subseteq> hand s' i))"

definition joins :: "(uuid \<Rightarrow> pystr) \<Rightarrow> settings \<Rightarrow> pystr \<Rightarrow> (uuid \<times> int) set \<Rightarrow> world \<Rightarrow> world \<Rightarrow> bool" where
  "joins u cfg i own w w' \<longleftrightarrow> within u cfg i own (w_db w) (w_db w')"

definition hosted :: "(uuid \<Rightarrow> pystr) \<Rightarrow> settings \<Rightarrow> pystr \<Rightarrow> (uuid \<times> int) set \<Rightarrow> host \<Rightarrow> bool" where
  "hosted u cfg i own h \<longleftrightarrow> h_uuid_str h = u \<and> h_cfg h = cfg \<and> (\<forall>n d. within u cfg i own d (h_others h n d))"

lemma within_refl: "within u cfg i own d d"
  unfolding within_def steps_to_def by (blast intro: run_nil)

lemma steps_to_trans: "steps_to u cfg s s' \<Longrightarrow> steps_to u cfg s' s'' \<Longrightarrow> steps_to u cfg s s''"
  unfolding steps_to_def by (elim exE, rule exI, subst run_append, rule exI, rule conjI)

lemma withinE:
  assumes "within u cfg i own d d'" "dp_db s = d" "own \<subseteq> hand s i"
  obtains s' where "steps_to u cfg s s'" "dp_db s' = d'" "own \<subseteq> hand s' i"
  using assms unfolding within_def by blast

lemma within_trans:
  assumes "within u cfg i own d d'" "within u cfg i own d' d''"
  shows "within u cfg i own d d''"
  unfolding within_def
proof (intro allI impI)
  fix s assume "dp_db s = d" "own \<subseteq> hand s i"
  with assms(1) obtain s' where s': "steps_to u cfg s s'" "dp_db s' = d'" "own \<subseteq> hand s' i" by (rule withinE)
  from assms(2) s'(2,3) obtain s'' where "steps_to u cfg s' s''" "dp_db s'' = d''" "own \<subseteq> hand s'' i" by (rule withinE)
  with steps_to_trans [OF s'(1)] show "\<exists>s''. steps_to u cfg s s'' \<and> dp_db s'' = d'' \<and> own \<subseteq> hand s'' i" by blast
qed

lemma within_one:
  assumes "\<And>s. dp_db s = d \<Longrightarrow> own \<subseteq> hand s i \<Longrightarrow> \<exists>e. deployment_step u cfg s e (s\<lparr>dp_db := d'\<rparr>)"
  shows "within u cfg i own d d'"
  unfolding within_def
proof (intro allI impI)
  fix s assume s: "dp_db s = d" "own \<subseteq> hand s i"
  from assms [OF s] obtain e where "deployment_step u cfg s e (s\<lparr>dp_db := d'\<rparr>)" by blast
  then have "steps_to u cfg s (s\<lparr>dp_db := d'\<rparr>)" unfolding steps_to_def by (blast intro: run_cons run_nil)
  with s show "\<exists>s'. steps_to u cfg s s' \<and> dp_db s' = d' \<and> own \<subseteq> hand s' i"
    by (intro exI [of _ "s\<lparr>dp_db := d'\<rparr>"]) (simp add: hand_upd)
qed

lemma within_works:
  assumes "queue_step u cfg d e d'" "allowed own e" "\<And>w row. e \<noteq> Claimed w row"
  shows "within u cfg i own d d'"
proof (rule within_one)
  fix s assume s: "dp_db s = d" "own \<subseteq> hand s i"
  have "allowed (hand s i) e" using assms(2) s(2) by (auto simp: allowed_def split: queue_event.splits)
  then show "\<exists>e. deployment_step u cfg s e (s\<lparr>dp_db := d'\<rparr>)"
    using deployment_step.works assms(1,3) s(1) by blast
qed

lemma within_same: "same_queue d d' \<Longrightarrow> within u cfg i own d d'"
  by (rule within_one) (blast intro: deployment_step.elsewhere)

interpretation joins: kept_relation "joins u cfg i own" for u cfg i own
  by unfold_locales (simp_all add: joins_def within_refl within_trans [of u cfg i own])

lemma joins_io:
  "keeps (joins u cfg i own) (send h rq)" "keeps (joins u cfg i own) (clock h)" "keeps (joins u cfg i own) (send_ok h rq)"
proof -
  show send: "keeps (joins u cfg i own) (send h rq)" for h rq by (simp add: keeps_def send_def joins_def within_refl)
  show "keeps (joins u cfg i own) (clock h)" by (simp add: keeps_def clock_def joins_def within_refl)
  show "keeps (joins u cfg i own) (send_ok h rq)" unfolding send_ok_def by (intro joins.keeps_intros send)
qed

lemma joins_transact_at:
  assumes "hosted u cfg i own h" and d: "d = h_others h (w_ticks w) (w_db w)"
    and body: "\<And>now x d' acts. body now d = Inr (x, d', acts) \<Longrightarrow> within u cfg i own d d'"
  shows "joins u cfg i own w (snd (transact h body w))"
proof -
  have others: "within u cfg i own (w_db w) d" using assms(1) by (simp add: hosted_def d)
  show ?thesis
  proof (cases "body (h_clock h (w_ticks w)) d")
    case (Inr t)
    obtain x d' acts where t: "t = (x, d', acts)" by (cases t)
    have "within u cfg i own (w_db w) d'" using within_trans [OF others body] Inr t by simp
    with Inr t others d show ?thesis by (auto simp: transact_def Let_def joins_def split: option.split)
  qed (use others d in \<open>simp add: transact_def Let_def joins_def\<close>)
qed

lemma joins_transact:
  assumes "hosted u cfg i own h" "\<And>now d x d' acts. body now d = Inr (x, d', acts) \<Longrightarrow> within u cfg i own d d'"
  shows "keeps (joins u cfg i own) (transact h body)"
  unfolding keeps_def by (intro allI joins_transact_at [OF assms(1) refl]) (rule assms(2))

lemma joins_reads:
  assumes "hosted u cfg i own h" "\<And>now d x d' acts. body now d = Inr (x, d', acts) \<Longrightarrow> same_queue d d'"
  shows "keeps (joins u cfg i own) (transact h body)"
  using assms by (intro joins_transact within_same)

lemma joins_settles:
  assumes "hosted u cfg i own h" "(k, f) \<in> own"
  shows "st \<in> {Success, Failure} \<Longrightarrow> keeps (joins u cfg i own) (finalize h k f st fb)"
    "keeps (joins u cfg i own) (release h k f delay)"
proof -
  have h: "h_uuid_str h = u" "h_cfg h = cfg" using assms(1) by (simp_all add: hosted_def)
  show "keeps (joins u cfg i own) (finalize h k f st fb)" if "st \<in> {Success, Failure}"
    unfolding finalize_def
  proof (rule joins_transact [OF assms(1)], goal_cases)
    case (1 now d x d' acts)
    then have "queue_step u cfg d (Finalized k f st True) d'"
      using that queue_step.finalizes [of st u cfg now k f "Some fb" d d'] by (auto simp: h bind_Inr_iff)
    then show ?case using assms(2) by (intro within_works [where e = "Finalized k f st True"]) (simp_all add: allowed_def)
  qed
  show "keeps (joins u cfg i own) (release h k f delay)"
    unfolding release_def
  proof (rule joins_transact [OF assms(1)], goal_cases)
    case (1 now d x d' acts)
    then have "queue_step u cfg d (Released k f) d'" using queue_step.releases [of u cfg d k f now delay] by auto
    then show ?case using assms(2) by (intro within_works [where e = "Released k f"]) (simp_all add: allowed_def)
  qed
qed

subsection \<open>The worker's job\<close>

lemma joins_stores:
  assumes "hosted u cfg i own h"
  shows "keeps (joins u cfg i own) (store_check_run h k n)" "keeps (joins u cfg i own) (store_graph h repo syms refs)"
    "keeps (joins u cfg i own) (get_token h inst)"
proof -
  show "keeps (joins u cfg i own) (store_check_run h k n)"
    unfolding store_check_run_def
  proof (rule joins_transact [OF assms], goal_cases)
    case (1 now d x d' acts)
    then have "queue_step u cfg d (CheckRunSet k n) d'" using queue_step.sets_check_run [of u cfg d k n] by auto
    then show ?case by (rule within_works) (simp_all add: allowed_def)
  qed
  show "keeps (joins u cfg i own) (store_graph h repo syms refs)"
    unfolding store_graph_def by (rule joins_reads [OF assms]) (auto simp: same_queue_def persist_repo_graph_def)
  show "keeps (joins u cfg i own) (get_token h inst)"
    unfolding get_token_def Let_def
    by (intro joins.keeps_intros joins_io joins_reads [OF assms]) (auto simp: same_queue_def store_token_def Let_def)
qed

lemma joins_github:
  "keeps (joins u cfg i own) (update_check_run h repo n token c out)"
  "keeps (joins u cfg i own) (create_check_run h repo sha token)"
  "keeps (joins u cfg i own) (attach_source h repo sha token budget fs)"
  "keeps (joins u cfg i own) (post_review h repo n sha cs token body)"
proof -
  show "keeps (joins u cfg i own) (update_check_run h repo n token c out)"
    unfolding update_check_run_def by (intro joins.keeps_intros joins_io)
  show "keeps (joins u cfg i own) (create_check_run h repo sha token)"
    unfolding create_check_run_def by (intro joins.keeps_intros joins_io)
  show "keeps (joins u cfg i own) (attach_source h repo sha token budget fs)"
    by (induction h repo sha token budget fs rule: attach_source.induct)
      (auto simp: fetch_source_def fetch_file_content_def intro!: joins.keeps_intros joins_io)
  have comments: "keeps (joins u cfg i own) (post_comments h url token sha cs)" for url cs
    by (induction h url token sha cs rule: post_comments.induct)
      (auto simp: send_review_payload_def intro!: joins.keeps_intros joins_io)
  show "keeps (joins u cfg i own) (post_review h repo n sha cs token body)"
    unfolding post_review_def Let_def already_reviewed_def send_review_payload_def
    by (intro joins.keeps_intros joins_io comments)
qed

lemmas joins_operations = joins.keeps_intros joins_io joins_stores joins_github joins_settles

lemma joins_process_job:
  assumes "hosted u cfg i own h" "token_of job \<in> own"
  shows "keeps (joins u cfg i own) (process_job h env job)"
proof -
  note assms = assms(1) assms(2) [unfolded token_of_def]
  have start: "keeps (joins u cfg i own) (start_check_run h job token)" for token
    unfolding start_check_run_def by (intro joins_operations assms)
  have review: "keeps (joins u cfg i own) (review_job h env job token cr)" for token cr
    unfolding review_job_def publish_def Let_def fetch_diff_def fetch_pull_files_def fetch_pull_request_def
    by (intro joins_operations assms) simp_all
  have failed: "keeps (joins u cfg i own) (on_error h job token cr e)" for token cr e
    unfolding on_error_def Let_def by (intro joins_operations assms) simp_all
  show ?thesis
    unfolding process_job_def by (intro joins_operations start review failed assms) simp_all
qed

subsection \<open>Heartbeats, reconciliation, shutdown, deliveries\<close>

lemma joins_heartbeat:
  assumes "hosted u cfg i own h"
  shows "keeps (joins u cfg i own) (run_heartbeat h k me n)"
proof (induction n)
  case (Suc n)
  have "keeps (joins u cfg i own) (beat h k me)"
    unfolding beat_def
  proof (rule joins_transact [OF assms], goal_cases)
    case (1 now d x d' acts)
    then have "queue_step u cfg d (Beat k me x) d'" using queue_step.beats [of now k me d x d' u cfg] by (auto split: prod.splits)
    then show ?case by (rule within_works) (simp_all add: allowed_def)
  qed
  with Suc show ?case by (auto intro!: joins.keeps_intros)
qed (simp add: joins.keeps_return)

lemma joins_round:
  assumes "hosted u cfg i own h"
  shows "keeps (joins u cfg i own) (reconcile_round h read_float locked)"
proof -
  have "keeps (joins u cfg i own) (reconcile h locked)"
    unfolding reconcile_def
  proof (rule joins_transact [OF assms], goal_cases)
    case (1 now d x d' acts)
    then have "queue_step u cfg d (queue_event.Reconciled x) d'"
      using assms queue_step.reconciles [of cfg now locked d x d' u] by (auto simp: hosted_def split: prod.splits)
    then show ?case by (rule within_works) (simp_all add: allowed_def)
  qed
  moreover have "keeps (joins u cfg i own) (report_stalled h read_float job)" for job
    unfolding report_stalled_def by (intro joins_operations assms)
  then have "keeps (joins u cfg i own) (report_all h read_float rows)" for rows
    by (induction rows) (auto intro!: joins.keeps_intros)
  ultimately show ?thesis unfolding reconcile_round_def by (intro joins.keeps_intros)
qed

lemma joins_shutdown:
  assumes "hosted u cfg i (token_of ` set (wk_tasks wk)) h" "tracked wk"
  shows "keeps (joins u cfg i (token_of ` set (wk_tasks wk))) (shutdown h wk)"
proof -
  have "keeps (joins u cfg i own) (release_each h active)"
    if "\<forall>(k, m) \<in> set active. (k, aj_fence_token m) \<in> own" "hosted u cfg i own h" for own active
    using that by (induction active) (auto intro!: joins_operations)
  moreover have "\<forall>(k, m) \<in> set (wk_active wk). (k, aj_fence_token m) \<in> token_of ` set (wk_tasks wk)"
    using assms(2) by (force simp: tracked_def active_of_def token_of_def)
  ultimately show ?thesis using assms(1) by (simp add: shutdown_def)
qed

lemma joins_enqueue:
  assumes "hosted u cfg i own h" "new_id \<notin> j_id ` set (jobs (h_others h (w_ticks w) (w_db w)))"
  shows "joins u cfg i own w (snd (enqueue h new_id ctx ev w))"
  unfolding enqueue_def
proof (rule joins_transact_at [OF assms(1) refl], goal_cases)
  case (1 now x d' acts)
  then have "queue_step u cfg (h_others h (w_ticks w) (w_db w)) (queue_event.Enqueued (pe_sha ev) x) d'"
    using queue_step.enqueues [OF assms(2)] by (auto split: prod.splits)
  then show ?case by (rule within_works) (simp_all add: allowed_def)
qed

lemma joins_delivery:
  assumes "hosted u cfg i own h" "new_id \<notin> j_id ` set (jobs (h_others h (w_ticks w) (w_db w)))"
  shows "joins u cfg i own w (snd (github_webhook hmac_hex read_float to_text h new_id ctx body event sig w))"
proof -
  have override: "keeps (joins u cfg i own) (issue_comment_event h payload)" for payload
  proof -
    have "keeps (joins u cfg i own) (override_check_run h repo num inst c)" for repo num inst c
      unfolding override_check_run_def fetch_pull_request_def find_check_run_def
      by (intro joins_operations assms(1) joins_reads [OF assms(1)]) (simp_all add: same_queue_def)
    then show ?thesis
      unfolding issue_comment_event_def by (auto intro!: joins.keeps_intros split: option.split sum.split)
  qed
  have same: "w_db (snd (io_catch (io_bind m (\<lambda>x. io_return (f x))) (\<lambda>e. io_return (g e)) w)) = w_db (snd (m w))"
    for m :: "bool io" and f and g :: "exn \<Rightarrow> answer"
    by (cases "m w"; cases "fst (m w)") (simp_all add: io_defs)
  have "joins u cfg i own w (snd (pull_request_event h new_id ctx payload w))" for payload
    using joins_enqueue [OF assms, of ctx]
    by (auto simp: pull_request_event_def io_return_def joins_def within_refl same
        split: option.split sum.split)
  with override show ?thesis
    by (auto simp: github_webhook_def io_return_def joins_def within_refl keeps_def split: option.split sum.split)
qed

section \<open>What a deployment guarantees\<close>


text \<open>
  C5. No two running jobs of a deployment can settle the same row: whatever happened before, at most one of the
  jobs that the workers run carries a row's current token; every job that runs is for a row of the table, whose
  token is newer or which is neither waiting nor given up; and no worker runs more jobs than its concurrency.
\<close>

theorem deployment_exclusive:
  assumes "deployed u cfg s" "dp_workers s i = Some wk" "job \<in> set (wk_tasks wk)"
    and "dp_workers s i' = Some wk'" "job' \<in> set (wk_tasks wk')" "(i, job) \<noteq> (i', job')"
  shows "\<not> (holds_fence (j_id job) (j_fence_token job) row \<and> holds_fence (j_id job') (j_fence_token job') row)
    \<and> list_ex (\<lambda>r. j_id r = j_id job \<and> (j_fence_token job < j_fence_token r
         \<or> j_fence_token job = j_fence_token r \<and> j_status r \<notin> {Pending, Dead})) (jobs (dp_db s))
    \<and> length (wk_tasks wk) \<le> concurrency cfg"
proof (intro conjI)
  have ok: "deployment_ok cfg s" by (rule deployment.inv_reachable [OF assms(1)])
  have hand: "token_of job \<in> hand s i" "token_of job' \<in> hand s i'"
    using assms(3,5) by (simp_all add: hand_Some assms(2,4))
  have wk: "worker_ok cfg wk" using ok assms(2) by (simp add: deployment_ok_def)
  have "token_of job \<noteq> token_of job'"
  proof (cases "i = i'")
    case True
    with assms(2,4,6) have "wk' = wk" "job \<noteq> job'" by simp_all
    with wk assms(3,5) show ?thesis by (auto simp: worker_ok_def distinct_map inj_on_def)
  next
    case False
    then have "hand s i \<inter> hand s i' = {}" using ok by (simp add: deployment_ok_def)
    with hand show ?thesis by (metis disjoint_iff)
  qed
  then show "\<not> (holds_fence (j_id job) (j_fence_token job) row \<and> holds_fence (j_id job') (j_fence_token job') row)"
    by (auto simp: token_of_def holds_fence_def)
  have "token_ok (dp_db s) (token_of job)"
    using ok hand(1) hand_subset [of s i] by (auto simp: deployment_ok_def client_ok_def)
  then show "list_ex (\<lambda>r. j_id r = j_id job \<and> (j_fence_token job < j_fence_token r
         \<or> j_fence_token job = j_fence_token r \<and> j_status r \<notin> {Pending, Dead})) (jobs (dp_db s))"
    by (force simp: token_ok_def token_of_def list_ex_iff)
  show "length (wk_tasks wk) \<le> concurrency cfg"
    using wk by (simp add: worker_ok_def slots_ok_def held_def)
qed


text \<open>
  C7. So are the other activities: a heartbeat of a job, a reconciliation round, a graceful shutdown and a
  delivery to the webhook end, from any point of a deployment's life and with the others acting in between, in the
  tables of a run of the deployment.
\<close>

theorem services_within_deployment:
  assumes "deployed u cfg s" "dp_db s = w_db w" "hosted u cfg i (hand s i) h"
    and "w' = snd (run_heartbeat h k me n w) \<or> w' = snd (reconcile_round h fl locked w)
      \<or> (dp_workers s i = Some wk \<and> w' = snd (shutdown h wk w))
      \<or> (new_id \<notin> j_id ` set (jobs (h_others h (w_ticks w) (w_db w)))
          \<and> w' = snd (github_webhook hmac_hex fl to_text h new_id ctx body event sig w))"
  shows "\<exists>s'. steps_to u cfg s s' \<and> dp_db s' = w_db w' \<and> hand s i \<subseteq> hand s' i \<and> deployed u cfg s'"
proof -
  have "joins u cfg i (hand s i) w w'"
    using assms(4)
  proof (elim disjE conjE)
    assume wk: "dp_workers s i = Some wk" and w': "w' = snd (shutdown h wk w)"
    have "worker_ok cfg wk" using deployment.inv_reachable [OF assms(1)] wk by (simp add: deployment_ok_def)
    then have "tracked wk" by (simp add: worker_ok_def slots_ok_def)
    with joins_shutdown [of u cfg i wk h] assms(3) show ?thesis by (simp add: w' hand_Some [OF wk] keeps_def)
  next
    assume "w' = snd (run_heartbeat h k me n w)"
    with joins_heartbeat [OF assms(3)] show ?thesis by (simp add: keeps_def)
  next
    assume "w' = snd (reconcile_round h fl locked w)"
    with joins_round [OF assms(3)] show ?thesis by (simp add: keeps_def)
  next
    assume new: "new_id \<notin> j_id ` set (jobs (h_others h (w_ticks w) (w_db w)))"
      and "w' = snd (github_webhook hmac_hex fl to_text h new_id ctx body event sig w)"
    with joins_delivery [OF assms(3) new] show ?thesis by simp
  qed
  then obtain s' where s': "steps_to u cfg s s'" "dp_db s' = w_db w'" "hand s i \<subseteq> hand s' i"
    unfolding joins_def by (rule withinE) (use assms(2) in auto)
  moreover have "deployed u cfg s'" using s'(1) assms(1) reachable_run unfolding steps_to_def by metis
  ultimately show ?thesis by blast
qed


section \<open>A deployment at work\<close>

lemma deployed_works:
  assumes "deployed u cfg s" "queue_step u cfg (dp_db s) e d'" "allowed {} e" "\<And>w row. e \<noteq> Claimed w row"
  shows "deployed u cfg (s\<lparr>dp_db := d'\<rparr>)"
proof -
  have "allowed (hand s []) e" using assms(3) by (auto simp: allowed_def split: queue_event.splits)
  with assms(2) have "deployment_step u cfg s (Worked e) (s\<lparr>dp_db := d'\<rparr>)"
    by (rule deployment_step.works) (rule assms(4))
  with assms(1) show ?thesis by (rule reachable_step)
qed

definition first_claim :: "settings \<Rightarrow> pystr \<Rightarrow> job \<Rightarrow> worker" where
  "first_claim cfg i row = claim_answered (Inr (Some row)) (acquired (new_worker i (concurrency cfg)))"

lemma deployed_claims:
  assumes "deployed u cfg s" "dp_workers s i = None" "0 < concurrency cfg"
    and "claim_job now i locked (dp_db s) = (Some row, d')"
  shows "deployed u cfg (s\<lparr>dp_db := d', dp_workers := (dp_workers s)(i \<mapsto> first_claim cfg i row)\<rparr>)"
proof -
  let ?new = "new_worker i (concurrency cfg)"
  let ?s1 = "s\<lparr>dp_workers := (dp_workers s)(i \<mapsto> ?new)\<rparr>"
  let ?s2 = "?s1\<lparr>dp_workers := (dp_workers ?s1)(i \<mapsto> acquired ?new)\<rparr>"
  have s1: "deployed u cfg ?s1" by (rule reachable_step [OF assms(1) deployment_step.starts [OF assms(2)]])
  have "worker_step ?new Acquired (acquired ?new)"
    using assms(3) by (simp add: worker_step_simps new_worker_def)
  then have "deployment_step u cfg ?s1 (Turned i Acquired) ?s2" by (intro deployment_step.turns) simp_all
  with s1 have s2: "deployed u cfg ?s2" by (rule reachable_step)
  have "deployment_step u cfg ?s2 (Turned i (ClaimAnswered (Inr (Some row))))
      (?s2\<lparr>dp_db := d', dp_workers := (dp_workers ?s2)(i \<mapsto> first_claim cfg i row)\<rparr>)"
    unfolding first_claim_def using assms(4)
    by (intro deployment_step.claims) (simp_all add: acquired_def new_worker_def)
  with s2 have "deployed u cfg (?s2\<lparr>dp_db := d', dp_workers := (dp_workers ?s2)(i \<mapsto> first_claim cfg i row)\<rparr>)"
    by (rule reachable_step)
  then show ?thesis by simp
qed

lemma first_claim_tasks: "wk_tasks (first_claim cfg i row) = [row]"
  by (simp add: first_claim_def tasks_of_turns new_worker_def)

text \<open>Worker \<open>w1\<close> stalls with its job, the job is reclaimed, and worker \<open>w2\<close> claims it; both still run.\<close>

definition two_workers :: deployment where
  "two_workers = \<lparr>dp_db = q4, dp_workers = [w1 \<mapsto> first_claim default_settings w1 row1,
     w2 \<mapsto> first_claim default_settings w2 row2]\<rparr>"

lemma demo_deployed: "deployed demo_uuid default_settings two_workers"
proof -
  let ?fresh = "\<lparr>dp_db = upgrade, dp_workers = (\<lambda>i. None)\<rparr>"
  have n: "0 < concurrency default_settings" by (simp add: concurrency_def default_settings_def)
  have names: "w2 \<noteq> w1" by (simp add: w1_def w2_def lit_def)
  have "deployed demo_uuid default_settings ?fresh" by (rule reachable_init) (simp add: new_deployment_def)
  from deployed_works [OF this, of "queue_event.Enqueued demo_sha True" q1] demo_steps(1)
  have "deployed demo_uuid default_settings (?fresh\<lparr>dp_db := q1\<rparr>)" by (simp add: allowed_def)
  from deployed_claims [OF this _ n, of w1 "seconds 5" nobody row1 q2] demo_ops(2)
  have "deployed demo_uuid default_settings \<lparr>dp_db = q2, dp_workers = [w1 \<mapsto> first_claim default_settings w1 row1]\<rparr>" by simp
  from deployed_works [OF this, of "queue_event.Reconciled [row1']" q3] demo_steps(3)
  have "deployed demo_uuid default_settings \<lparr>dp_db = q3, dp_workers = [w1 \<mapsto> first_claim default_settings w1 row1]\<rparr>"
    by (simp add: allowed_def)
  from deployed_claims [OF this _ n, of w2 "seconds 300" nobody row2 q4] demo_ops(4) names
  show ?thesis by (simp add: two_workers_def)
qed

text \<open>A host on which a reconciliation of the others comes before every transaction.\<close>

definition busy_host :: host where
  "busy_host = quiet_host\<lparr>h_others := \<lambda>n d. snd (reconcile_stale_jobs default_settings (seconds 300) nobody d)\<rparr>"

lemma busy_hosted: "hosted demo_uuid default_settings i own busy_host"
proof -
  have "within demo_uuid default_settings i own d (snd (reconcile_stale_jobs default_settings (seconds 300) nobody d))" for d
    by (rule within_works [OF queue_step.reconciles [OF prod.collapse [symmetric]]]) (simp_all add: allowed_def)
  then show ?thesis by (simp add: hosted_def busy_host_def quiet_host_def demo_uuid_def fun_eq_iff)
qed

lemma demo_hand: "dp_workers two_workers w1 = Some (first_claim default_settings w1 row1)"
  "dp_workers two_workers w2 = Some (first_claim default_settings w2 row2)" "dp_db two_workers = q4"
  by (simp_all add: two_workers_def w1_def w2_def lit_def)


theorem deployment_exclusive_witness:
  "\<not> (holds_fence (j_id row2) (j_fence_token row2) row2 \<and> holds_fence (j_id row1) (j_fence_token row1) row2)"
  using deployment_exclusive [OF demo_deployed demo_hand(2) _ demo_hand(1), of row2 row1 row2]
  by (simp add: first_claim_tasks w1_def w2_def lit_def)


theorem services_within_deployment_witness:
  "\<exists>s'. deployed demo_uuid default_settings s' \<and>
     dp_db s' = w_db (snd (shutdown busy_host (first_claim default_settings w2 row2) (fresh_world q4)))"
proof -
  have "dp_db two_workers = w_db (fresh_world q4)" by (simp add: demo_hand fresh_world_def)
  from services_within_deployment [OF demo_deployed this busy_hosted,
      where w' = "snd (shutdown busy_host (first_claim default_settings w2 row2) (fresh_world q4))"] demo_hand(2)
  show ?thesis by blast
qed

end
