(* ===== verification/Delivery.thy ===== *)
theory Delivery
  imports JobLifecycle Webhook
begin

text \<open>
  One commit from its delivery to its result: the web process, the claim and the job together. As long as
  transactions commit and nobody takes the leases of the worker away, a delivered commit ends up reviewed,
  failed with a record, or queued again with a new token, whatever GitHub and the model do.
\<close>

section \<open>Holding a lease\<close>

text \<open>
  A host on which every transaction commits and the other processes, whatever else they do to the queue by its
  operations, leave the leases of worker \<open>i\<close> alone.
\<close>

definition leases_kept :: "pystr \<Rightarrow> db \<Rightarrow> db \<Rightarrow> bool" where
  "leases_kept i d d' \<longleftrightarrow> (\<forall>j \<in> set (jobs d). j_worker_id j = Some i \<longrightarrow> j_status j = Processing \<longrightarrow>
     (\<exists>j' \<in> set (jobs d'). j_id j' = j_id j \<and> j_commit_sha j' = j_commit_sha j \<and> j_worker_id j' = Some i
        \<and> phase_of_job j' = phase_of_job j))"

definition loyal_host :: "pystr \<Rightarrow> host \<Rightarrow> bool" where
  "loyal_host i h \<longleftrightarrow> (\<forall>n. h_fault h n = None)
     \<and> (\<forall>n d. db_ok d \<longrightarrow> db_ok (h_others h n d) \<and> leases_kept i d (h_others h n d))"

definition holds_lease :: "pystr \<Rightarrow> job \<Rightarrow> db \<Rightarrow> bool" where
  "holds_lease i job d \<longleftrightarrow> db_ok d \<and> (\<exists>j \<in> set (jobs d). j_id j = j_id job \<and> j_commit_sha j = j_commit_sha job
     \<and> j_worker_id j = Some i \<and> j_status j = Processing \<and> phase_of_job j = phase_of_job job)"

text \<open>What a lease ends in when its worker is done with it.\<close>

definition lease_ended :: "job \<Rightarrow> db \<Rightarrow> bool" where
  "lease_ended job d \<longleftrightarrow> db_ok d \<and> (\<exists>j \<in> set (jobs d). j_id j = j_id job \<and> j_commit_sha j = j_commit_sha job
     \<and> phase_of_job j \<in> {Settled Success (j_fence_token job) (j_attempt_count job),
          Settled Failure (j_fence_token job) (j_attempt_count job), Queued (j_fence_token job + 1) (j_attempt_count job)})"

lemma phase_of_job_status: "phase_of_job j = phase_of_job k \<Longrightarrow> j_status j = Processing \<Longrightarrow>
    j_status k = Processing \<and> j_fence_token j = j_fence_token k \<and> j_attempt_count j = j_attempt_count k"
  by (auto simp: phase_of_job_def split: job_status.splits)

lemma holds_lease_kept:
  assumes "holds_lease i job d" "leases_kept i d d'" "db_ok d'"
  shows "holds_lease i job d'"
proof -
  obtain j where j: "j \<in> set (jobs d)" "j_id j = j_id job" "j_commit_sha j = j_commit_sha job"
    "j_worker_id j = Some i" "j_status j = Processing" "phase_of_job j = phase_of_job job"
    using assms(1) by (auto simp: holds_lease_def)
  obtain j' where j': "j' \<in> set (jobs d')" "j_id j' = j_id j" "j_commit_sha j' = j_commit_sha j"
    "j_worker_id j' = Some i" "phase_of_job j' = phase_of_job j"
    using assms(2) j by (auto simp: leases_kept_def)
  with j phase_of_job_status [of j j'] assms(3) show ?thesis by (auto simp: holds_lease_def)
qed

lemma leases_kept_same: "jobs d' = jobs d \<Longrightarrow> leases_kept i d d'"
  by (auto simp: leases_kept_def)

lemma leases_kept_update:
  assumes "jobs d' = sql_update p f (jobs d)"
    and "\<And>j. j_id (f j) = j_id j \<and> j_commit_sha (f j) = j_commit_sha j \<and> j_worker_id (f j) = j_worker_id j
      \<and> phase_of_job (f j) = phase_of_job j"
  shows "leases_kept i d d'"
  unfolding leases_kept_def
proof (intro ballI impI)
  fix j assume j: "j \<in> set (jobs d)" "j_worker_id j = Some i" "j_status j = Processing"
  have "(if p j then f j else j) \<in> set (jobs d')" using j(1) by (auto simp: assms(1) sql_update_def)
  with assms(2) j(2) show "\<exists>j' \<in> set (jobs d'). j_id j' = j_id j \<and> j_commit_sha j' = j_commit_sha j \<and> j_worker_id j' = Some i
      \<and> phase_of_job j' = phase_of_job j" by (intro bexI [of _ "if p j then f j else j"]) auto
qed

section \<open>Methods that keep the lease\<close>

definition keeps_lease :: "pystr \<Rightarrow> job \<Rightarrow> world \<Rightarrow> world \<Rightarrow> bool" where
  "keeps_lease i job w w' \<longleftrightarrow> (holds_lease i job (w_db w) \<longrightarrow> holds_lease i job (w_db w'))"

interpretation lease: kept_relation "keeps_lease i job" for i job
  by unfold_locales (auto simp: keeps_lease_def)

lemma lease_io: "keeps (keeps_lease i job) (send h rq)" "keeps (keeps_lease i job) (clock h)"
  "keeps (keeps_lease i job) (send_ok h rq)"
proof -
  show send: "keeps (keeps_lease i job) (send h rq)" for h rq by (simp add: keeps_def send_def keeps_lease_def)
  show "keeps (keeps_lease i job) (clock h)" by (simp add: keeps_def clock_def keeps_lease_def)
  show "keeps (keeps_lease i job) (send_ok h rq)" unfolding send_ok_def by (intro lease.keeps_intros send)
qed

lemma loyal_others:
  assumes "loyal_host i h" "holds_lease i job d"
  shows "holds_lease i job (h_others h n d)"
proof -
  have "db_ok d" using assms(2) by (simp add: holds_lease_def)
  with assms(1) have "leases_kept i d (h_others h n d)" "db_ok (h_others h n d)" by (simp_all add: loyal_host_def)
  with assms(2) show ?thesis by (rule holds_lease_kept)
qed

lemma lease_transact:
  assumes "loyal_host i h"
    and "\<And>now d x d' acts. db_ok d \<Longrightarrow> body now d = Inr (x, d', acts) \<Longrightarrow> db_ok d' \<and> leases_kept i d d'"
  shows "keeps (keeps_lease i job) (transact h body)"
  unfolding keeps_def keeps_lease_def
proof (intro allI impI)
  fix w :: world assume "holds_lease i job (w_db w)"
  then have d: "holds_lease i job (h_others h (w_ticks w) (w_db w))" by (rule loyal_others [OF assms(1)])
  then have "db_ok (h_others h (w_ticks w) (w_db w))" by (simp add: holds_lease_def)
  with d assms(2) holds_lease_kept show "holds_lease i job (w_db (snd (transact h body w)))"
    using assms(1) by (fastforce simp: transact_def Let_def loyal_host_def split: sum.split)
qed

lemma lease_stores:
  assumes "loyal_host i h"
  shows "keeps (keeps_lease i job) (store_check_run h k n)" "keeps (keeps_lease i job) (store_graph h repo syms refs)"
    "keeps (keeps_lease i job) (get_token h inst)"
proof -
  have same: "db_ok d' \<and> leases_kept i d d'"
    if "db_ok d" "jobs d' = jobs d" "worker_heartbeats d' = worker_heartbeats d" "review_records d' = review_records d" for d d'
    using that db_ok_other_tables [OF that(2-4)] leases_kept_same by simp
  show "keeps (keeps_lease i job) (store_check_run h k n)"
    unfolding store_check_run_def
  proof (rule lease_transact [OF assms], goal_cases)
    case (1 now d x d' acts)
    then have d': "d' = set_check_run_id k n d" by simp
    have "db_ok d'" unfolding d' by (rule queue_step_ok [OF queue_step.sets_check_run 1(1)])
    moreover have "leases_kept i d d'"
      by (rule leases_kept_update [where p = "\<lambda>j. j_id j = k" and f = "\<lambda>j. j\<lparr>j_github_check_run_id := Some n\<rparr>"])
        (simp_all add: d' set_check_run_id_def)
    ultimately show ?case by simp
  qed
  show "keeps (keeps_lease i job) (store_graph h repo syms refs)"
    unfolding store_graph_def by (rule lease_transact [OF assms], rule same) (auto simp: persist_repo_graph_def)
  show "keeps (keeps_lease i job) (get_token h inst)"
    unfolding get_token_def Let_def
    by (intro lease.keeps_intros lease_io lease_transact [OF assms] same) (auto simp: store_token_def Let_def)
qed

lemma lease_github:
  "keeps (keeps_lease i job) (update_check_run h repo n token c out)"
  "keeps (keeps_lease i job) (create_check_run h repo sha token)"
  "keeps (keeps_lease i job) (attach_source h repo sha token budget fs)"
  "keeps (keeps_lease i job) (post_review h repo n sha cs token body)"
proof -
  show "keeps (keeps_lease i job) (update_check_run h repo n token c out)"
    unfolding update_check_run_def by (intro lease.keeps_intros lease_io)
  show "keeps (keeps_lease i job) (create_check_run h repo sha token)"
    unfolding create_check_run_def by (intro lease.keeps_intros lease_io)
  show "keeps (keeps_lease i job) (attach_source h repo sha token budget fs)"
    by (induction h repo sha token budget fs rule: attach_source.induct)
      (auto simp: fetch_source_def fetch_file_content_def intro!: lease.keeps_intros lease_io)
  have comments: "keeps (keeps_lease i job) (post_comments h url token sha cs)" for url cs
    by (induction h url token sha cs rule: post_comments.induct)
      (auto simp: send_review_payload_def intro!: lease.keeps_intros lease_io)
  show "keeps (keeps_lease i job) (post_review h repo n sha cs token body)"
    unfolding post_review_def Let_def already_reviewed_def send_review_payload_def
    by (intro lease.keeps_intros lease_io comments)
qed

lemmas lease_operations = lease.keeps_intros lease_io lease_stores lease_github

section \<open>Ending the lease\<close>

text \<open>A method that ends the lease when it returns, and still has it when it raises.\<close>

definition ends_lease :: "pystr \<Rightarrow> job \<Rightarrow> 'a io \<Rightarrow> bool" where
  "ends_lease i job m \<longleftrightarrow> (\<forall>w. holds_lease i job (w_db w) \<longrightarrow>
     (case m w of (Inl e, w') \<Rightarrow> holds_lease i job (w_db w') | (Inr x, w') \<Rightarrow> lease_ended job (w_db w')))"

lemma ends_lease_bind:
  assumes "keeps (keeps_lease i job) m" "\<And>x. ends_lease i job (k x)"
  shows "ends_lease i job (io_bind m k)"
  unfolding ends_lease_def
proof (intro allI impI)
  fix w :: world assume w: "holds_lease i job (w_db w)"
  obtain r w' where m: "m w = (r, w')" by fastforce
  with w keepsD [OF assms(1) m] have "holds_lease i job (w_db w')" by (simp add: keeps_lease_def)
  with assms(2) m show "case io_bind m k w of (Inl e, w') \<Rightarrow> holds_lease i job (w_db w')
      | (Inr x, w') \<Rightarrow> lease_ended job (w_db w')"
    by (cases r) (simp_all add: io_bind_def ends_lease_def)
qed

lemma ends_lease_pair: "(\<And>x y. ends_lease i job (f x y)) \<Longrightarrow> ends_lease i job (case p of (x, y) \<Rightarrow> f x y)"
  by (cases p) simp

lemma ends_lease_if: "ends_lease i job m \<Longrightarrow> ends_lease i job n \<Longrightarrow> ends_lease i job (if b then m else n)"
  by simp

lemma ends_lease_option:
  "ends_lease i job m \<Longrightarrow> (\<And>x. ends_lease i job (n x)) \<Longrightarrow> ends_lease i job (case v of None \<Rightarrow> m | Some x \<Rightarrow> n x)"
  by (cases v) simp_all

text \<open>A method that returns in any case and ends the lease.\<close>

definition sure_to_end :: "pystr \<Rightarrow> job \<Rightarrow> 'a io \<Rightarrow> bool" where
  "sure_to_end i job m \<longleftrightarrow> (\<forall>w. holds_lease i job (w_db w) \<longrightarrow> (\<exists>x w'. m w = (Inr x, w') \<and> lease_ended job (w_db w')))"

lemma sure_ends: "sure_to_end i job m \<Longrightarrow> ends_lease i job m"
  unfolding sure_to_end_def ends_lease_def by fastforce

lemma sure_after:
  assumes "keeps (keeps_lease i job) m" "\<And>w. \<exists>x w'. m w = (Inr x, w')" "\<And>x. sure_to_end i job (k x)"
  shows "sure_to_end i job (io_bind m k)"
  unfolding sure_to_end_def
proof (intro allI impI)
  fix w :: world assume w: "holds_lease i job (w_db w)"
  obtain x w' where m: "m w = (Inr x, w')" using assms(2) by blast
  with w keepsD [OF assms(1) m] have "holds_lease i job (w_db w')" by (simp add: keeps_lease_def)
  with assms(3) obtain y w'' where "k x w' = (Inr y, w'')" "lease_ended job (w_db w'')"
    unfolding sure_to_end_def by blast
  with m show "\<exists>x w'. io_bind m k w = (Inr x, w') \<and> lease_ended job (w_db w')" by (simp add: io_bind_def)
qed

text \<open>\<open>try: m except: f\<close>, with a handler that finishes the job.\<close>

lemma sure_try:
  assumes "ends_lease i job m" "\<And>e. sure_to_end i job (f e)"
  shows "sure_to_end i job (io_bind (io_try m) (\<lambda>r. case r of Inl e \<Rightarrow> f e | Inr x \<Rightarrow> io_return ()))"
  unfolding sure_to_end_def
proof (intro allI impI)
  fix w :: world assume w: "holds_lease i job (w_db w)"
  obtain r w' where m: "m w = (r, w')" by fastforce
  show "\<exists>x w'. io_bind (io_try m) (\<lambda>r. case r of Inl e \<Rightarrow> f e | Inr x \<Rightarrow> io_return ()) w = (Inr x, w')
      \<and> lease_ended job (w_db w')"
  proof (cases r)
    case (Inl e)
    with assms(1) m w have "holds_lease i job (w_db w')" unfolding ends_lease_def by fastforce
    with assms(2) obtain y w'' where "f e w' = (Inr y, w'')" "lease_ended job (w_db w'')"
      unfolding sure_to_end_def by blast
    with m Inl show ?thesis by (simp add: io_bind_def io_try_def)
  next
    case (Inr x)
    with assms(1) m w have "lease_ended job (w_db w')" unfolding ends_lease_def by fastforce
    with m Inr show ?thesis by (simp add: io_bind_def io_try_def io_return_def)
  qed
qed

lemma sure_finalize:
  assumes "loyal_host i h" "st \<in> {Success, Failure}"
  shows "sure_to_end i job (finalize h (j_id job) (j_fence_token job) st fb)"
  unfolding sure_to_end_def
proof (intro allI impI)
  fix w :: world assume "holds_lease i job (w_db w)"
  let ?d = "h_others h (w_ticks w) (w_db w)" and ?now = "h_clock h (w_ticks w)"
  have "holds_lease i job ?d" by (rule loyal_others [OF assms(1)]) fact
  then obtain j where ok: "db_ok ?d" and j: "j \<in> set (jobs ?d)" "j_id j = j_id job" "j_commit_sha j = j_commit_sha job"
    "j_status j = Processing" "phase_of_job j = phase_of_job job" by (auto simp: holds_lease_def)
  note same = phase_of_job_status [OF j(5,4)]
  have "\<not> (\<exists>e. finalize_job (h_uuid_str h) (h_cfg h) ?now (j_id job) (j_fence_token job) st (Some fb) ?d = Inl e)"
    unfolding finalize_raises_iff using j(1,2) same by blast
  then obtain d' where d': "finalize_job (h_uuid_str h) (h_cfg h) ?now (j_id job) (j_fence_token job) st (Some fb) ?d = Inr d'"
    by (metis sum.exhaust)
  have "db_ok d'" by (rule queue_step_ok [OF queue_step.finalizes [OF assms(2) d'] ok])
  moreover have "finished ?now st (Some fb) j \<in> set (jobs d')"
    using d' j(1,2) same by (auto elim!: finalize_finds simp: sql_update_hit holds_fence_def)
  ultimately have "lease_ended job d'"
    using assms(2) j(2,3) same
    by (auto simp: lease_ended_def intro!: bexI [of _ "finished ?now st (Some fb) j"])
  then show "\<exists>x w'. finalize h (j_id job) (j_fence_token job) st fb w = (Inr x, w') \<and> lease_ended job (w_db w')"
    using d' assms(1) by (simp add: finalize_def transact_def Let_def loyal_host_def)
qed

lemma sure_release:
  assumes "loyal_host i h"
  shows "sure_to_end i job (release h (j_id job) (j_fence_token job) delay)"
  unfolding sure_to_end_def
proof (intro allI impI)
  fix w :: world assume "holds_lease i job (w_db w)"
  let ?d = "h_others h (w_ticks w) (w_db w)" and ?now = "h_clock h (w_ticks w)"
  have "holds_lease i job ?d" by (rule loyal_others [OF assms]) fact
  then obtain j where ok: "db_ok ?d" and j: "j \<in> set (jobs ?d)" "j_id j = j_id job" "j_commit_sha j = j_commit_sha job"
    "j_status j = Processing" "phase_of_job j = phase_of_job job" by (auto simp: holds_lease_def)
  note same = phase_of_job_status [OF j(5,4)]
  let ?d' = "release_job ?now (j_id job) (j_fence_token job) delay ?d"
  have "db_ok ?d'" by (rule queue_step_ok [OF queue_step.releases ok])
  moreover have "released ?now delay j \<in> set (jobs ?d')"
    using j(1,2,4) same by (simp add: release_job_def sql_update_hit holds_fence_def)
  moreover have "j_id (released ?now delay j) = j_id job" "j_commit_sha (released ?now delay j) = j_commit_sha job"
    using j(2,3) by (simp_all add: released_def)
  ultimately have "lease_ended job ?d'"
    using same by (auto simp: lease_ended_def intro!: bexI [of _ "released ?now delay j"])
  then show "\<exists>x w'. release h (j_id job) (j_fence_token job) delay w = (Inr x, w') \<and> lease_ended job (w_db w')"
    using assms by (simp add: release_def transact_def Let_def loyal_host_def)
qed

lemma sure_ignoring:
  assumes "sure_to_end i job m" shows "sure_to_end i job (ignoring m)"
  using assms unfolding sure_to_end_def ignoring_def io_catch_def by fastforce

lemma sure_if: "sure_to_end i job m \<Longrightarrow> sure_to_end i job n \<Longrightarrow> sure_to_end i job (if b then m else n)"
  by simp

lemma sure_on_error:
  assumes "loyal_host i h"
  shows "sure_to_end i job (on_error h job token cr e)"
proof -
  have returns: "\<exists>x w'. (if b then ignoring m else io_return ()) w = (Inr x, w')" for b m w
    by (auto simp: ignoring_def io_catch_def io_return_def split: prod.split sum.split)
  have clock: "\<exists>x w'. clock h w = (Inr x, w')" for w by (simp add: clock_def)
  show ?thesis
    unfolding on_error_def Let_def
    by (intro sure_after sure_if sure_release sure_ignoring sure_finalize lease_operations clock returns assms) simp
qed

text \<open>However GitHub and the model answer, \<open>process_job\<close> returns and its lease has ended.\<close>

lemma process_job_ends:
  assumes "loyal_host i h"
  shows "sure_to_end i job (process_job h env job)"
proof -
  have review: "ends_lease i job (review_job h env job token cr)" for token cr
    unfolding review_job_def publish_def Let_def fetch_diff_def fetch_pull_files_def fetch_pull_request_def
    by (intro ends_lease_bind ends_lease_pair sure_ends sure_finalize lease_operations assms) simp
  have start: "keeps (keeps_lease i job) (start_check_run h job token)" for token
    unfolding start_check_run_def by (intro lease_operations assms)
  have started: "\<exists>x w'. start_check_run h job token w = (Inr x, w')" for token w
    by (auto simp: start_check_run_def io_defs io_try_def ignoring_def split: prod.split sum.split)
  have tried: "\<exists>x w'. io_try m w = (Inr x, w')" for m w by (simp add: io_try_def split: prod.split)
  show ?thesis
  proof (cases "job_input env job")
    case (Inl e)
    then show ?thesis
      unfolding process_job_def using sure_ignoring [OF sure_finalize [OF assms]] by simp
  next
    case (Inr inst)
    have "sure_to_end i job (case r of Inl e \<Rightarrow> on_error h job None None e
       | Inr token \<Rightarrow> io_bind (start_check_run h job token) (\<lambda>cr.
           io_bind (io_try (review_job h env job token cr)) (\<lambda>r. case r of
             Inl e \<Rightarrow> on_error h job (Some token) cr e | Inr _ \<Rightarrow> io_return ())))" for r
    proof (cases r)
      case (Inr token)
      show ?thesis
        unfolding Inr sum.case by (intro sure_after start started sure_try review sure_on_error assms)
    qed (simp add: sure_on_error [OF assms])
    then show ?thesis
      unfolding process_job_def Inr sum.case by (intro sure_after lease_operations assms tried)
  qed
qed

section \<open>From the delivery to the end of the job\<close>

lemma phase_of_row:
  assumes "db_ok d" "j \<in> set (jobs d)"
  shows "phase_of (j_commit_sha j) d = phase_of_job j"
proof -
  obtain k where k: "find (\<lambda>k. j_commit_sha k = j_commit_sha j) (jobs d) = Some k"
    using assms(2) by (cases "find (\<lambda>k. j_commit_sha k = j_commit_sha j) (jobs d)") (auto simp: find_None_iff)
  from find_job [OF k] have "k \<in> set (jobs d)" "j_commit_sha k = j_commit_sha j" by simp_all
  moreover have "distinct (map j_commit_sha (jobs d))" using assms(1) by (simp add: db_ok_def keys_ok_def)
  ultimately have "k = j" using assms(2) by (metis key_unique)
  with k show ?thesis by (simp add: phase_of_def)
qed

lemma reviewed_iff_final:
  assumes "db_ok d" "j \<in> set (jobs d)"
  shows "list_ex (\<lambda>r. rr_commit_sha r = j_commit_sha j) (review_records d) \<longleftrightarrow> final j"
proof -
  have rev: "reviews_ok d" and uniq: "distinct (map j_commit_sha (jobs d))"
    using assms(1) by (simp_all add: db_ok_def keys_ok_def)
  have "final j" if r: "r \<in> set (review_records d)" "rr_commit_sha r = j_commit_sha j" for r
  proof -
    obtain k where "k \<in> set (jobs d)" "j_commit_sha k = rr_commit_sha r" "final k"
      using rev r(1) by (auto simp: reviews_ok_def)
    with key_unique [OF uniq _ assms(2), of k] r(2) show ?thesis by simp
  qed
  moreover have "\<exists>r \<in> set (review_records d). rr_commit_sha r = j_commit_sha j" if "final j"
    using rev that assms(2) by (auto simp: reviews_ok_def)
  ultimately show ?thesis by (auto simp: list_ex_iff)
qed

lemma enqueue_absent:
  assumes "db_ok d" "phase_of sha d = Absent"
  shows "enqueue_if_new now new_id sha repo pull inst trace d
    = (True, d\<lparr>jobs := jobs d @ [new_job now new_id sha repo pull inst trace]\<rparr>)"
proof -
  have no_job: "\<not> list_ex (\<lambda>j. j_commit_sha j = sha) (jobs d)"
    using assms phase_of_row [OF assms(1)] by (auto simp: list_ex_iff phase_of_job_def split: job_status.splits)
  have "\<not> list_ex (\<lambda>r. rr_commit_sha r = sha) (review_records d)"
    using assms(1) no_job by (auto simp: db_ok_def reviews_ok_def list_ex_iff)
  with no_job show ?thesis by (simp add: enqueue_if_new_def)
qed

lemma claim_only_pending:
  assumes "jobs d = old @ [j]" "list_all (\<lambda>j. j_status j \<noteq> Pending) old" "claimable now j" "\<not> locked (j_id j)"
  shows "fst (claim_job now i locked d) = Some (claimed now i j)"
proof -
  have "filter (\<lambda>j. claimable now j \<and> \<not> locked (j_id j)) old = []"
    using assms(2) by (auto simp: filter_empty_conv list_all_iff claimable_def)
  then have "next_claim now locked (jobs d) = Some j"
    using assms by (simp add: next_claim_def py_sorted_def)
  then show ?thesis by (simp add: claim_job_def)
qed

lemma claimed_row_holds:
  assumes "db_ok d" "claim_job now i locked d = (Some job, d')"
  shows "holds_lease i job d'"
proof -
  have step: "queue_step undefined undefined d (Claimed i (Some job)) d'" using assms(2) by (rule queue_step.claims)
  have "db_ok d'" by (rule queue_step_ok [OF step assms(1)])
  from claim_step_row [OF assms(1) step] obtain now' j where "job = claimed now' i j" "job \<in> set (jobs d')" by metis
  with \<open>db_ok d'\<close> show ?thesis unfolding holds_lease_def by (intro conjI bexI [of _ job]) (simp_all add: claimed_def)
qed

lemma new_job_input: "job_input env (claimed now i (new_job t new_id sha repo pull inst trace)) = Inr inst"
  by (simp add: claimed_def new_job_def job_input_def parse_job_payload_def parse_trace_context_def job_payload_def
    dict_item_def as_str_def as_dict_def)


section \<open>A delivery at work\<close>

definition demo_event :: pull_event where
  "demo_event = \<lparr>pe_sha = lit ''abc'', pe_repo = lit ''o/r'', pe_number = 3, pe_installation = 7\<rparr>"

definition demo_text :: "bytes \<Rightarrow> pystr outcome" where
  "demo_text body = Inr (json_dumps (\<lambda>_. []) (PDict demo_opened))"

lemma quiet_loyal: "loyal_host i quiet_host"
  by (simp add: loyal_host_def quiet_host_def leases_kept_same)


end
