(* ===== verification/Spec2Isabelle.thy ===== *)
theory Spec2Isabelle
  imports Service Comments Graph ReviewBudget Json JobLifecycle Webhook WorkerLoop ChaosReport ReviewProbes
    PostReview TokenBench QueueBench WalBench Deployment Delivery
begin

text \<open>
  Revix reviews GitHub pull requests. A web process receives webhooks and enqueues one job per head
  commit in PostgreSQL; worker processes claim jobs, fetch the pull request, let a swarm of language
  model agents review it in chunks, post the review and record the result. This library models
  the Python code under \<open>src/app\<close>, the schema and the migration runner under \<open>src/migrations\<close> and the scripts under \<open>src/scripts\<close>, and proves what
  makes it correct. Paths below are relative to \<open>src/\<close>.

  \<^bold>\<open>Ground.\<close>
  \<^item> \<open>Prelude\<close>: lists as Python and SQL use them, runs and reachability, the locales
    \<open>safe_system\<close>, \<open>ordered_system\<close> and \<open>monotone_system\<close> for invariants of transition systems and \<open>simulation\<close>
    for refinement of an abstract machine.
  \<^item> \<open>PyStr\<close>, \<open>PyValue\<close>, \<open>Utf8\<close>, \<open>Json\<close>: Python's text (code points), dynamically typed values,
    exceptions as values, UTF-8 and JSON. The JSON decoder recurses with fuel
    \<open>2 * length s + 2\<close>, which \<open>json_fuel_suffices\<close> shows to be enough.
  \<^item> \<open>World\<close>: what asynchronous methods act on. A method maps a world (database, log of requests and
    commits, clock ticks) to an outcome and a new world; the record \<open>host\<close> holds the outside: HTTP
    server, clock, the other transactions that happen between two accesses, failing commits. The locale
    \<open>kept_relation\<close> proves what whole methods keep from what their steps keep.

  \<^bold>\<open>Components.\<close>
  \<^item> \<open>Settings\<close> (\<open>app/config.py\<close>), \<open>Tables\<close> (\<open>migrations/versions/0001_initial_schema.py\<close>), \<open>Pool\<close>
    (\<open>app/services/db/core.py\<close>).
  \<^item> \<open>JobQueue\<close> (\<open>app/services/db/queue.py\<close>): every repository method as one atomic
    transaction on the record \<open>db\<close>. \<open>QueueSafety\<close> makes them one transition system and proves its
    invariant; \<open>Fencing\<close> and \<open>Recovery\<close> hold the lemmas on fence tokens and on single
    operations; \<open>QueueGuarantees\<close> states the results.
  \<^item> \<open>DiffLines\<close>, \<open>SyntaxTree\<close>, \<open>Indexer\<close>, \<open>Chunker\<close>, \<open>ReviewBudget\<close> (\<open>app/services/ai.py\<close>): changed
    lines of a patch, the index of a file, its chunks, the choice of what is reviewed. \<open>Graph\<close>
    (\<open>app/services/db/graph.py\<close>) stores the index.
  \<^item> \<open>Findings\<close>, \<open>Comments\<close>: the review models of \<open>app/services/ai.py\<close> and the comments and the body
    \<open>app/worker.py\<close> makes of them.
  \<^item> \<open>AgentOutput\<close>, \<open>Sandbox\<close>, \<open>Swarm\<close> (\<open>app/services/ai.py\<close>): reading a model's answer, running a
    script in Docker, and routing, agents, synthesis and \<open>analyze_diff\<close> on top. The model is a
    function from the number of the call and its request to a reply or an exception.
  \<^item> \<open>GitHub\<close> (\<open>app/services/github.py\<close>), \<open>Webhook\<close> (\<open>app/main.py\<close>); \<open>Service\<close> for the rest of the API process,
    logging (\<open>app/logging.py\<close>) and the migration runner (\<open>migrations/env.py\<close>).
  \<^item> \<open>ReviewJob\<close> (\<open>ReviewWorker.process_job\<close> of \<open>app/worker.py\<close>) with \<open>JobSafety\<close> and \<open>JobOutcomes\<close>;
    \<open>JobLifecycle\<close> for the abstract machine of a job that queue and workers implement together;
    \<open>WorkerLoop\<close> for the main loop, the shutdown, heartbeats and reconciliation rounds.
  \<^item> \<open>Deployment\<close>: web processes (\<open>app/main.py\<close>) and worker processes (\<open>app/worker.py\<close>) on one database as a
    transition system at the grain of one transaction, with crashes. Each asynchronous method of the components is
    a sequence of its steps, as long as what the others do in between is one (rely and guarantee over the locale
    \<open>kept_relation\<close>). A process that dies inside a method is a host whose transactions fail from then on, and then the
    step in which the worker leaves. \<open>Delivery\<close> follows one commit from its webhook through the claim to the end of its job.
  \<^item> \<open>ChaosHarness\<close> (\<open>scripts/chaos_sigkill.py\<close>): the fault-injection harness as a transition system
    over the queue; \<open>ChaosReport\<close> puts its orchestrator on top, with victims, counters and figures.
  \<^item> \<open>DefectProbe\<close> (\<open>scripts/defect_detection_probe.py\<close>) and \<open>ReviewProbes\<close> (\<open>test_fastcache_pr.py\<close>,
    \<open>verify_ai.py\<close>, \<open>benchmark_indexer.py\<close>); \<open>PostReview\<close> (\<open>post_github_review.py\<close>).
  \<^item> \<open>Stats\<close>: percentiles, mean, median and quantiles of the benchmarks \<open>TokenBench\<close> (\<open>benchmark_tokens.py\<close>),
    \<open>QueueBench\<close> (\<open>benchmark_queue.py\<close>, a transition system over the queue) and \<open>WalBench\<close> (\<open>benchmark_wal.py\<close>).

  \<^bold>\<open>What is shown.\<close>
  \<^item> The queue: one invariant of all reachable databases; exclusive claims by fence token; permanence of
    finished jobs; at most three attempts; recovery of crashed jobs and protection of live ones. Read by
    commit, it refines a machine of five phases, in which a job changes its phase at most nine times.
  \<^item> The system: any interleaving of deliveries, claims, jobs, heartbeats, reconciliation and crashes implements the
    machine of five phases; no two running jobs can settle the same row; a delivered commit is accepted, claimed and
    brought to an end, whatever GitHub and the model answer.
  \<^item> A job: processing keeps the database invariant against any environment, settles the job at most
    once, records a success only for a posted review, and leaves a lost job alone.
  \<^item> The loop: the number of running jobs is bounded, no permit leaks, shutdown gives back what still
    runs; reconciliation reports exactly what it took back.
  \<^item> The review: changed lines are found and reviewed, chunks partition the touched units within
    the budget, no finding of an agent is lost, results are well typed and read back from the database.
  \<^item> The borders: only authentic deliveries act, only trusted authors override, containers are
    isolated, suggestion blocks are closed, a second review of a commit is suppressed.
  \<^item> The harness: under any kills and freezes every success took effect before its commit, no claim takes effect
    twice, and a passing verdict means that every job was recovered; a campaign of faults is a run of the harness, and its
    counters agree with the faults it recorded.
  \<^item> The scripts: the posting script knows exactly the lines a diff shows and sends what is placed on them; the queue
    benchmark measures no job twice, and in both regimes as many as it was asked for unless its deadline passes; the figures of the token report add up.
  \<^item> Behaviour that is not intended, as theorems of kind error: a stale release costs the owner its job,
    a lost commit answer overwrites a success, an outage of the model becomes the score 0, and others.

  \<^bold>\<open>Arguments of the model.\<close> Docker, tree-sitter, the language model, HTTP, HMAC, JWT signatures, the
  conversion of floats, and the file system are arguments of the definitions. A database
  transaction is atomic and serialised; row locks that other transactions hold are a predicate.

  \<^bold>\<open>Not modelled.\<close> Log lines and telemetry (the OpenTelemetry provider, spans and histograms), which have no
  effect on the behaviour; cancellation of tasks other than as an event of the worker loop; of the scripts the
  parsing of arguments, the printed layout, the JSON file of the token benchmark and the tables of the WAL benchmark;
  the self-check at the end of \<open>app/config.py\<close>.
\<close>

end
